(* ===== verification/Prelude.thy ===== *)
theory Prelude
  imports Main "HOL-Library.Sublist" "HOL-Library.Char_ord" "HOL-Library.List_Lexorder"
begin

text \<open>
  Shared vocabulary of the development: results, the string operations of the Rust standard
  library that the sources use, saturating arithmetic at 64 bits and the sequencing operator that
  stands for the question-mark operator in a function that changes state.  A string is the list of
  its bytes; the case conversions act on the ASCII letters.
\<close>

section \<open>Collections of facts\<close>

named_theorems string_defs \<open>definitions of the string operations\<close>
named_theorems storage_simps \<open>what a storage operation returns and leaves behind\<close>
named_theorems result_simps \<open>rewriting of sequenced results\<close>

section \<open>Results\<close>

type_synonym ('e, 'a) result = "'e + 'a"

definition is_ok :: "('e, 'a) result \<Rightarrow> bool" where
  "is_ok r = (case r of Inl _ \<Rightarrow> False | Inr _ \<Rightarrow> True)"

lemma is_ok_simps [simp]: "is_ok (Inr x)" "\<not> is_ok (Inl e)"
  by (simp_all add: is_ok_def)

text \<open>
  A fallible operation on a state returns a result and the state it leaves; \<open>and_then\<close> runs
  the continuation on the value, and an error ends the function with the state reached so far.
\<close>

definition and_then ::
  "('e, 'a) result \<times> 's \<Rightarrow> ('a \<Rightarrow> 's \<Rightarrow> ('e, 'b) result \<times> 's) \<Rightarrow> ('e, 'b) result \<times> 's" where
  "and_then p k = (case p of (Inl e, s) \<Rightarrow> (Inl e, s) | (Inr x, s) \<Rightarrow> k x s)"

lemma and_then_simps [simp, result_simps]:
  "and_then (Inl e, s) k = (Inl e, s)"
  "and_then (Inr x, s) k = k x s"
  by (simp_all add: and_then_def)

lemma and_then_InrE:
  assumes "and_then p k = (Inr y, t)"
  obtains x s where "p = (Inr x, s)" and "k x s = (Inr y, t)"
  using assms by (auto simp: and_then_def split: prod.splits sum.splits)

lemma and_then_cases:
  assumes "and_then p k = (r, t)"
  obtains e where "p = (Inl e, t)" and "r = Inl e"
  | x s where "p = (Inr x, s)" and "k x s = (r, t)"
  using assms by (auto simp: and_then_def split: prod.splits sum.splits)

text \<open>The error conversion applied by \<open>map_err\<close> and by a \<open>From\<close> instance.\<close>

definition map_err :: "('e \<Rightarrow> 'f) \<Rightarrow> ('e, 'a) result \<times> 's \<Rightarrow> ('f, 'a) result \<times> 's" where
  "map_err f p = (case p of (Inl e, s) \<Rightarrow> (Inl (f e), s) | (Inr x, s) \<Rightarrow> (Inr x, s))"

lemma map_err_simps [simp, result_simps]:
  "map_err f (Inl e, s) = (Inl (f e), s)"
  "map_err f (Inr x, s) = (Inr x, s)"
  by (simp_all add: map_err_def)

lemma map_err_cases:
  assumes "map_err f p = (r, t)"
  obtains e where "p = (Inl e, t)" and "r = Inl (f e)"
  | x where "p = (Inr x, t)" and "r = Inr x"
  using assms by (auto simp: map_err_def split: prod.splits sum.splits)

lemma map_err_Inr: "map_err f p = (Inr x, t) \<longleftrightarrow> p = (Inr x, t)"
  by (auto simp: map_err_def split: prod.splits sum.splits)

section \<open>Strings\<close>

definition starts_with :: "string \<Rightarrow> string \<Rightarrow> bool" where
  [string_defs]: "starts_with s p = (take (length p) s = p)"

definition ends_with :: "string \<Rightarrow> string \<Rightarrow> bool" where
  [string_defs]: "ends_with s p = (length p \<le> length s \<and> drop (length s - length p) s = p)"

lemma starts_with_iff: "starts_with s p \<longleftrightarrow> (\<exists>t. s = p @ t)"
  by (metis append_eq_conv_conj starts_with_def append_take_drop_id)

lemma ends_with_iff: "ends_with s p \<longleftrightarrow> (\<exists>t. s = t @ p)"
proof
  assume "ends_with s p"
  then have "s = take (length s - length p) s @ p"
    by (metis append_take_drop_id ends_with_def)
  then show "\<exists>t. s = t @ p" by blast
qed (auto simp: ends_with_def)

lemma starts_with_append [simp]: "starts_with (p @ t) p"
  by (auto simp: starts_with_iff)

lemma starts_with_Nil [simp]: "starts_with s []"
  by (simp add: starts_with_def)

lemma ends_with_append [simp]: "ends_with (t @ p) p"
  by (auto simp: ends_with_iff)

lemma starts_with_trans: "starts_with s p \<Longrightarrow> starts_with p q \<Longrightarrow> starts_with s q"
  by (auto simp: starts_with_iff)

fun contains_str :: "string \<Rightarrow> string \<Rightarrow> bool" where
  "contains_str [] p = (p = [])"
| "contains_str (c # s) p = (starts_with (c # s) p \<or> contains_str s p)"

lemma contains_str_iff: "contains_str s p \<longleftrightarrow> (\<exists>u v. s = u @ p @ v)"
proof (induction s)
  case Nil
  then show ?case by auto
next
  case (Cons c s)
  have "(\<exists>u v. c # s = u @ p @ v) \<longleftrightarrow> starts_with (c # s) p \<or> (\<exists>u v. s = u @ p @ v)"
  proof
    assume "\<exists>u v. c # s = u @ p @ v"
    then obtain u v where uv: "c # s = u @ p @ v" by blast
    show "starts_with (c # s) p \<or> (\<exists>u v. s = u @ p @ v)"
    proof (cases u)
      case Nil
      with uv show ?thesis by (simp add: starts_with_iff)
    next
      case (Cons d u')
      with uv show ?thesis by auto
    qed
  next
    assume "starts_with (c # s) p \<or> (\<exists>u v. s = u @ p @ v)"
    then show "\<exists>u v. c # s = u @ p @ v"
    proof
      assume "starts_with (c # s) p"
      then obtain t where "c # s = p @ t" by (auto simp: starts_with_iff)
      then have "c # s = [] @ p @ t" by simp
      then show ?thesis by blast
    next
      assume "\<exists>u v. s = u @ p @ v"
      then obtain u v where "s = u @ p @ v" by blast
      then have "c # s = (c # u) @ p @ v" by simp
      then show ?thesis by blast
    qed
  qed
  with Cons.IH show ?case by simp
qed

definition trim_start_matches :: "char \<Rightarrow> string \<Rightarrow> string" where
  [string_defs]: "trim_start_matches c s = dropWhile (\<lambda>x. x = c) s"

definition trim_end_matches :: "char \<Rightarrow> string \<Rightarrow> string" where
  [string_defs]: "trim_end_matches c s = rev (dropWhile (\<lambda>x. x = c) (rev s))"

lemma trim_start_idem [simp]: "trim_start_matches c (trim_start_matches c s) = trim_start_matches c s"
  by (simp add: trim_start_matches_def dropWhile_idem)

lemma hd_trim_start: "trim_start_matches c s = d # t \<Longrightarrow> d \<noteq> c"
  by (auto simp: trim_start_matches_def dropWhile_eq_Cons_conv)

lemma set_trim_start: "set (trim_start_matches c s) \<subseteq> set s"
  by (auto simp: trim_start_matches_def dest: set_dropWhileD)

text \<open>\<open>split\<close> on a character: always at least one field.\<close>

fun split_on :: "char \<Rightarrow> string \<Rightarrow> string list" where
  "split_on c [] = [[]]"
| "split_on c (x # xs) =
     (if x = c then [] # split_on c xs
      else (case split_on c xs of [] \<Rightarrow> [[x]] | f # fs \<Rightarrow> (x # f) # fs))"

lemma split_on_nonempty [simp]: "split_on c s \<noteq> []"
  by (induction s) (auto split: list.splits)

lemma split_on_append: "split_on c (a @ c # r) = split_on c a @ split_on c r"
  by (induction a) (auto split: list.split)

lemma split_on_no_sep: "f \<in> set (split_on c s) \<Longrightarrow> c \<notin> set f"
proof (induction s arbitrary: f)
  case Nil
  then show ?case by simp
next
  case (Cons x xs)
  show ?case
  proof (cases "x = c")
    case True
    with Cons show ?thesis by auto
  next
    case False
    obtain g gs where g: "split_on c xs = g # gs"
      by (cases "split_on c xs") auto
    with False Cons.prems have "f = x # g \<or> f \<in> set gs" by auto
    with False g Cons.IH show ?thesis by auto
  qed
qed

fun join_with :: "char \<Rightarrow> string list \<Rightarrow> string" where
  "join_with c [] = []"
| "join_with c [f] = f"
| "join_with c (f # g # fs) = f @ c # join_with c (g # fs)"

lemma join_split [simp]: "join_with c (split_on c s) = s"
proof (induction s)
  case Nil
  then show ?case by simp
next
  case (Cons x xs)
  obtain g gs where g: "split_on c xs = g # gs"
    by (cases "split_on c xs") auto
  with Cons show ?case by (cases gs) auto
qed

text \<open>The position-free form of \<open>rfind\<close>: the text before and after the last occurrence.\<close>

definition rsplit_once :: "char \<Rightarrow> string \<Rightarrow> (string \<times> string) option" where
  [string_defs]: "rsplit_once c s =
     (let tl_rev = takeWhile (\<lambda>x. x \<noteq> c) (rev s)
      in case dropWhile (\<lambda>x. x \<noteq> c) (rev s) of
           [] \<Rightarrow> None
         | _ # before_rev \<Rightarrow> Some (rev before_rev, rev tl_rev))"

lemma rsplit_once_Some:
  "rsplit_once c s = Some (a, b) \<longleftrightarrow> s = a @ c # b \<and> c \<notin> set b"
proof
  assume "rsplit_once c s = Some (a, b)"
  then obtain d before where d: "dropWhile (\<lambda>x. x \<noteq> c) (rev s) = d # before"
    and a: "a = rev before" and b: "b = rev (takeWhile (\<lambda>x. x \<noteq> c) (rev s))"
    by (auto simp: rsplit_once_def Let_def split: list.splits)
  from d have "d = c" by (auto simp: dropWhile_eq_Cons_conv)
  have "rev s = rev b @ d # before"
    using d b by (metis rev_rev_ident takeWhile_dropWhile_id)
  then have "s = rev before @ d # b" by (metis append_Cons append_Nil append_assoc rev.simps(2) rev_append rev_rev_ident)
  moreover have "c \<notin> set b" using b by (auto dest: set_takeWhileD)
  ultimately show "s = a @ c # b \<and> c \<notin> set b" using a \<open>d = c\<close> by simp
next
  assume s: "s = a @ c # b \<and> c \<notin> set b"
  then have r: "rev s = rev b @ c # rev a" by simp
  have nb: "\<forall>x\<in>set (rev b). x \<noteq> c" using s by auto
  have t: "takeWhile (\<lambda>x. x \<noteq> c) (rev s) = rev b"
    unfolding r using nb by (subst takeWhile_append2) auto
  have d: "dropWhile (\<lambda>x. x \<noteq> c) (rev s) = c # rev a"
    unfolding r using nb by (subst dropWhile_append2) auto
  show "rsplit_once c s = Some (a, b)"
    by (simp add: rsplit_once_def t d)
qed

lemma rsplit_once_None: "rsplit_once c s = None \<longleftrightarrow> c \<notin> set s"
proof -
  have "c \<notin> set s \<longleftrightarrow> dropWhile (\<lambda>x. x \<noteq> c) (rev s) = []"
    by auto
  then show ?thesis
    by (auto simp: rsplit_once_def Let_def simp del: dropWhile_eq_Nil_conv split: list.split)
qed

text \<open>\<open>find\<close> for a string: the text before the first occurrence and the text after it.\<close>

fun split_once_str :: "string \<Rightarrow> string \<Rightarrow> (string \<times> string) option" where
  "split_once_str p [] = (if p = [] then Some ([], []) else None)"
| "split_once_str p (c # s) =
     (if starts_with (c # s) p then Some ([], drop (length p) (c # s))
      else map_option (\<lambda>(a, b). (c # a, b)) (split_once_str p s))"

lemma split_once_str_Some: "split_once_str p s = Some (a, b) \<Longrightarrow> s = a @ p @ b"
proof (induction s arbitrary: a)
  case Nil
  then show ?case by (auto split: if_splits)
next
  case (Cons c s)
  show ?case
  proof (cases "starts_with (c # s) p")
    case True
    with Cons.prems have "a = []" and "b = drop (length p) (c # s)" by auto
    with True show ?thesis by (auto simp: starts_with_iff)
  next
    case False
    with Cons.prems obtain a' where "split_once_str p s = Some (a', b)" and "a = c # a'" by auto
    with Cons.IH show ?thesis by simp
  qed
qed

definition ascii_lower_char :: "char \<Rightarrow> char" where
  "ascii_lower_char c =
     (if CHR ''A'' \<le> c \<and> c \<le> CHR ''Z'' then char_of (of_char c + (32::nat)) else c)"

definition to_ascii_lowercase :: "string \<Rightarrow> string" where
  [string_defs]: "to_ascii_lowercase s = map ascii_lower_char s"

lemma length_to_ascii_lowercase [simp]: "length (to_ascii_lowercase s) = length s"
  by (simp add: to_ascii_lowercase_def)

text \<open>Decimal printing and parsing of an unsigned integer.\<close>

definition digit_char :: "nat \<Rightarrow> char" where
  "digit_char d = char_of (48 + d)"

fun nat_to_string :: "nat \<Rightarrow> string" where
  "nat_to_string n =
     (if n < 10 then [digit_char n] else nat_to_string (n div 10) @ [digit_char (n mod 10)])"

declare nat_to_string.simps [simp del]

definition char_digit :: "char \<Rightarrow> nat option" where
  "char_digit c = (if 48 \<le> (of_char c :: nat) \<and> (of_char c :: nat) \<le> 57
                   then Some (of_char c - 48) else None)"

fun parse_digits :: "nat \<Rightarrow> string \<Rightarrow> nat option" where
  "parse_digits acc [] = Some acc"
| "parse_digits acc (c # s) =
     (case char_digit c of None \<Rightarrow> None | Some d \<Rightarrow> parse_digits (10 * acc + d) s)"

lemma char_digit_digit_char [simp]: "d < 10 \<Longrightarrow> char_digit (digit_char d) = Some d"
  by (simp add: char_digit_def digit_char_def)

lemma parse_digits_append:
  "parse_digits acc (s @ t) = (case parse_digits acc s of None \<Rightarrow> None | Some a \<Rightarrow> parse_digits a t)"
  by (induction s arbitrary: acc) (auto split: option.splits)

lemma nat_to_string_nonempty [simp]: "nat_to_string n \<noteq> []"
  by (subst nat_to_string.simps) simp

lemma parse_nat_to_string: "parse_digits 0 (nat_to_string n) = Some n"
proof (induction n rule: nat_to_string.induct)
  case (1 n)
  show ?case
  proof (cases "n < 10")
    case True
    then show ?thesis by (subst nat_to_string.simps) simp
  next
    case False
    then have "parse_digits 0 (nat_to_string (n div 10)) = Some (n div 10)" using 1 by simp
    with False show ?thesis
      by (subst nat_to_string.simps) (simp add: parse_digits_append)
  qed
qed

section \<open>Machine integers\<close>

definition u64_max :: nat where "u64_max = 2 ^ 64 - 1"

definition sat_add :: "nat \<Rightarrow> nat \<Rightarrow> nat" where
  "sat_add a b = min u64_max (a + b)"

lemma sat_add_code [code]: "sat_add a b = nat (min (2 ^ 64 - 1) (int a + int b))"
  by (simp add: sat_add_def u64_max_def min_def nat_le_iff nat_add_distrib)

lemma sat_add_le [simp]: "sat_add a b \<le> u64_max"
  by (simp add: sat_add_def)

lemma sat_add_exact: "a + b \<le> u64_max \<Longrightarrow> sat_add a b = a + b"
  by (simp add: sat_add_def)

definition i64_min :: int where "i64_min = - (2 ^ 63)"
definition i64_max :: int where "i64_max = 2 ^ 63 - 1"

definition sat_i64 :: "int \<Rightarrow> int" where
  "sat_i64 x = max i64_min (min i64_max x)"

lemma sat_i64_bounds: "i64_min \<le> sat_i64 x \<and> sat_i64 x \<le> i64_max"
  by (auto simp: sat_i64_def i64_min_def i64_max_def)

section \<open>Lists and maps\<close>

lemma map_le_restrict: "m |` A \<subseteq>\<^sub>m m"
  by (simp add: map_le_def)

end
