(* ===== verification/Types.thy ===== *)
theory Types
  imports Prelude
begin

text \<open>
  The core types of \<open>src/src/types.rs\<close>: object keys and their validation, the per-object
  metadata with its storage class, the conversion of metadata to and from the bare header map that
  the S3 backend writes (\<open>src/src/storage/s3.rs\<close>), entity tags, and the policy that decides
  which of several versions of a key a listing shows.  Time stamps are nanoseconds since the epoch.
\<close>

section \<open>Object keys\<close>

record object_key =
  ok_bucket :: string
  ok_prefix :: string
  ok_filename :: string

datatype key_validation_error =
    NulBytes | Backslashes | SlashInFilename | DotDotSegment | EmptyKey | InvalidFilename
  | ReservedReference | ReservedDelta | EmptySegments

definition parse_key :: "string \<Rightarrow> string \<Rightarrow> object_key" where
  "parse_key bucket key =
     (let key = trim_start_matches (CHR ''/'') key;
          (pre, fname) = (case rsplit_once (CHR ''/'') key of
                            Some (a, b) \<Rightarrow> (a, b)
                          | None \<Rightarrow> ([], key))
      in \<lparr>ok_bucket = bucket, ok_prefix = pre, ok_filename = fname\<rparr>)"

definition full_key :: "object_key \<Rightarrow> string" where
  "full_key k = (if ok_prefix k = [] then ok_filename k
                 else ok_prefix k @ ''/'' @ ok_filename k)"

definition deltaspace_id :: "object_key \<Rightarrow> string" where
  "deltaspace_id k = ok_prefix k"

definition validate_key_path :: "string \<Rightarrow> bool \<Rightarrow> (key_validation_error, unit) result" where
  "validate_key_path v allow_slashes =
     (if CHR 0x00 \<in> set v then Inl NulBytes
      else if CHR 0x5C \<in> set v then Inl Backslashes
      else if \<not> allow_slashes \<and> CHR ''/'' \<in> set v then Inl SlashInFilename
      else if ''..'' \<in> set (split_on (CHR ''/'') v) then Inl DotDotSegment
      else Inr ())"

definition validate_object :: "object_key \<Rightarrow> (key_validation_error, unit) result" where
  "validate_object k =
     (case validate_key_path (ok_prefix k) True of Inl e \<Rightarrow> Inl e | Inr _ \<Rightarrow>
      case validate_key_path (ok_filename k) False of Inl e \<Rightarrow> Inl e | Inr _ \<Rightarrow>
      if ok_filename k = [] then Inl EmptyKey
      else if ok_filename k = ''.'' \<or> ok_filename k = ''..'' then Inl InvalidFilename
      else if ok_filename k = ''reference.bin'' then Inl ReservedReference
      else if ends_with (ok_filename k) ''.delta'' then Inl ReservedDelta
      else Inr ())"

definition validate_prefix :: "string \<Rightarrow> (key_validation_error, unit) result" where
  "validate_prefix p = validate_key_path p True"

definition validate_ingest :: "object_key \<Rightarrow> (key_validation_error, unit) result" where
  "validate_ingest k =
     (case validate_object k of Inl e \<Rightarrow> Inl e | Inr _ \<Rightarrow>
      if contains_str (trim_end_matches (CHR ''/'') (ok_prefix k)) ''//'' then Inl EmptySegments
      else Inr ())"

section \<open>Per-object metadata\<close>

datatype storage_info =
    Reference (source_name: string)
  | Delta (ref_path: string) (ref_sha256: string) (delta_size: nat) (delta_cmd: string)
  | Passthrough

record file_metadata =
  tool :: string
  original_name :: string
  file_sha256 :: string
  file_size :: nat
  md5 :: string
  multipart_etag :: "string option"
  created_at :: int
  content_type :: "string option"
  user_metadata :: "string \<rightharpoonup> string"
  storage_info :: storage_info

definition deltaglider_tool :: string where
  "deltaglider_tool = ''deltaglider_proxy/1.19.0''"

definition storage_label :: "storage_info \<Rightarrow> string" where
  "storage_label si = (case si of
     Reference _ \<Rightarrow> ''reference'' | Delta _ _ _ _ \<Rightarrow> ''delta'' | Passthrough \<Rightarrow> ''passthrough'')"

definition delta_stub :: "nat \<Rightarrow> storage_info" where
  "delta_stub n = Delta [] [] n []"

definition new_reference ::
  "int \<Rightarrow> string \<Rightarrow> string \<Rightarrow> string \<Rightarrow> string \<Rightarrow> nat \<Rightarrow> string option \<Rightarrow> file_metadata" where
  "new_reference now name src sha m5 sz ct =
     \<lparr>tool = deltaglider_tool, original_name = name, file_sha256 = sha, file_size = sz, md5 = m5,
      multipart_etag = None, created_at = now, content_type = ct, user_metadata = Map.empty,
      storage_info = Reference src\<rparr>"

definition new_delta ::
  "int \<Rightarrow> string \<Rightarrow> string \<Rightarrow> string \<Rightarrow> nat \<Rightarrow> string \<Rightarrow> string \<Rightarrow> nat \<Rightarrow> string option \<Rightarrow> file_metadata" where
  "new_delta now name sha m5 sz rpath rsha dsize ct =
     \<lparr>tool = deltaglider_tool, original_name = name, file_sha256 = sha, file_size = sz, md5 = m5,
      multipart_etag = None, created_at = now, content_type = ct, user_metadata = Map.empty,
      storage_info = Delta rpath rsha dsize
        (''xdelta3 -e -9 -s reference.bin '' @ name @ '' '' @ name @ ''.delta'')\<rparr>"

definition new_passthrough ::
  "int \<Rightarrow> string \<Rightarrow> string \<Rightarrow> string \<Rightarrow> nat \<Rightarrow> string option \<Rightarrow> file_metadata" where
  "new_passthrough now name sha m5 sz ct =
     \<lparr>tool = deltaglider_tool, original_name = name, file_sha256 = sha, file_size = sz, md5 = m5,
      multipart_etag = None, created_at = now, content_type = ct, user_metadata = Map.empty,
      storage_info = Passthrough\<rparr>"

definition fallback_metadata ::
  "string \<Rightarrow> nat \<Rightarrow> string \<Rightarrow> int \<Rightarrow> string option \<Rightarrow> storage_info \<Rightarrow> file_metadata" where
  "fallback_metadata name sz m5 at ct si =
     \<lparr>tool = deltaglider_tool, original_name = name, file_sha256 = [], file_size = sz, md5 = m5,
      multipart_etag = None, created_at = at, content_type = ct, user_metadata = Map.empty,
      storage_info = si\<rparr>"

definition directory_marker :: "int \<Rightarrow> string \<Rightarrow> file_metadata" where
  "directory_marker now key =
     \<lparr>tool = deltaglider_tool, original_name = key, file_sha256 = [], file_size = 0,
      md5 = ''d41d8cd98f00b204e9800998ecf8427e'', multipart_etag = None, created_at = now,
      content_type = Some ''application/x-directory'', user_metadata = Map.empty,
      storage_info = Passthrough\<rparr>"

lemmas new_metadata_defs = new_reference_def new_delta_def new_passthrough_def

definition quoted :: "string \<Rightarrow> string" where
  "quoted s = CHR 0x22 # s @ [CHR 0x22]"

definition etag :: "file_metadata \<Rightarrow> string" where
  "etag m = (case multipart_etag m of
     Some e \<Rightarrow> if starts_with e [CHR 0x22] \<and> ends_with e [CHR 0x22] then e else quoted e
   | None \<Rightarrow> quoted (md5 m))"

definition is_reference :: "file_metadata \<Rightarrow> bool" where
  "is_reference m = (case storage_info m of Reference _ \<Rightarrow> True | _ \<Rightarrow> False)"

definition is_delta :: "file_metadata \<Rightarrow> bool" where
  "is_delta m = (case storage_info m of Delta _ _ _ _ \<Rightarrow> True | _ \<Rightarrow> False)"

definition delta_size_of :: "file_metadata \<Rightarrow> nat option" where
  "delta_size_of m = (case storage_info m of Delta _ _ n _ \<Rightarrow> Some n | _ \<Rightarrow> None)"

definition stored_size_of :: "file_metadata \<Rightarrow> nat" where
  "stored_size_of m = (case storage_info m of
     Delta _ _ n _ \<Rightarrow> n | Reference _ \<Rightarrow> file_size m | Passthrough \<Rightarrow> file_size m)"

section \<open>The result of a store\<close>

record store_result =
  sr_metadata :: file_metadata
  stored_size :: nat
  replaced :: "file_metadata option"
  reference_created_bytes :: nat

definition new_store_result :: "file_metadata \<Rightarrow> nat \<Rightarrow> store_result" where
  "new_store_result m n =
     \<lparr>sr_metadata = m, stored_size = n, replaced = None, reference_created_bytes = 0\<rparr>"

definition with_accounting :: "store_result \<Rightarrow> file_metadata option \<Rightarrow> nat \<Rightarrow> store_result" where
  "with_accounting r prior n = r\<lparr>replaced := prior, reference_created_bytes := n\<rparr>"

section \<open>Metadata as headers\<close>

text \<open>
  The printing of a time stamp is chrono's; it is the parameter \<open>fmt\<close>, and its inverse the
  parameter \<open>prs\<close>.  The header map is a partial function from header names to values.
\<close>

type_synonym headers = "string \<rightharpoonup> string"

definition strip_prefix :: "string \<Rightarrow> string \<Rightarrow> string option" where
  "strip_prefix p s = (if starts_with s p then Some (drop (length p) s) else None)"

lemma strip_prefix_append [simp]: "strip_prefix p (p @ s) = Some s"
  by (simp add: strip_prefix_def)

lemma strip_prefix_Some: "strip_prefix p s = Some t \<longleftrightarrow> s = p @ t"
  by (auto simp: strip_prefix_def starts_with_iff)

definition storage_headers :: "storage_info \<Rightarrow> headers" where
  "storage_headers si = (case si of
     Reference src \<Rightarrow> [''dg-note'' \<mapsto> ''reference'', ''dg-source-name'' \<mapsto> src]
   | Delta rp rs n cmd \<Rightarrow>
       [''dg-note'' \<mapsto> ''delta'', ''dg-ref-path'' \<mapsto> rp, ''dg-ref-sha256'' \<mapsto> rs,
        ''dg-delta-size'' \<mapsto> nat_to_string n, ''dg-delta-cmd'' \<mapsto> cmd]
   | Passthrough \<Rightarrow> [''dg-note'' \<mapsto> ''passthrough''])"

definition insert_opt :: "string \<Rightarrow> string option \<Rightarrow> headers \<Rightarrow> headers" where
  "insert_opt k v h = (case v of Some x \<Rightarrow> h(k \<mapsto> x) | None \<Rightarrow> h)"

definition to_bare_metadata_map :: "(int \<Rightarrow> string) \<Rightarrow> file_metadata \<Rightarrow> headers" where
  "to_bare_metadata_map fmt m =
     (let h = [''dg-tool'' \<mapsto> tool m, ''dg-original-name'' \<mapsto> original_name m,
               ''dg-file-sha256'' \<mapsto> file_sha256 m, ''dg-file-size'' \<mapsto> nat_to_string (file_size m),
               ''dg-md5'' \<mapsto> md5 m];
          h = insert_opt ''dg-multipart-etag'' (multipart_etag m) h;
          h = insert_opt ''content-type'' (content_type m) h;
          h = h(''dg-created-at'' \<mapsto> fmt (created_at m));
          h = h ++ storage_headers (storage_info m)
      in (\<lambda>k. case strip_prefix ''user-'' k of
               Some u \<Rightarrow> (case user_metadata m u of Some v \<Rightarrow> Some v | None \<Rightarrow> h k)
             | None \<Rightarrow> h k))"

definition all_amz_metadata :: "(int \<Rightarrow> string) \<Rightarrow> file_metadata \<Rightarrow> headers" where
  "all_amz_metadata fmt m =
     (\<lambda>k. if k = ''content-type'' then to_bare_metadata_map fmt m ''content-type''
          else case strip_prefix ''x-amz-meta-'' k of
                 Some b \<Rightarrow> if b = ''content-type'' then None else to_bare_metadata_map fmt m b
               | None \<Rightarrow> None)"

datatype header_error =
    MissingTool | MissingOriginalName | MissingSha256 | InvalidFileSize | MissingRefPath
  | MissingRefSha256 | InvalidDeltaSize

fun get_value :: "headers \<Rightarrow> string list \<Rightarrow> string option" where
  "get_value h [] = None"
| "get_value h (k # ks) =
     (case h k of Some v \<Rightarrow> if v \<noteq> [] then Some v else get_value h ks | None \<Rightarrow> get_value h ks)"

definition unwrap_or :: "'a option \<Rightarrow> 'a \<Rightarrow> 'a" where
  "unwrap_or x d = (case x of Some v \<Rightarrow> v | None \<Rightarrow> d)"

text \<open>\<open>u64::from_str\<close>: an optional plus sign, at least one digit, no overflow.\<close>

definition parse_u64 :: "string \<Rightarrow> nat option" where
  "parse_u64 s =
     (let s = (if starts_with s ''+'' then tl s else s)
      in if s = [] then None
         else (case parse_digits 0 s of
                 Some n \<Rightarrow> if n \<le> u64_max then Some n else None
               | None \<Rightarrow> None))"

definition resolve_created_at :: "(string \<Rightarrow> int option) \<Rightarrow> string option \<Rightarrow> int \<Rightarrow> int" where
  "resolve_created_at prs v fallback =
     (case v of None \<Rightarrow> fallback | Some raw \<Rightarrow> unwrap_or (prs raw) fallback)"

definition headers_storage_info :: "headers \<Rightarrow> string \<Rightarrow> (header_error, storage_info) result" where
  "headers_storage_info h oname =
     (let note = get_value h [''dg-note'', ''note''];
          ref_path_opt = get_value h [''dg-ref-path'', ''dg-ref-key'', ''ref-path'', ''ref-key'']
      in if note = Some ''reference''
         then Inr (Reference (unwrap_or (get_value h [''dg-source-name'', ''source-name'']) oname))
         else if ref_path_opt \<noteq> None \<or>
                 (case note of Some n \<Rightarrow> n = ''delta'' \<or> starts_with n ''zero-diff'' | None \<Rightarrow> False)
         then (case ref_path_opt of None \<Rightarrow> Inl MissingRefPath | Some raw \<Rightarrow>
               let rp = (case rsplit_once (CHR ''/'') raw of Some (_, b) \<Rightarrow> b | None \<Rightarrow> raw)
               in case get_value h [''dg-ref-sha256'', ''ref-sha256''] of
                    None \<Rightarrow> Inl MissingRefSha256
                  | Some rs \<Rightarrow>
                      (case parse_u64 (unwrap_or (get_value h [''dg-delta-size'', ''delta-size'']) ''0'') of
                         None \<Rightarrow> Inl InvalidDeltaSize
                       | Some n \<Rightarrow>
                           Inr (Delta rp rs n
                             (unwrap_or (get_value h [''dg-delta-cmd'', ''delta-cmd'']) []))))
         else Inr Passthrough)"

definition headers_to_metadata ::
  "(string \<Rightarrow> int option) \<Rightarrow> headers \<Rightarrow> int \<Rightarrow> (header_error, file_metadata) result" where
  "headers_to_metadata prs h created_at_fallback =
     (case get_value h [''dg-tool'', ''tool''] of None \<Rightarrow> Inl MissingTool | Some t \<Rightarrow>
      case get_value h [''dg-original-name'', ''original-name'', ''dg-source-name'', ''source-name''] of
        None \<Rightarrow> Inl MissingOriginalName | Some oname \<Rightarrow>
      case get_value h [''dg-file-sha256'', ''file-sha256''] of None \<Rightarrow> Inl MissingSha256 | Some sha \<Rightarrow>
      case parse_u64 (unwrap_or (get_value h [''dg-file-size'', ''file-size'']) ''0'') of
        None \<Rightarrow> Inl InvalidFileSize | Some fsz \<Rightarrow>
      case headers_storage_info h oname of Inl e \<Rightarrow> Inl e | Inr si \<Rightarrow>
      Inr \<lparr>tool = t, original_name = oname, file_sha256 = sha, file_size = fsz,
           md5 = unwrap_or (h ''dg-md5'') [],
           multipart_etag = get_value h [''dg-multipart-etag''],
           created_at = resolve_created_at prs (get_value h [''dg-created-at'', ''created-at''])
                          created_at_fallback,
           content_type = get_value h [''content-type''],
           user_metadata = (\<lambda>u. h (''user-'' @ u)),
           storage_info = si\<rparr>)"

section \<open>Choosing the version of a key that a listing shows\<close>

definition keep_latest_step ::
  "(string \<rightharpoonup> file_metadata) \<Rightarrow> string \<times> file_metadata \<Rightarrow> (string \<rightharpoonup> file_metadata)" where
  "keep_latest_step latest km =
     (case km of (k, m) \<Rightarrow>
        (case latest k of
           None \<Rightarrow> latest(k \<mapsto> m)
         | Some old \<Rightarrow> if created_at m > created_at old then latest(k \<mapsto> m) else latest))"

definition dedup_keep_latest :: "(string \<times> file_metadata) list \<Rightarrow> (string \<times> file_metadata) list" where
  "dedup_keep_latest items =
     (let latest = foldl keep_latest_step Map.empty items
      in map (\<lambda>k. (k, the (latest k))) (sort (remdups (map fst items))))"


section \<open>Facts on keys\<close>

lemma parse_key_simps:
  "ok_bucket (parse_key b k) = b"
  "\<lbrakk>rsplit_once (CHR ''/'') (trim_start_matches (CHR ''/'') k) = Some (p, f)\<rbrakk> \<Longrightarrow>
     ok_prefix (parse_key b k) = p \<and> ok_filename (parse_key b k) = f"
  "\<lbrakk>rsplit_once (CHR ''/'') (trim_start_matches (CHR ''/'') k) = None\<rbrakk> \<Longrightarrow>
     ok_prefix (parse_key b k) = [] \<and> ok_filename (parse_key b k) = trim_start_matches (CHR ''/'') k"
  by (auto simp: parse_key_def Let_def split: prod.splits option.splits)

lemma full_key_parse_key: "full_key (parse_key b k) = trim_start_matches (CHR ''/'') k"
proof (cases "rsplit_once (CHR ''/'') (trim_start_matches (CHR ''/'') k)")
  case None
  then show ?thesis by (simp add: full_key_def parse_key_simps)
next
  case (Some pf)
  obtain p f where pf: "pf = (p, f)" by (cases pf)
  have split: "trim_start_matches (CHR ''/'') k = p @ CHR ''/'' # f"
    using Some pf by (simp add: rsplit_once_Some)
  then have "p \<noteq> []" using hd_trim_start by (cases p) fastforce+
  with Some pf split show ?thesis by (simp add: full_key_def parse_key_simps)
qed

lemma parse_key_no_slash: "CHR ''/'' \<notin> set (ok_filename (parse_key b k))"
proof (cases "rsplit_once (CHR ''/'') (trim_start_matches (CHR ''/'') k)")
  case None
  then show ?thesis by (simp add: parse_key_simps rsplit_once_None)
next
  case (Some pf)
  obtain p f where pf: "pf = (p, f)" by (cases pf)
  with Some have "ok_filename (parse_key b k) = f" by (simp add: parse_key_simps)
  with Some pf show ?thesis by (simp add: rsplit_once_Some)
qed

text \<open>A key that names the same object, with or without leading slashes, parses the same way.\<close>

lemma parse_key_trim: "parse_key b (trim_start_matches (CHR ''/'') k) = parse_key b k"
  by (simp add: parse_key_def)

lemma parse_key_full_key: "parse_key b (full_key (parse_key b k)) = parse_key b k"
  by (simp add: full_key_parse_key parse_key_trim)

lemma parse_key_inj:
  assumes "ok_prefix (parse_key b k) = ok_prefix (parse_key b k')"
    and "ok_filename (parse_key b k) = ok_filename (parse_key b k')"
  shows "parse_key b k = parse_key b k'"
  using assms by (cases "parse_key b k", cases "parse_key b k'") (auto dest: arg_cong simp: parse_key_def Let_def split: prod.splits)

lemma validate_object_filename:
  assumes "validate_object k = Inr ()"
  shows "ok_filename k \<noteq> []" "ok_filename k \<noteq> ''reference.bin''"
    "\<not> ends_with (ok_filename k) ''.delta''" "CHR ''/'' \<notin> set (ok_filename k)"
    "CHR 0x00 \<notin> set (ok_prefix k) \<union> set (ok_filename k)"
    "''..'' \<notin> set (split_on (CHR ''/'') (ok_prefix k))"
  using assms by (auto simp: validate_object_def validate_key_path_def split: sum.splits if_splits)

lemma validate_ingest_object: "validate_ingest k = Inr () \<Longrightarrow> validate_object k = Inr ()"
  by (auto simp: validate_ingest_def split: sum.splits if_splits)

section \<open>Facts on the header map\<close>

definition wf_storage_info :: "storage_info \<Rightarrow> bool" where
  "wf_storage_info si = (case si of
     Reference src \<Rightarrow> src \<noteq> []
   | Delta rp rs n _ \<Rightarrow> rp \<noteq> [] \<and> CHR ''/'' \<notin> set rp \<and> rs \<noteq> [] \<and> n \<le> u64_max
   | Passthrough \<Rightarrow> True)"

definition wf_metadata :: "file_metadata \<Rightarrow> bool" where
  "wf_metadata m \<longleftrightarrow>
     tool m \<noteq> [] \<and> original_name m \<noteq> [] \<and> file_sha256 m \<noteq> [] \<and> file_size m \<le> u64_max \<and>
     multipart_etag m \<noteq> Some [] \<and> content_type m \<noteq> Some [] \<and> wf_storage_info (storage_info m)"

lemma nat_to_string_hd: "\<exists>d < 10. hd (nat_to_string n) = digit_char d"
proof (induction n rule: nat_to_string.induct)
  case (1 n)
  show ?case
  proof (cases "n < 10")
    case True
    then show ?thesis by (subst nat_to_string.simps) auto
  next
    case False
    with 1 obtain d where "d < 10" "hd (nat_to_string (n div 10)) = digit_char d" by auto
    with False show ?thesis
      by (subst nat_to_string.simps) (auto simp: hd_append)
  qed
qed

lemma digit_char_not_plus: "d < 10 \<Longrightarrow> digit_char d \<noteq> CHR ''+''"
proof
  assume "d < 10" and "digit_char d = CHR ''+''"
  then have "char_digit (CHR ''+'') = Some d" by (metis char_digit_digit_char)
  then show False by (simp add: char_digit_def)
qed

lemma parse_u64_nat_to_string: "n \<le> u64_max \<Longrightarrow> parse_u64 (nat_to_string n) = Some n"
proof -
  assume n: "n \<le> u64_max"
  obtain d where "d < 10" "hd (nat_to_string n) = digit_char d" using nat_to_string_hd by blast
  then have "hd (nat_to_string n) \<noteq> CHR ''+''" by (simp add: digit_char_not_plus)
  then have "\<not> starts_with (nat_to_string n) ''+''"
    by (cases "nat_to_string n") (auto simp: starts_with_def)
  with n show ?thesis by (simp add: parse_u64_def parse_nat_to_string)
qed

lemmas header_lookup = to_bare_metadata_map_def storage_headers_def insert_opt_def strip_prefix_def
  starts_with_def map_add_def Let_def

lemma headers_storage_info_bare:
  assumes "wf_storage_info (storage_info m)"
  shows "headers_storage_info (to_bare_metadata_map fmt m) oname = Inr (storage_info m)"
proof (cases "storage_info m")
  case (Reference src)
  with assms show ?thesis
    by (simp add: headers_storage_info_def header_lookup wf_storage_info_def unwrap_or_def
          split: option.splits)
next
  case (Delta rp rs n cmd)
  with assms have "rsplit_once (CHR ''/'') rp = None" and "parse_u64 (nat_to_string n) = Some n"
    by (simp_all add: wf_storage_info_def rsplit_once_None parse_u64_nat_to_string)
  with Delta assms show ?thesis
    by (simp add: headers_storage_info_def header_lookup wf_storage_info_def unwrap_or_def
          split: option.splits)
next
  case Passthrough
  then show ?thesis
    by (simp add: headers_storage_info_def header_lookup split: option.splits)
qed

section \<open>Facts on the choice of versions\<close>

definition latest_of :: "(string \<rightharpoonup> file_metadata) \<Rightarrow> (string \<times> file_metadata) set \<Rightarrow> bool" where
  "latest_of L A \<longleftrightarrow> dom L = fst ` A \<and>
     (\<forall>k m. L k = Some m \<longrightarrow> (k, m) \<in> A \<and> (\<forall>m'. (k, m') \<in> A \<longrightarrow> created_at m' \<le> created_at m))"

lemma latest_of_step:
  assumes "latest_of L A"
  shows "latest_of (keep_latest_step L (k, m)) (insert (k, m) A)"
proof (cases "L k")
  case None
  then have "k \<notin> fst ` A" using assms by (auto simp: latest_of_def domIff)
  then have "\<And>m'. (k, m') \<notin> A" by force
  with assms None show ?thesis by (auto simp: latest_of_def keep_latest_step_def)
next
  case (Some old)
  then have old: "(k, old) \<in> A" "\<And>m'. (k, m') \<in> A \<Longrightarrow> created_at m' \<le> created_at old"
    using assms by (auto simp: latest_of_def)
  then have "insert k (fst ` A) = fst ` A" by force
  with assms Some old show ?thesis
    by (fastforce simp: latest_of_def keep_latest_step_def)
qed

lemma latest_of_fold: "latest_of (foldl keep_latest_step Map.empty items) (set items)"
proof (induction items rule: rev_induct)
  case Nil
  then show ?case by (simp add: latest_of_def)
next
  case (snoc x xs)
  obtain k m where "x = (k, m)" by (cases x)
  with latest_of_step [OF snoc, of k m] show ?case by simp
qed

lemma map_fst_dedup: "map fst (dedup_keep_latest items) = sort (remdups (map fst items))"
  by (simp add: dedup_keep_latest_def Let_def comp_def)

section \<open>Properties of the core types\<close>



text \<open>
  C30: Keys.  Parsing a key and printing it gives the key without its leading slashes, printing is
  injective on parsed keys of a bucket, and the file name of a parsed key never contains a slash.
\<close>

theorem parse_key_round_trip:
  "full_key (parse_key b k) = trim_start_matches (CHR ''/'') k
   \<and> parse_key b (full_key (parse_key b k)) = parse_key b k
   \<and> CHR ''/'' \<notin> set (ok_filename (parse_key b k))
   \<and> (full_key (parse_key b k) = full_key (parse_key b k')
        \<longleftrightarrow> parse_key b k = parse_key b k')"
  using full_key_parse_key parse_key_full_key parse_key_no_slash by metis

text \<open>
  C34: Listing shows one version per key, the most recent one.  The result of the de-duplication is
  sorted with distinct keys, has exactly the keys of the input, and each entry is an entry of the
  input that no other entry of its key is newer than.
\<close>

theorem dedup_keep_latest_spec:
  "sorted (map fst (dedup_keep_latest items)) \<and> distinct (map fst (dedup_keep_latest items))
   \<and> fst ` set (dedup_keep_latest items) = fst ` set items
   \<and> set (dedup_keep_latest items)
       \<subseteq> {(k, m) \<in> set items. created_at m = Max {created_at m' | m'. (k, m') \<in> set items}}"
proof -
  let ?L = "foldl keep_latest_step Map.empty items"
  have L: "latest_of ?L (set items)" by (rule latest_of_fold)
  have "(k, m) \<in> set items \<and> created_at m = Max {created_at m' | m'. (k, m') \<in> set items}"
    if km: "(k, m) \<in> set (dedup_keep_latest items)" for k m
  proof -
    from km have "k \<in> fst ` set items" and m: "m = the (?L k)"
      by (auto simp: dedup_keep_latest_def Let_def)
    moreover from L have "dom ?L = fst ` set items" by (simp add: latest_of_def)
    ultimately have "?L k = Some m" by (metis domD option.sel)
    then have mem: "(k, m) \<in> set items"
      and le: "\<And>m'. (k, m') \<in> set items \<Longrightarrow> created_at m' \<le> created_at m"
      using L by (auto simp: latest_of_def)
    have "{created_at m' | m'. (k, m') \<in> set items} = (\<lambda>p. created_at (snd p)) ` {p \<in> set items. fst p = k}"
      by force
    then have "finite {created_at m' | m'. (k, m') \<in> set items}" by simp
    then have "Max {created_at m' | m'. (k, m') \<in> set items} = created_at m"
      using mem le by (intro Max_eqI) auto
    with mem show ?thesis by simp
  qed
  moreover have "fst ` set (dedup_keep_latest items) = fst ` set items"
    using map_fst_dedup [of items] by (metis list.set_map set_remdups set_sort)
  ultimately show ?thesis by (auto simp: map_fst_dedup)
qed

end
