(* ===== verification/Storage.thy ===== *)
theory Storage
  imports Types "HOL-Library.AList" "HOL-Library.Word"
begin

text \<open>
  The filesystem storage backend (\<open>src/src/storage/filesystem.rs\<close>, with the extended-attribute
  metadata of \<open>src/src/storage/xattr_meta.rs\<close> and the error type of
  \<open>src/src/storage/traits.rs\<close>).

  A data file is addressed by its bucket, its deltaspace directory and its name, and all three kinds
  of artifact live in that one name space, as on disk.  A file has its bytes, the metadata held in
  its extended attribute (absent for a file that was not written through the proxy) and its
  modification time.  Directories exist as far as they hold files; the clashes the operating system
  reports between a file and a directory of the same name are errors like any other.

  Every backend call consumes one tick of a schedule of faults.  A fault makes the call fail with an
  arbitrary error; the atomic writes then leave no effect, while a deletion may already have removed
  the file when the pruning of empty directories fails.  The schedule is a parameter, so a theorem
  that does not constrain it holds for every pattern of failures.
\<close>

section \<open>State and faults\<close>

datatype storage_error =
    NotFound string | AlreadyExists string | Io string | DiskFull | Serialization string
  | StTooLarge nat nat | S3 string | BucketNotFound string | Encryption string
  | BucketNotEmpty string | Throttled string | Other string

datatype fault = FaultBefore storage_error | FaultAfter storage_error

type_synonym byte = "8 word"
type_synonym bytes = "byte list"
type_synonym fpath = "string \<times> string \<times> string"

record data_file =
  fdata :: bytes
  fxattr :: "file_metadata option"
  fmtime :: int

record storage =
  data_files :: "(fpath \<times> data_file) list"
  bucket_dirs :: "string list"
  tick :: nat
  clock :: int

record storage_env =
  sched :: "nat \<Rightarrow> fault option"
  unmanaged_digest :: "nat \<Rightarrow> int \<Rightarrow> string"
  dir_stat :: "string \<Rightarrow> nat \<times> int"

definition lookup_file :: "('s storage_scheme) \<Rightarrow> fpath \<Rightarrow> data_file option" where
  "lookup_file s p = map_of (data_files s) p"

definition write_file :: "fpath \<Rightarrow> data_file \<Rightarrow> ('s storage_scheme) \<Rightarrow> ('s storage_scheme)" where
  "write_file p f s = s\<lparr>data_files := AList.update p f (data_files s)\<rparr>"

definition remove_file :: "fpath \<Rightarrow> ('s storage_scheme) \<Rightarrow> ('s storage_scheme)" where
  "remove_file p s = s\<lparr>data_files := AList.delete p (data_files s)\<rparr>"

definition next_tick :: "('s storage_scheme) \<Rightarrow> ('s storage_scheme)" where
  "next_tick s = s\<lparr>tick := Suc (tick s)\<rparr>"

definition storage_op ::
  "('e storage_env_scheme) \<Rightarrow> (('s storage_scheme) \<Rightarrow> (storage_error, 'a) result \<times> ('s storage_scheme))
     \<Rightarrow> ('s storage_scheme) \<Rightarrow> (storage_error, 'a) result \<times> ('s storage_scheme)" where
  "storage_op env f s = (case sched env (tick s) of
     None \<Rightarrow> f (next_tick s)
   | Some (FaultBefore e) \<Rightarrow> (Inl e, next_tick s)
   | Some (FaultAfter e) \<Rightarrow> (Inl e, next_tick s))"

section \<open>Paths\<close>

definition reference_path :: "string \<Rightarrow> string \<Rightarrow> fpath" where
  "reference_path b p = (b, p, ''reference.bin'')"

definition delta_path :: "string \<Rightarrow> string \<Rightarrow> string \<Rightarrow> fpath" where
  "delta_path b p f = (b, p, f @ ''.delta'')"

definition passthrough_path :: "string \<Rightarrow> string \<Rightarrow> string \<Rightarrow> fpath" where
  "passthrough_path b p f = (b, p, f)"

section \<open>Metadata of a file\<close>

definition synthesise_unmanaged_etag :: "('e storage_env_scheme) \<Rightarrow> nat \<Rightarrow> int \<Rightarrow> string" where
  "synthesise_unmanaged_etag env sz modified =
     (if sz = 0 then ''d41d8cd98f00b204e9800998ecf8427e'' else unmanaged_digest env sz modified)"

definition fallback_metadata_from_path ::
  "('e storage_env_scheme) \<Rightarrow> nat \<Rightarrow> int \<Rightarrow> string \<Rightarrow> file_metadata" where
  "fallback_metadata_from_path env len modified name =
     fallback_metadata name len (synthesise_unmanaged_etag env len modified) modified None Passthrough"

definition file_meta :: "('e storage_env_scheme) \<Rightarrow> string \<Rightarrow> data_file \<Rightarrow> file_metadata" where
  "file_meta env name f = (case fxattr f of
     Some m \<Rightarrow> m
   | None \<Rightarrow> fallback_metadata_from_path env (length (fdata f)) (fmtime f) name)"

section \<open>The shared file operations\<close>

definition get_object_file ::
  "('e storage_env_scheme) \<Rightarrow> fpath \<Rightarrow> string \<Rightarrow> ('s storage_scheme)
     \<Rightarrow> (storage_error, bytes) result \<times> ('s storage_scheme)" where
  "get_object_file env path label = storage_op env (\<lambda>s.
     case lookup_file s path of
       None \<Rightarrow> (Inl (NotFound (label @ '': '' @ fst (snd path) @ ''/'' @ snd (snd path))), s)
     | Some f \<Rightarrow> (Inr (fdata f), s))"

definition get_object_metadata ::
  "('e storage_env_scheme) \<Rightarrow> fpath \<Rightarrow> string \<Rightarrow> ('s storage_scheme)
     \<Rightarrow> (storage_error, file_metadata) result \<times> ('s storage_scheme)" where
  "get_object_metadata env path name = storage_op env (\<lambda>s.
     case lookup_file s path of
       None \<Rightarrow> (Inl (NotFound (fst (snd path) @ ''/'' @ snd (snd path))), s)
     | Some f \<Rightarrow> (Inr (file_meta env name f), s))"

definition put_object_file ::
  "('e storage_env_scheme) \<Rightarrow> string \<Rightarrow> fpath \<Rightarrow> bytes \<Rightarrow> file_metadata \<Rightarrow> ('s storage_scheme)
     \<Rightarrow> (storage_error, unit) result \<times> ('s storage_scheme)" where
  "put_object_file env bucket path d m = storage_op env (\<lambda>s.
     if bucket \<notin> set (bucket_dirs s) then (Inl (BucketNotFound bucket), s)
     else (Inr (), write_file path \<lparr>fdata = d, fxattr = Some m, fmtime = clock s\<rparr> s))"

definition delete_object_file ::
  "('e storage_env_scheme) \<Rightarrow> fpath \<Rightarrow> string \<Rightarrow> ('s storage_scheme)
     \<Rightarrow> (storage_error, unit) result \<times> ('s storage_scheme)" where
  "delete_object_file env path label s =
     (let gone = (case lookup_file s path of
                    None \<Rightarrow> (Inl (NotFound (label @ '': '' @ fst (snd path) @ ''/'' @ snd (snd path))),
                             next_tick s)
                  | Some _ \<Rightarrow> (Inr (), remove_file path (next_tick s)))
      in case sched env (tick s) of
           None \<Rightarrow> gone
         | Some (FaultBefore e) \<Rightarrow> (Inl e, next_tick s)
         | Some (FaultAfter e) \<Rightarrow> (Inl e, snd gone))"

section \<open>The operations of the backend\<close>

definition create_bucket where
  "create_bucket env bucket = storage_op env (\<lambda>s.
     (Inr () :: (storage_error, unit) result, s\<lparr>bucket_dirs := List.insert bucket (bucket_dirs s)\<rparr>))"

definition head_bucket where
  "head_bucket env bucket = storage_op env (\<lambda>s.
     (Inr (bucket \<in> set (bucket_dirs s)) :: (storage_error, bool) result, s))"

definition get_reference where
  "get_reference env b p = get_object_file env (reference_path b p) ''reference''"

definition get_reference_to_file where
  "get_reference_to_file env b p = get_object_file env (reference_path b p) ''reference''"

definition put_reference where
  "put_reference env b p d m = put_object_file env b (reference_path b p) d m"

text \<open>
  \<open>hardlink_or_copy\<close> removes the destination before it links or copies, and the metadata is
  written afterwards, so this write is not atomic: it can fail with the old file already gone, and
  it can fail with the new bytes in place and no metadata.
\<close>

definition put_reference_from_file ::
  "('e storage_env_scheme) \<Rightarrow> string \<Rightarrow> string \<Rightarrow> bytes \<Rightarrow> file_metadata \<Rightarrow> ('s storage_scheme)
     \<Rightarrow> (storage_error, unit) result \<times> ('s storage_scheme)" where
  "put_reference_from_file env b p d m s =
     and_then (storage_op env (\<lambda>s.
       if b \<notin> set (bucket_dirs s) then (Inl (BucketNotFound b), s) else (Inr (), s)) s) (\<lambda>_ s.
     and_then (storage_op env (\<lambda>s.
       (Inr (), write_file (reference_path b p) \<lparr>fdata = d, fxattr = None, fmtime = clock s\<rparr> s))
       (remove_file (reference_path b p) s)) (\<lambda>_ s.
     storage_op env (\<lambda>s.
       (Inr (), write_file (reference_path b p) \<lparr>fdata = d, fxattr = Some m, fmtime = clock s\<rparr> s)) s))"

definition put_file_metadata ::
  "('e storage_env_scheme) \<Rightarrow> string \<Rightarrow> fpath \<Rightarrow> file_metadata \<Rightarrow> ('s storage_scheme)
     \<Rightarrow> (storage_error, unit) result \<times> ('s storage_scheme)" where
  "put_file_metadata env b path m = storage_op env (\<lambda>s.
     if b \<notin> set (bucket_dirs s) then (Inl (BucketNotFound b), s)
     else (case lookup_file s path of
             None \<Rightarrow> (Inl (NotFound (fst (snd path) @ ''/'' @ snd (snd path))), s)
           | Some f \<Rightarrow> (Inr (), write_file path (f\<lparr>fxattr := Some m\<rparr>) s)))"

definition put_reference_metadata where
  "put_reference_metadata env b p m = put_file_metadata env b (reference_path b p) m"

definition put_passthrough_metadata where
  "put_passthrough_metadata env b p f m = put_file_metadata env b (passthrough_path b p f) m"

definition get_reference_metadata where
  "get_reference_metadata env b p = get_object_metadata env (reference_path b p) ''reference.bin''"

definition has_reference where
  "has_reference env b p = storage_op env (\<lambda>s.
     (Inr (lookup_file s (reference_path b p) \<noteq> None) :: (storage_error, bool) result, s))"

definition delete_reference where
  "delete_reference env b p = delete_object_file env (reference_path b p) ''reference''"

definition get_delta where
  "get_delta env b p f = get_object_file env (delta_path b p f) ''delta''"

definition put_delta where
  "put_delta env b p f d m = put_object_file env b (delta_path b p f) d m"

definition get_delta_metadata where
  "get_delta_metadata env b p f = get_object_metadata env (delta_path b p f) f"

definition delete_delta where
  "delete_delta env b p f = delete_object_file env (delta_path b p f) ''delta''"

definition get_passthrough where
  "get_passthrough env b p f = get_object_file env (passthrough_path b p f) ''passthrough''"

definition put_passthrough where
  "put_passthrough env b p f d m = put_object_file env b (passthrough_path b p f) d m"

definition put_passthrough_file where
  "put_passthrough_file env b p f d m = put_object_file env b (passthrough_path b p f) d m"

definition put_passthrough_parts where
  "put_passthrough_parts env b p f parts m =
     put_object_file env b (passthrough_path b p f) (concat parts) m"

definition put_passthrough_chunked where
  "put_passthrough_chunked env b p f chunks m =
     put_object_file env b (passthrough_path b p f) (concat chunks) m"

definition get_passthrough_metadata where
  "get_passthrough_metadata env b p f = get_object_metadata env (passthrough_path b p f) f"

definition delete_passthrough where
  "delete_passthrough env b p f = delete_object_file env (passthrough_path b p f) ''passthrough''"

definition get_passthrough_stream where
  "get_passthrough_stream env b p f = get_object_file env (passthrough_path b p f) ''passthrough''"

text \<open>
  The bytes of an inclusive range, with the length announced for it.  The subtraction is on
  unsigned integers; the caller passes a start that does not exceed the end.
\<close>

text \<open>The length of the range wraps around at 64 bits, as unchecked arithmetic does.\<close>

definition get_passthrough_stream_range ::
  "('e storage_env_scheme) \<Rightarrow> string \<Rightarrow> string \<Rightarrow> string \<Rightarrow> nat \<Rightarrow> nat \<Rightarrow> ('s storage_scheme)
     \<Rightarrow> (storage_error, bytes \<times> nat) result \<times> ('s storage_scheme)" where
  "get_passthrough_stream_range env b p f start end_incl = storage_op env (\<lambda>s.
     case lookup_file s (passthrough_path b p f) of
       None \<Rightarrow> (Inl (NotFound (''passthrough: '' @ p @ ''/'' @ f)), s)
     | Some file \<Rightarrow>
         (let range_len = nat ((int end_incl - int start + 1) mod 2 ^ 64)
          in (Inr (take range_len (drop start (fdata file)), range_len), s)))"

section \<open>Scanning a deltaspace\<close>

definition is_data_file :: "string \<Rightarrow> bool" where
  "is_data_file name \<longleftrightarrow>
     name = ''reference.bin'' \<or> ends_with name ''.delta'' \<or> \<not> starts_with name ''.''"

text \<open>The directory that a deltaspace below \<open>p\<close> makes visible in the directory of \<open>p\<close>.\<close>

definition child_dir :: "string \<Rightarrow> string \<Rightarrow> string option" where
  "child_dir p q =
     (if p = [] then (if q = [] then None else Some (hd (split_on (CHR ''/'') q)))
      else map_option (\<lambda>r. hd (split_on (CHR ''/'') r)) (strip_prefix (p @ ''/'') q))"

definition subdirs :: "('s storage_scheme) \<Rightarrow> string \<Rightarrow> string \<Rightarrow> string list" where
  "subdirs s b p = remdups (List.map_filter
     (\<lambda>((b', q, _), _). if b' = b then child_dir p q else None) (data_files s))"

definition scan_deltaspace ::
  "('e storage_env_scheme) \<Rightarrow> string \<Rightarrow> string \<Rightarrow> ('s storage_scheme)
     \<Rightarrow> (storage_error, file_metadata list) result \<times> ('s storage_scheme)" where
  "scan_deltaspace env b p = storage_op env (\<lambda>s.
     (Inr (List.map_filter (\<lambda>((b', q, name), f).
             if b' = b \<and> q = p \<and> is_data_file name then Some (file_meta env name f) else None) (data_files s)
           @ map (\<lambda>name. fallback_metadata_from_path env (fst (dir_stat env name)) (snd (dir_stat env name)) name)
               (filter is_data_file (subdirs s b p))), s))"

section \<open>Facts: the file table\<close>

lemma lookup_write [simp]: "lookup_file (write_file p f s) = (lookup_file s)(p \<mapsto> f)"
  by (simp add: lookup_file_def write_file_def update_conv' fun_eq_iff)

lemma lookup_remove [simp]: "lookup_file (remove_file p s) = (lookup_file s)(p := None)"
  by (simp add: lookup_file_def remove_file_def delete_conv' fun_eq_iff)

lemma lookup_next_tick [simp]: "lookup_file (next_tick s) = lookup_file s"
  by (simp add: lookup_file_def next_tick_def fun_eq_iff)

lemma storage_fields [simp]:
  "clock (next_tick s) = clock s" "bucket_dirs (next_tick s) = bucket_dirs s"
  "clock (write_file p f s) = clock s" "bucket_dirs (write_file p f s) = bucket_dirs s"
  "clock (remove_file p s) = clock s" "bucket_dirs (remove_file p s) = bucket_dirs s"
  "tick (next_tick s) = Suc (tick s)" "tick (write_file p f s) = tick s"
  "tick (remove_file p s) = tick s"
  "storage.more (next_tick s) = storage.more s" "storage.more (write_file p f s) = storage.more s"
  "storage.more (remove_file p s) = storage.more s"
  by (simp_all add: next_tick_def write_file_def remove_file_def)

lemma path_neq [simp]:
  "reference_path b p \<noteq> delta_path b' p' f" "delta_path b' p' f \<noteq> reference_path b p"
proof -
  have "''reference.bin'' \<noteq> f @ ''.delta''"
  proof
    assume "''reference.bin'' = f @ ''.delta''"
    then have "last ''reference.bin'' = last (f @ ''.delta'')" by simp
    then show False by simp
  qed
  then show "reference_path b p \<noteq> delta_path b' p' f" by (simp add: reference_path_def delta_path_def)
  then show "delta_path b' p' f \<noteq> reference_path b p" by metis
qed

lemma path_inject [simp]:
  "reference_path b p = reference_path b' p' \<longleftrightarrow> b = b' \<and> p = p'"
  "delta_path b p f = delta_path b' p' f' \<longleftrightarrow> b = b' \<and> p = p' \<and> f = f'"
  "passthrough_path b p f = passthrough_path b' p' f' \<longleftrightarrow> b = b' \<and> p = p' \<and> f = f'"
  by (auto simp: reference_path_def delta_path_def passthrough_path_def)

text \<open>A name that a key can have: neither of the two reserved forms.\<close>

definition plain_name :: "string \<Rightarrow> bool" where
  "plain_name f \<longleftrightarrow> f \<noteq> ''reference.bin'' \<and> \<not> ends_with f ''.delta''"

lemma plain_path [simp]:
  assumes "plain_name f"
  shows "passthrough_path b p f \<noteq> reference_path b' p'" "reference_path b' p' \<noteq> passthrough_path b p f"
    "passthrough_path b p f \<noteq> delta_path b' p' f'" "delta_path b' p' f' \<noteq> passthrough_path b p f"
  using assms by (auto simp: plain_name_def passthrough_path_def reference_path_def delta_path_def)

lemma valid_plain: "validate_object k = Inr () \<Longrightarrow> plain_name (ok_filename k)"
  using validate_object_filename by (auto simp: plain_name_def)

section \<open>Facts: what the operations return and leave behind\<close>

text \<open>A state that differs from another one in the tick only.\<close>

definition ticked :: "('s storage_scheme) \<Rightarrow> ('s storage_scheme) \<Rightarrow> bool" where
  "ticked s t \<longleftrightarrow> (\<exists>n. t = s\<lparr>tick := n\<rparr> \<and> tick s \<le> n)"

lemma ticked_refl [simp]: "ticked s s"
  unfolding ticked_def by (rule exI [of _ "tick s"]) simp

lemma ticked_next [simp]: "ticked s (next_tick s)"
  unfolding ticked_def next_tick_def by (rule exI [of _ "Suc (tick s)"]) simp

lemma ticked_trans: "ticked s t \<Longrightarrow> ticked t u \<Longrightarrow> ticked s u"
  unfolding ticked_def by force

lemma ticked_nextI: "ticked s t \<Longrightarrow> ticked s (next_tick t)"
  using ticked_trans ticked_next by blast

lemma ticked_fields:
  assumes "ticked s t"
  shows "lookup_file t = lookup_file s" "clock t = clock s" "bucket_dirs t = bucket_dirs s"
    "storage.more t = storage.more s" "tick s \<le> tick t" "data_files t = data_files s"
  using assms by (auto simp: ticked_def lookup_file_def fun_eq_iff)

lemma storage_op_cases:
  assumes "storage_op env f s = (r, t)"
  obtains "f (next_tick s) = (r, t)" "sched env (tick s) = None"
  | e where "r = Inl e" "t = next_tick s" "sched env (tick s) \<noteq> None"
  using assms by (auto simp: storage_op_def split: option.splits fault.splits)

lemma storage_op_ok: "sched env (tick s) = None \<Longrightarrow> storage_op env f s = f (next_tick s)"
  by (simp add: storage_op_def)

lemma get_object_file_cases:
  assumes "get_object_file env path l s = (r, t)"
  obtains f where "lookup_file s path = Some f" "r = Inr (fdata f)" "ticked s t"
  | e where "r = Inl e" "ticked s t"
  using assms
  by (auto simp: get_object_file_def elim!: storage_op_cases split: option.splits)

lemma get_object_metadata_cases:
  assumes "get_object_metadata env path n s = (r, t)"
  obtains f where "lookup_file s path = Some f" "r = Inr (file_meta env n f)" "ticked s t"
  | e where "r = Inl e" "ticked s t"
  using assms
  by (auto simp: get_object_metadata_def elim!: storage_op_cases split: option.splits)

lemma put_object_file_cases:
  assumes "put_object_file env b path d m s = (r, t)"
  obtains "r = Inr ()" "b \<in> set (bucket_dirs s)"
      "t = write_file path \<lparr>fdata = d, fxattr = Some m, fmtime = clock s\<rparr> (next_tick s)"
  | e where "r = Inl e" "ticked s t"
  using assms
  by (auto simp: put_object_file_def elim!: storage_op_cases split: if_splits)

lemma delete_object_file_cases:
  assumes "delete_object_file env path l s = (r, t)"
  obtains "r = Inr ()" "lookup_file s path \<noteq> None" "t = remove_file path (next_tick s)"
  | e where "r = Inl e" "ticked s t"
  | e where "r = Inl e" "t = remove_file path (next_tick s)"
  using assms
  by (auto simp: delete_object_file_def Let_def split: option.splits fault.splits)

lemma has_reference_cases:
  assumes "has_reference env b p s = (r, t)"
  obtains "r = Inr (lookup_file s (reference_path b p) \<noteq> None)" "ticked s t"
  | e where "r = Inl e" "ticked s t"
  using assms
  by (auto simp: has_reference_def elim!: storage_op_cases)

lemma scan_deltaspace_cases:
  assumes "scan_deltaspace env b p s = (r, t)"
  obtains ms where "r = Inr ms" "ticked s t"
      "\<And>n f. lookup_file s (b, p, n) = Some f \<Longrightarrow> is_data_file n \<Longrightarrow> file_meta env n f \<in> set ms"
  | e where "r = Inl e" "ticked s t"
proof -
  from assms consider e where "r = Inl e" "t = next_tick s"
    | ms where "r = Inr ms" "t = next_tick s"
        "set ms \<supseteq> {file_meta env n f | n f. ((b, p, n), f) \<in> set (data_files s) \<and> is_data_file n}"
    unfolding scan_deltaspace_def
    by (auto simp: List.map_filter_def next_tick_def image_iff elim!: storage_op_cases) force+
  then show ?thesis
  proof cases
    case 1
    then show ?thesis using that(2) by simp
  next
    case (2 ms)
    show ?thesis
    proof (rule that(1) [OF 2(1)])
      show "ticked s t" using 2 by simp
      fix n f assume "lookup_file s (b, p, n) = Some f" "is_data_file n"
      then show "file_meta env n f \<in> set ms"
        using 2 by (auto simp: lookup_file_def dest: map_of_SomeD)
    qed
  qed
qed

end
