(* ===== verification/Codec.thy ===== *)
theory Codec
  imports Storage Complex_Main
begin

text \<open>
  The delta codec (\<open>src/src/deltaglider/codec.rs\<close>).  The \<open>xdelta3\<close> process is a parameter:
  a function from the mode, the source file and the standard input to the bytes it prints and
  whether it exits successfully.  Around it the buffered entry points check the sizes of their
  inputs and cap the output, and the streaming entry points hand the output to a sink that refuses
  to write past a cap.  The time-outs that kill a hung process are not modelled; a killed process is
  one that exits unsuccessfully.  Floating-point rounding is a parameter too.
\<close>

datatype codec_mode = Encode | Decode

datatype codec_error =
    EncodeFailed string | DecodeFailed string | CodecTooLarge nat nat | CodecIo string

record codec_env =
  xdelta3 :: "codec_mode \<Rightarrow> bytes \<Rightarrow> bytes \<Rightarrow> bytes \<times> bool"
  cli_available :: bool
  max_size :: nat
  f32_round :: "rat \<Rightarrow> rat"
  f64_round :: "rat \<Rightarrow> rat"

definition make_error :: "codec_mode \<Rightarrow> string \<Rightarrow> codec_error" where
  "make_error mode msg = (case mode of Encode \<Rightarrow> EncodeFailed msg | Decode \<Rightarrow> DecodeFailed msg)"

definition run_xdelta3 ::
  "codec_env \<Rightarrow> codec_mode \<Rightarrow> bytes \<Rightarrow> bytes \<Rightarrow> (codec_error, bytes) result" where
  "run_xdelta3 c mode source input =
     (if \<not> cli_available c then Inl (make_error mode ''xdelta3 CLI binary is not available'')
      else case xdelta3 c mode source input of (output, success) \<Rightarrow>
        if length output > max_size c then Inl (CodecIo ''output exceeds maximum size'')
        else if success then Inr output
        else Inl (make_error mode ''xdelta3 CLI failed''))"

definition encode :: "codec_env \<Rightarrow> bytes \<Rightarrow> bytes \<Rightarrow> (codec_error, bytes) result" where
  "encode c source target =
     (if length source > max_size c then Inl (CodecTooLarge (length source) (max_size c))
      else if length target > max_size c then Inl (CodecTooLarge (length target) (max_size c))
      else run_xdelta3 c Encode source target)"

definition decode :: "codec_env \<Rightarrow> bytes \<Rightarrow> bytes \<Rightarrow> (codec_error, bytes) result" where
  "decode c source delta =
     (if length source > max_size c then Inl (CodecTooLarge (length source) (max_size c))
      else run_xdelta3 c Decode source delta)"

text \<open>
  The streaming driver with a capped sink: the sink fails on the write that takes it past the cap,
  whatever the exit status of the process.
\<close>

definition run_xdelta3_streaming ::
  "codec_env \<Rightarrow> codec_mode \<Rightarrow> bytes \<Rightarrow> bytes \<Rightarrow> nat \<Rightarrow> (codec_error, bytes) result" where
  "run_xdelta3_streaming c mode source input cap =
     (if \<not> cli_available c then Inl (make_error mode ''xdelta3 CLI binary is not available'')
      else case xdelta3 c mode source input of (output, success) \<Rightarrow>
        if length output > cap then Inl (CodecIo ''sink refused the write'')
        else if success then Inr output
        else Inl (make_error mode ''xdelta3 CLI failed''))"

definition decode_to_writer :: "codec_env \<Rightarrow> bytes \<Rightarrow> bytes \<Rightarrow> nat \<Rightarrow> (codec_error, bytes) result" where
  "decode_to_writer c source delta cap = run_xdelta3_streaming c Decode source delta cap"

text \<open>The result of a capped encode: \<open>None\<close> when the cap was hit.\<close>

definition encode_from_reader ::
  "codec_env \<Rightarrow> bytes \<Rightarrow> bytes \<Rightarrow> nat \<Rightarrow> (codec_error, bytes option) result" where
  "encode_from_reader c source target cap =
     (if cli_available c \<and> length (fst (xdelta3 c Encode source target)) > cap then Inr None
      else map_sum id Some (run_xdelta3_streaming c Encode source target cap))"

definition compression_ratio :: "codec_env \<Rightarrow> nat \<Rightarrow> nat \<Rightarrow> rat" where
  "compression_ratio c orig_len delta_len =
     (if orig_len = 0 then 1
      else f32_round c (f32_round c (of_nat delta_len) / f32_round c (of_nat orig_len)))"

text \<open>The cap on a streamed delta: the ceiling of the size times the ratio, as 64-bit floats.\<close>

definition delta_cap :: "codec_env \<Rightarrow> nat \<Rightarrow> rat \<Rightarrow> nat" where
  "delta_cap c sz ratio = nat \<lceil>f64_round c (f64_round c (of_nat sz) * ratio)\<rceil>"

section \<open>The contract of the tool\<close>

text \<open>
  The documented behaviour of \<open>xdelta3\<close>: a delta that it produced successfully, applied to the
  same source, gives the target back, byte for byte.
\<close>

definition xdelta3_lossless :: "codec_env \<Rightarrow> bool" where
  "xdelta3_lossless c \<longleftrightarrow>
     (\<forall>source target delta. xdelta3 c Encode source target = (delta, True) \<longrightarrow>
        xdelta3 c Decode source delta = (target, True))"

lemma encode_Inr:
  assumes "encode c source target = Inr delta"
  shows "cli_available c" "xdelta3 c Encode source target = (delta, True)"
    "length source \<le> max_size c" "length target \<le> max_size c" "length delta \<le> max_size c"
  using assms by (auto simp: encode_def run_xdelta3_def split: if_splits prod.splits)

lemma encode_from_reader_Inr:
  assumes "encode_from_reader c source target cap = Inr (Some delta)"
  shows "cli_available c" "xdelta3 c Encode source target = (delta, True)" "length delta \<le> cap"
  using assms by (auto simp: encode_from_reader_def run_xdelta3_streaming_def map_sum_def
      split: if_splits prod.splits)

lemma decode_ok:
  assumes "cli_available c" "xdelta3 c Decode source delta = (target, True)"
    "length source \<le> max_size c" "length target \<le> max_size c"
  shows "decode c source delta = Inr target"
  using assms by (simp add: decode_def run_xdelta3_def)

lemma decode_to_writer_ok:
  assumes "cli_available c" "xdelta3 c Decode source delta = (target, True)" "length target \<le> cap"
  shows "decode_to_writer c source delta cap = Inr target"
  using assms by (simp add: decode_to_writer_def run_xdelta3_streaming_def)

lemma decode_Inr:
  assumes "decode c source delta = Inr target"
  shows "length target \<le> max_size c"
  using assms by (auto simp: decode_def run_xdelta3_def split: if_splits prod.splits)

text \<open>
  A concrete codec that keeps the contract: the delta is one byte when the target is the source, and
  otherwise a tag and the target itself.  The witnesses use it.
\<close>

fun toy_encode :: "bytes \<Rightarrow> bytes \<Rightarrow> bytes" where
  "toy_encode source target =
     (if source = target then [1] else 0 # target)"

fun toy_decode :: "bytes \<Rightarrow> bytes \<Rightarrow> bytes \<times> bool" where
  "toy_decode source [] = ([], False)"
| "toy_decode source (tag # rest) = (if tag = 1 then (source, True) else (rest, True))"

definition toy_codec :: codec_env where
  "toy_codec = \<lparr>xdelta3 = (\<lambda>mode source input. case mode of
       Encode \<Rightarrow> (toy_encode source input, True) | Decode \<Rightarrow> toy_decode source input),
     cli_available = True, max_size = 100, f32_round = id, f64_round = id\<rparr>"

lemma toy_codec_lossless: "xdelta3_lossless toy_codec"
  by (auto simp: xdelta3_lossless_def toy_codec_def split: if_splits)

end
