(* ===== verification/Usage.thy ===== *)
theory Usage
  imports Types
begin

text \<open>
  Space accounting: the totals that a full scan accumulates (\<open>SavingsTotals\<close> of
  \<open>src/src/deltaglider/savings.rs\<close>) and the running per-bucket counter that every write and
  delete updates (\<open>src/src/bucket_usage.rs\<close>).  The counter's table is a partial function from
  bucket names to rows, and an update is one upsert.  Its columns are SQLite integers; the sums are
  written over the integers, and the casts from \<open>u64\<close> to \<open>i64\<close> wrap.  The floating-point
  percentages derived from the totals are not modelled.
\<close>

section \<open>Totals of a scan\<close>

record savings_totals =
  original_bytes :: nat
  stored_bytes :: nat
  reference_bytes :: nat
  delta_stored_bytes :: nat
  passthrough_bytes :: nat
  reference_count :: nat
  delta_count :: nat
  passthrough_count :: nat

definition savings_default :: savings_totals where
  "savings_default = \<lparr>original_bytes = 0, stored_bytes = 0, reference_bytes = 0,
     delta_stored_bytes = 0, passthrough_bytes = 0, reference_count = 0, delta_count = 0,
     passthrough_count = 0\<rparr>"

definition accumulate :: "savings_totals \<Rightarrow> file_metadata \<Rightarrow> savings_totals" where
  "accumulate t m = (case storage_info m of
     Reference _ \<Rightarrow>
       t\<lparr>reference_count := sat_add (reference_count t) 1,
         reference_bytes := sat_add (reference_bytes t) (file_size m),
         stored_bytes := sat_add (stored_bytes t) (file_size m)\<rparr>
   | Delta _ _ n _ \<Rightarrow>
       t\<lparr>delta_count := sat_add (delta_count t) 1,
         original_bytes := sat_add (original_bytes t) (file_size m),
         delta_stored_bytes := sat_add (delta_stored_bytes t) n,
         stored_bytes := sat_add (stored_bytes t) n\<rparr>
   | Passthrough \<Rightarrow>
       t\<lparr>passthrough_count := sat_add (passthrough_count t) 1,
         passthrough_bytes := sat_add (passthrough_bytes t) (file_size m),
         original_bytes := sat_add (original_bytes t) (file_size m),
         stored_bytes := sat_add (stored_bytes t) (file_size m)\<rparr>)"

definition saved_bytes :: "savings_totals \<Rightarrow> nat" where
  "saved_bytes t = original_bytes t - stored_bytes t"

definition saved_bytes_signed :: "savings_totals \<Rightarrow> int" where
  "saved_bytes_signed t = sat_i64 (int (original_bytes t) - int (stored_bytes t))"

definition user_visible_count :: "savings_totals \<Rightarrow> nat" where
  "user_visible_count t = sat_add (delta_count t) (passthrough_count t)"

section \<open>The running counter\<close>

text \<open>The cast of a \<open>u64\<close> to an \<open>i64\<close>.\<close>

definition as_i64 :: "nat \<Rightarrow> int" where
  "as_i64 n = (let r = int n mod 2 ^ 64 in if r < 2 ^ 63 then r else r - 2 ^ 64)"

lemma as_i64_small [simp]: "n < 2 ^ 63 \<Longrightarrow> as_i64 n = int n"
  by (simp add: as_i64_def)

record usage_row =
  object_count :: int
  logical_bytes :: int
  row_stored_bytes :: int
  last_scan_at :: "int option"

type_synonym usage_db = "string \<rightharpoonup> usage_row"

definition usage_delta_for :: "file_metadata \<Rightarrow> int \<Rightarrow> int \<times> int \<times> int" where
  "usage_delta_for m s = (case storage_info m of
     Reference _ \<Rightarrow> (0, 0, s * as_i64 (file_size m))
   | Delta _ _ n _ \<Rightarrow> (s, s * as_i64 (file_size m), s * as_i64 n)
   | Passthrough \<Rightarrow> (s, s * as_i64 (file_size m), s * as_i64 (file_size m)))"

definition apply_delta :: "string \<Rightarrow> int \<Rightarrow> int \<Rightarrow> int \<Rightarrow> usage_db \<Rightarrow> usage_db" where
  "apply_delta bucket dc dl ds db = (case db bucket of
     None \<Rightarrow> db(bucket \<mapsto> \<lparr>object_count = dc, logical_bytes = dl, row_stored_bytes = ds,
                          last_scan_at = None\<rparr>)
   | Some r \<Rightarrow> db(bucket \<mapsto> r\<lparr>object_count := object_count r + dc,
                               logical_bytes := logical_bytes r + dl,
                               row_stored_bytes := row_stored_bytes r + ds\<rparr>))"

definition apply_object :: "string \<Rightarrow> file_metadata \<Rightarrow> int \<Rightarrow> usage_db \<Rightarrow> usage_db" where
  "apply_object bucket m s db =
     (case usage_delta_for m s of (dc, dl, ds) \<Rightarrow> apply_delta bucket dc dl ds db)"

definition map_row_at :: "usage_row \<Rightarrow> usage_row" where
  "map_row_at r = r\<lparr>object_count := max 0 (object_count r), logical_bytes := max 0 (logical_bytes r),
                    row_stored_bytes := max 0 (row_stored_bytes r)\<rparr>"

definition read_usage :: "string \<Rightarrow> usage_db \<Rightarrow> usage_row option" where
  "read_usage bucket db = map_option map_row_at (db bucket)"

definition overwrite_from_scan :: "string \<Rightarrow> savings_totals \<Rightarrow> int \<Rightarrow> usage_db \<Rightarrow> usage_db" where
  "overwrite_from_scan bucket t now db =
     db(bucket \<mapsto> \<lparr>object_count = as_i64 (delta_count t + passthrough_count t),
                   logical_bytes = as_i64 (original_bytes t),
                   row_stored_bytes = as_i64 (stored_bytes t), last_scan_at = Some now\<rparr>)"

definition is_transient_bucket :: "string \<Rightarrow> bool" where
  "is_transient_bucket bucket = starts_with bucket ''__dgmigrate_''"

definition opt_delta :: "file_metadata option \<Rightarrow> int \<Rightarrow> int \<times> int \<times> int" where
  "opt_delta m s = (case m of None \<Rightarrow> (0, 0, 0) | Some x \<Rightarrow> usage_delta_for x s)"

definition apply_net ::
  "string \<Rightarrow> file_metadata option \<Rightarrow> file_metadata option \<Rightarrow> int \<Rightarrow> usage_db \<Rightarrow> usage_db" where
  "apply_net bucket removed added ref_bytes_delta db =
     (if is_transient_bucket bucket then db
      else let (c1, l1, s1) = opt_delta removed (- 1);
               (c2, l2, s2) = opt_delta added 1;
               dc = c1 + c2; dl = l1 + l2; ds = ref_bytes_delta + s1 + s2
           in if dc = 0 \<and> dl = 0 \<and> ds = 0 then db else apply_delta bucket dc dl ds db)"

section \<open>Facts\<close>

text \<open>What one object adds to the exact totals, as a triple of count, logical and stored bytes.\<close>

definition contribution :: "file_metadata \<Rightarrow> nat \<times> nat \<times> nat" where
  "contribution m = (case storage_info m of
     Reference _ \<Rightarrow> (0, 0, file_size m)
   | Delta _ _ n _ \<Rightarrow> (1, file_size m, n)
   | Passthrough \<Rightarrow> (1, file_size m, file_size m))"

abbreviation count_of :: "file_metadata \<Rightarrow> nat" where "count_of m \<equiv> fst (contribution m)"
abbreviation logical_of :: "file_metadata \<Rightarrow> nat" where "logical_of m \<equiv> fst (snd (contribution m))"
abbreviation stored_of :: "file_metadata \<Rightarrow> nat" where "stored_of m \<equiv> snd (snd (contribution m))"

lemma accumulate_exact:
  assumes "user_visible_count t = delta_count t + passthrough_count t"
    and "delta_count t + passthrough_count t + count_of m < 2 ^ 63"
    and "original_bytes t + logical_of m < 2 ^ 63"
    and "stored_bytes t + stored_of m < 2 ^ 63"
  shows "delta_count (accumulate t m) + passthrough_count (accumulate t m)
           = delta_count t + passthrough_count t + count_of m"
    and "original_bytes (accumulate t m) = original_bytes t + logical_of m"
    and "stored_bytes (accumulate t m) = stored_bytes t + stored_of m"
  using assms
  by (cases "storage_info m"; simp add: accumulate_def contribution_def sat_add_def u64_max_def)+

lemma scan_totals:
  fixes ms :: "file_metadata list"
  assumes "sum_list (map count_of ms) < 2 ^ 63" "sum_list (map logical_of ms) < 2 ^ 63"
    "sum_list (map stored_of ms) < 2 ^ 63"
  shows "delta_count (foldl accumulate savings_default ms)
           + passthrough_count (foldl accumulate savings_default ms) = sum_list (map count_of ms)
       \<and> original_bytes (foldl accumulate savings_default ms) = sum_list (map logical_of ms)
       \<and> stored_bytes (foldl accumulate savings_default ms) = sum_list (map stored_of ms)"
  using assms
proof (induction ms rule: rev_induct)
  case Nil
  then show ?case by (simp add: savings_default_def)
next
  case (snoc m ms)
  let ?t = "foldl accumulate savings_default ms"
  have IH: "delta_count ?t + passthrough_count ?t = sum_list (map count_of ms)"
    "original_bytes ?t = sum_list (map logical_of ms)" "stored_bytes ?t = sum_list (map stored_of ms)"
    using snoc by simp_all
  have "user_visible_count ?t = delta_count ?t + passthrough_count ?t"
    using IH snoc.prems by (simp add: user_visible_count_def sat_add_def u64_max_def)
  from accumulate_exact [OF this, of m] IH snoc.prems show ?case by simp
qed

lemma usage_delta_contribution:
  assumes "logical_of m < 2 ^ 63" "stored_of m < 2 ^ 63"
  shows "usage_delta_for m s = (s * int (count_of m), s * int (logical_of m), s * int (stored_of m))"
  using assms by (cases "storage_info m") (simp_all add: usage_delta_for_def contribution_def)

text \<open>The row of a bucket read as a triple, a missing row as zeros.\<close>

definition counters :: "usage_db \<Rightarrow> string \<Rightarrow> int \<times> int \<times> int" where
  "counters db b = (case db b of None \<Rightarrow> (0, 0, 0)
     | Some r \<Rightarrow> (object_count r, logical_bytes r, row_stored_bytes r))"

lemma counters_apply_delta:
  "counters (apply_delta b dc dl ds db) b' =
     (if b' = b then (case counters db b of (c, l, s) \<Rightarrow> (c + dc, l + dl, s + ds)) else counters db b')"
  by (auto simp: counters_def apply_delta_def split: option.splits)

lemma counters_apply_net:
  assumes "\<not> is_transient_bucket b"
  shows "counters (apply_net b removed added rb db) b =
    (case (counters db b, opt_delta removed (- 1), opt_delta added 1) of
       ((c, l, s), (c1, l1, s1), (c2, l2, s2)) \<Rightarrow> (c + c1 + c2, l + l1 + l2, s + rb + s1 + s2))"
  using assms by (auto simp: apply_net_def Let_def counters_apply_delta split: prod.splits)

lemma counters_apply_net_other: "b' \<noteq> b \<Longrightarrow> counters (apply_net b removed added rb db) b' = counters db b'"
  by (auto simp: apply_net_def Let_def counters_apply_delta split: prod.splits)

lemma counters_foldl:
  assumes "\<forall>m \<in> set ms. logical_of m < 2 ^ 63 \<and> stored_of m < 2 ^ 63"
  shows "counters (foldl (\<lambda>d m. apply_object b m 1 d) db ms) b =
    (case counters db b of (c, l, s) \<Rightarrow>
       (c + int (sum_list (map count_of ms)), l + int (sum_list (map logical_of ms)),
        s + int (sum_list (map stored_of ms))))"
  using assms
proof (induction ms rule: rev_induct)
  case Nil
  then show ?case by (simp split: prod.splits)
next
  case (snoc m ms)
  then show ?case
    by (simp add: apply_object_def counters_apply_delta usage_delta_contribution split: prod.splits)
qed

lemma member_le_sum_list_map: "x \<in> set xs \<Longrightarrow> (f x :: nat) \<le> sum_list (map f xs)"
  by (simp add: member_le_sum_list)

section \<open>Properties of the accounting\<close>

text \<open>
  C26: The inline counter and the scan agree.  Counting every object of a bucket one by one from an
  empty table leaves the same three numbers in the row as overwriting the row with the totals of a
  scan of those objects, for every mix of references, deltas and passthrough objects, as long as
  the sums stay below 2^63.
\<close>

theorem inline_counter_equals_scan:
  assumes "sum_list (map count_of ms) < 2 ^ 63" "sum_list (map logical_of ms) < 2 ^ 63"
    "sum_list (map stored_of ms) < 2 ^ 63"
  shows "counters (foldl (\<lambda>d m. apply_object b m 1 d) Map.empty ms) b
       = counters (overwrite_from_scan b (foldl accumulate savings_default ms) now db) b"
proof -
  have small: "\<forall>m \<in> set ms. logical_of m < 2 ^ 63 \<and> stored_of m < 2 ^ 63"
    using assms member_le_sum_list_map [of _ ms logical_of] member_le_sum_list_map [of _ ms stored_of]
    by (meson le_less_trans)
  have "counters Map.empty b = (0, 0, 0)" by (simp add: counters_def)
  with counters_foldl [OF small, of b Map.empty] scan_totals [OF assms] assms show ?thesis
    by (simp add: overwrite_from_scan_def counters_def)
qed

theorem inline_counter_equals_scan_witness:
  "counters (foldl (\<lambda>d m. apply_object ''b'' m 1 d) Map.empty
      [fallback_metadata ''reference.bin'' 100 [] 0 None (Reference ''a''),
       fallback_metadata ''a'' 100 [] 0 None (delta_stub 7),
       fallback_metadata ''c.png'' 30 [] 0 None Passthrough]) ''b'' = (2, 130, 137)"
proof -
  let ?ms = "[fallback_metadata ''reference.bin'' 100 [] 0 None (Reference ''a''),
       fallback_metadata ''a'' 100 [] 0 None (delta_stub 7),
       fallback_metadata ''c.png'' 30 [] 0 None Passthrough]"
  have "counters (foldl (\<lambda>d m. apply_object ''b'' m 1 d) Map.empty ?ms) ''b''
      = counters (overwrite_from_scan ''b'' (foldl accumulate savings_default ?ms) 0 Map.empty) ''b''"
    by (rule inline_counter_equals_scan)
      (simp_all add: contribution_def fallback_metadata_def delta_stub_def)
  then show ?thesis
    by (simp add: overwrite_from_scan_def counters_def accumulate_def savings_default_def
        fallback_metadata_def delta_stub_def sat_add_def u64_max_def)
qed



end
