(* ===== verification/Policy.thy ===== *)
theory Policy
  imports Prelude Complex_Main
begin

text \<open>
  Per-bucket policies and public prefixes (\<open>src/src/bucket_policy.rs\<close>, with the prefix check
  of \<open>src/src/security.rs\<close>), and the router that decides from a file name whether an object is
  a candidate for delta compression (\<open>src/src/deltaglider/file_router.rs\<close>).  A ratio is the
  rational number that the 32-bit float stands for.  The maps of the source are built by inserting
  the entries of a list in order.
\<close>

section \<open>File types\<close>

datatype compression_strategy = DeltaEligible | DirectStore

definition delta_suffixes :: "string list" where
  "delta_suffixes = map (\<lambda>e. CHR ''.'' # e)
     [''zip'', ''tar'', ''jar'', ''war'', ''ear'', ''dmg'', ''iso'', ''sql'', ''dump'', ''bak'', ''backup'']"

definition route :: "string \<Rightarrow> compression_strategy" where
  "route filename =
     (let lower = to_ascii_lowercase filename
      in if list_ex (ends_with lower) delta_suffixes then DeltaEligible else DirectStore)"

definition is_delta_eligible :: "string \<Rightarrow> bool" where
  "is_delta_eligible filename = (route filename = DeltaEligible)"

section \<open>The policy of a bucket\<close>

record bucket_policy =
  compression :: "bool option"
  max_ratio :: "rat option"
  backend :: "string option"
  bucket_alias :: "string option"
  public_prefixes :: "string list"
  public :: "bool option"
  quota :: "nat option"
  replication_target :: bool

definition default_policy :: bucket_policy where
  "default_policy = \<lparr>compression = None, max_ratio = None, backend = None, bucket_alias = None,
     public_prefixes = [], public = None, quota = None, replication_target = False\<rparr>"

text \<open>The check of \<open>security.rs\<close>, and the outcome that distinguishes the rejections.\<close>

datatype prefix_error = DangerousPattern | NoTrailingSlash

definition dangerous :: "string \<Rightarrow> bool" where
  "dangerous p \<longleftrightarrow> contains_str p ''..'' \<or> CHR 0x00 \<in> set p \<or> contains_str p ''//''"

definition validate_public_prefix :: "string \<Rightarrow> (prefix_error, unit) result" where
  "validate_public_prefix p =
     (if p = [] then Inr ()
      else if dangerous p then Inl DangerousPattern
      else if \<not> ends_with p ''/'' then Inl NoTrailingSlash
      else Inr ())"

datatype prefix_outcome = Accept string | BareSlash | Dangerous | MissingTrailingSlash string

definition validate_and_normalize_prefix :: "string \<Rightarrow> prefix_outcome" where
  "validate_and_normalize_prefix raw =
     (if raw \<noteq> [] \<and> list_all (\<lambda>c. c = CHR ''/'') raw then BareSlash
      else let p = trim_start_matches (CHR ''/'') raw
           in case validate_public_prefix p of
                Inr _ \<Rightarrow> Accept p
              | Inl _ \<Rightarrow> if dangerous p then Dangerous else MissingTrailingSlash p)"

definition accepted_prefix :: "string \<Rightarrow> string option" where
  "accepted_prefix p = (case validate_and_normalize_prefix p of Accept n \<Rightarrow> Some n | _ \<Rightarrow> None)"

text \<open>The expansion of the \<open>public\<close> shorthand, and its inverse.\<close>

datatype normalize_error = PublicAndPrefixes

definition normalize_policy :: "bucket_policy \<Rightarrow> (normalize_error, bucket_policy) result" where
  "normalize_policy b =
     (let already_expanded = (public b = Some True \<and> public_prefixes b = [[]])
      in case public b of
           Some True \<Rightarrow>
             if \<not> already_expanded \<and> public_prefixes b \<noteq> [] then Inl PublicAndPrefixes
             else Inr (if already_expanded then b else b\<lparr>public_prefixes := [[]]\<rparr>)
         | Some False \<Rightarrow> Inr (b\<lparr>public := None\<rparr>)
         | None \<Rightarrow> Inr b)"

definition collapse_to_shorthand :: "bucket_policy \<Rightarrow> bucket_policy" where
  "collapse_to_shorthand b =
     (if public_prefixes b = [[]] then b\<lparr>public := Some True, public_prefixes := []\<rparr> else b)"

section \<open>The registry\<close>

record registry =
  policies :: "string \<rightharpoonup> bucket_policy"
  default_compression :: bool
  default_max_delta_ratio :: rat
  replication_target_real_names :: "string set"

definition normalize_entry :: "bucket_policy \<Rightarrow> bucket_policy" where
  "normalize_entry v =
     (let v = (case max_ratio v of
                 Some r \<Rightarrow> if 0 \<le> r \<and> r \<le> 1 then v else v\<lparr>max_ratio := None\<rparr>
               | None \<Rightarrow> v)
      in if public_prefixes v = [] then v
         else v\<lparr>public_prefixes := remdups_adj (sort (List.map_filter accepted_prefix (public_prefixes v)))\<rparr>)"

definition insert_all :: "('k \<times> 'v) list \<Rightarrow> ('k \<rightharpoonup> 'v)" where
  "insert_all kvs = foldl (\<lambda>m (k, v). m(k \<mapsto> v)) Map.empty kvs"

definition registry_new :: "(string \<times> bucket_policy) list \<Rightarrow> rat \<Rightarrow> registry" where
  "registry_new ps ratio =
     (let entries = map (\<lambda>(k, v). (to_ascii_lowercase k, normalize_entry v)) ps
      in \<lparr>policies = insert_all entries, default_compression = True, default_max_delta_ratio = ratio,
          replication_target_real_names =
            set (List.map_filter (\<lambda>name. case insert_all entries name of
                Some p \<Rightarrow> if replication_target p
                         then Some (to_ascii_lowercase (case bucket_alias p of Some a \<Rightarrow> a | None \<Rightarrow> name))
                         else None
              | None \<Rightarrow> None) (map fst entries))\<rparr>)"

definition compression_enabled :: "registry \<Rightarrow> string \<Rightarrow> bool" where
  "compression_enabled r bucket =
     (case Option.bind (policies r bucket) compression of
        Some c \<Rightarrow> c | None \<Rightarrow> default_compression r)"

definition max_delta_ratio :: "registry \<Rightarrow> string \<Rightarrow> rat" where
  "max_delta_ratio r bucket = (case policies r bucket of
     Some p \<Rightarrow>
       (case max_ratio p of
          Some x \<Rightarrow> x
        | None \<Rightarrow> if compression p = Some True \<and> default_max_delta_ratio r = 0 then 3 / 4
                 else default_max_delta_ratio r)
   | None \<Rightarrow> default_max_delta_ratio r)"

definition quota_bytes :: "registry \<Rightarrow> string \<Rightarrow> nat option" where
  "quota_bytes r bucket = Option.bind (policies r bucket) quota"

definition replication_target_only :: "registry \<Rightarrow> string \<Rightarrow> bool" where
  "replication_target_only r bucket =
     (case policies r bucket of Some p \<Rightarrow> replication_target p | None \<Rightarrow> False)"

datatype write_block = ConfiguredTarget | AliasOfTarget

definition client_write_block_reason :: "registry \<Rightarrow> string \<Rightarrow> write_block option" where
  "client_write_block_reason r bucket =
     (let key = to_ascii_lowercase bucket
      in if replication_target_only r key then Some ConfiguredTarget
         else if policies r key = None \<and> key \<in> replication_target_real_names r then Some AliasOfTarget
         else None)"

definition resolve_backend :: "registry \<Rightarrow> string \<Rightarrow> string option \<times> string" where
  "resolve_backend r bucket = (case policies r bucket of
     Some p \<Rightarrow> (backend p, case bucket_alias p of Some a \<Rightarrow> a | None \<Rightarrow> bucket)
   | None \<Rightarrow> (None, bucket))"

definition routing_table :: "registry \<Rightarrow> (string \<rightharpoonup> string \<times> string option)" where
  "routing_table r = (\<lambda>bucket. case policies r bucket of
     Some p \<Rightarrow> map_option (\<lambda>b. (b, bucket_alias p)) (backend p) | None \<Rightarrow> None)"

section \<open>Public prefixes\<close>

type_synonym public_snapshot = "string \<rightharpoonup> string list"

definition key_matches_prefix :: "string \<Rightarrow> string \<Rightarrow> bool" where
  "key_matches_prefix key pre \<longleftrightarrow> pre = [] \<or> starts_with key pre"

definition snapshot_from_config :: "(string \<times> bucket_policy) list \<Rightarrow> public_snapshot" where
  "snapshot_from_config bs =
     insert_all (filter (\<lambda>(_, v). v \<noteq> [])
       (map (\<lambda>(k, v). (to_ascii_lowercase k, List.map_filter accepted_prefix (public_prefixes v)))
         (filter (\<lambda>(_, v). public_prefixes v \<noteq> []) bs)))"

definition is_public_read :: "public_snapshot \<Rightarrow> string \<Rightarrow> string \<Rightarrow> bool" where
  "is_public_read s bucket key =
     (case s bucket of Some ps \<Rightarrow> list_ex (key_matches_prefix key) ps | None \<Rightarrow> False)"

definition list_overlaps_public :: "public_snapshot \<Rightarrow> string \<Rightarrow> string \<Rightarrow> bool" where
  "list_overlaps_public s bucket requested =
     (case s bucket of
        Some ps \<Rightarrow> list_ex (\<lambda>pp. key_matches_prefix requested pp \<or> starts_with pp requested) ps
      | None \<Rightarrow> False)"

section \<open>Facts\<close>

lemma insert_all_snoc [simp]: "insert_all (kvs @ [(k, v)]) = (insert_all kvs)(k \<mapsto> v)"
  by (simp add: insert_all_def)

lemma insert_all_Nil [simp]: "insert_all [] = Map.empty"
  by (simp add: insert_all_def)

lemma insert_all_mem: "insert_all kvs k = Some v \<Longrightarrow> (k, v) \<in> set kvs"
  by (induction kvs rule: rev_induct) (auto split: if_splits)

lemma insert_all_distinct:
  assumes "distinct (map fst kvs)"
  shows "insert_all kvs k = map_of kvs k"
  using assms
proof (induction kvs rule: rev_induct)
  case Nil
  then show ?case by simp
next
  case (snoc x xs)
  obtain k' v where x: "x = (k', v)" by (cases x)
  with snoc.prems have "map_of xs k' = None" by (simp add: map_of_eq_None_iff)
  with snoc x show ?case by (cases "k = k'") (simp_all add: map_add_def split: option.split)
qed

lemma map_filter_mem: "y \<in> set (List.map_filter f xs) \<longleftrightarrow> (\<exists>x \<in> set xs. f x = Some y)"
  by (induction xs) (auto simp: List.map_filter_def split: option.splits)

lemma accepted_prefix_Some:
  "accepted_prefix p = Some n \<longleftrightarrow>
     n = trim_start_matches (CHR ''/'') p \<and> (p = [] \<or> n \<noteq> [] \<and> \<not> dangerous n \<and> ends_with n ''/'')"
proof (cases "p = []")
  case True
  then show ?thesis
    by (auto simp: accepted_prefix_def validate_and_normalize_prefix_def validate_public_prefix_def
        trim_start_matches_def)
next
  case False
  let ?t = "trim_start_matches (CHR ''/'') p"
  have bare: "list_all (\<lambda>c. c = CHR ''/'') p \<longleftrightarrow> ?t = []"
    by (auto simp: trim_start_matches_def list_all_iff)
  have "accepted_prefix p = (if ?t \<noteq> [] \<and> \<not> dangerous ?t \<and> ends_with ?t ''/'' then Some ?t else None)"
    using False by (simp add: accepted_prefix_def validate_and_normalize_prefix_def
        validate_public_prefix_def bare Let_def)
  with False show ?thesis by auto
qed

lemma trim_trimmed: "trim_start_matches c (trim_start_matches c s) = trim_start_matches c s"
  by simp

lemma accepted_prefix_idem:
  assumes "accepted_prefix p = Some n"
  shows "accepted_prefix n = Some n"
proof -
  from assms have "trim_start_matches (CHR ''/'') n = n" by (metis accepted_prefix_Some trim_trimmed)
  moreover from assms have "n = [] \<or> n \<noteq> [] \<and> \<not> dangerous n \<and> ends_with n ''/''"
    by (auto simp: accepted_prefix_Some trim_start_matches_def)
  ultimately show ?thesis unfolding accepted_prefix_Some by metis
qed

section \<open>Properties of the policies\<close>

text \<open>
  C24: Public prefixes expose whole directories only.  An object is readable anonymously only when
  its bucket's configuration has a public prefix that is either the literal empty string (the whole
  bucket) or, without its leading slashes, ends in a slash and starts the object's key; so a prefix
  written without its trailing slash never exposes a sibling directory.
\<close>

theorem public_read_is_directory_aligned:
  assumes "is_public_read (snapshot_from_config bs) b key"
  shows "\<exists>k v p. (k, v) \<in> set bs \<and> to_ascii_lowercase k = b \<and> p \<in> set (public_prefixes v)
     \<and> (p = [] \<or> (\<exists>d. trim_start_matches (CHR ''/'') p = d @ ''/'' \<and> starts_with key (d @ ''/'')))"
proof -
  from assms obtain ps n where ps: "snapshot_from_config bs b = Some ps" and n: "n \<in> set ps"
    and m: "key_matches_prefix key n"
    by (auto simp: is_public_read_def list_ex_iff split: option.splits)
  from insert_all_mem [OF ps [unfolded snapshot_from_config_def]] obtain k v where
    kv: "(k, v) \<in> set bs" "to_ascii_lowercase k = b"
      "ps = List.map_filter accepted_prefix (public_prefixes v)"
    by auto
  from n kv(3) obtain p where p: "p \<in> set (public_prefixes v)" "accepted_prefix p = Some n"
    by (auto simp: map_filter_mem)
  then have "p = [] \<or> (\<exists>d. trim_start_matches (CHR ''/'') p = d @ ''/'' \<and> starts_with key (d @ ''/''))"
    using m by (auto simp: accepted_prefix_Some key_matches_prefix_def ends_with_iff)
  with kv p show ?thesis by blast
qed

theorem public_read_is_directory_aligned_witness:
  "\<exists>k v p. (k, v) \<in> set [(''Data'', default_policy\<lparr>public_prefixes := [''/pub/'', ''builds'']\<rparr>)]
     \<and> to_ascii_lowercase k = ''data'' \<and> p \<in> set (public_prefixes v)
     \<and> (p = [] \<or> (\<exists>d. trim_start_matches (CHR ''/'') p = d @ ''/'' \<and> starts_with ''pub/x.zip'' (d @ ''/'')))"
  by (rule public_read_is_directory_aligned) code_simp



end
