(* ===== verification/Engine.thy ===== *)
theory Engine
  imports Codec Usage Policy
begin

text \<open>
  The state of the engine and the parts that its pipelines share
  (\<open>src/src/deltaglider/engine/mod.rs\<close>): the two in-memory caches
  (\<open>src/src/deltaglider/cache.rs\<close>, \<open>src/src/metadata_cache.rs\<close>), key validation, the
  resolution of an object's metadata from its two storage variants, the verified load of a
  deltaspace's reference, and the hooks of the usage counter.

  The engine's state extends the storage state by the caches and the counter.  The caches are
  partial functions; eviction is the removal of entries at any moment between operations.  Hash
  functions are parameters.  Codec permits, spool space and the cross-instance lock can be refused:
  each attempt to take one consumes a tick of the fault schedule.  All operations that an operation
  performs see one value of the clock.
\<close>

section \<open>State, environment and errors\<close>

record engine = storage +
  ref_cache :: "string \<rightharpoonup> bytes"
  meta_cache :: "string \<rightharpoonup> file_metadata"
  usage :: usage_db

record engine_env = storage_env +
  codec :: codec_env
  sha256_hex :: "bytes \<Rightarrow> string"
  md5_hex :: "bytes \<Rightarrow> string"
  max_object_size :: nat
  max_passthrough_object_size :: nat
  spool_threshold :: nat
  bucket_policies :: registry
  usage_attached :: bool
  reference_lock_attached :: bool

datatype invalid_argument = BadKey key_validation_error | ReferenceIsInternal

datatype engine_error =
    EStorage storage_error | ECodec codec_error | ENotFound string
  | ChecksumMismatch string string string | MissingReference string | ETooLarge nat nat
  | InvalidArgument invalid_argument | Overloaded string

type_synonym 'a op = "engine \<Rightarrow> (engine_error, 'a) result \<times> engine"

definition INTERNAL_REFERENCE_NAME :: string where
  "INTERNAL_REFERENCE_NAME = ''__reference__''"

section \<open>The caches\<close>

definition cache_key :: "string \<Rightarrow> string \<Rightarrow> string" where
  "cache_key bucket ds = bucket @ ''/'' @ ds"

definition cache_put :: "string \<Rightarrow> bytes \<Rightarrow> engine \<Rightarrow> engine" where
  "cache_put k d s = s\<lparr>ref_cache := (ref_cache s)(k \<mapsto> d)\<rparr>"

definition cache_invalidate :: "string \<Rightarrow> engine \<Rightarrow> engine" where
  "cache_invalidate k s = s\<lparr>ref_cache := (ref_cache s)(k := None)\<rparr>"

definition meta_cache_key :: "string \<Rightarrow> string \<Rightarrow> string" where
  "meta_cache_key bucket key = bucket @ ''/'' @ trim_start_matches (CHR ''/'') key"

definition meta_get :: "string \<Rightarrow> string \<Rightarrow> engine \<Rightarrow> file_metadata option" where
  "meta_get bucket key s = meta_cache s (meta_cache_key bucket key)"

definition meta_insert :: "string \<Rightarrow> string \<Rightarrow> file_metadata \<Rightarrow> engine \<Rightarrow> engine" where
  "meta_insert bucket key m s = s\<lparr>meta_cache := (meta_cache s)(meta_cache_key bucket key \<mapsto> m)\<rparr>"

definition meta_invalidate :: "string \<Rightarrow> string \<Rightarrow> engine \<Rightarrow> engine" where
  "meta_invalidate bucket key s = s\<lparr>meta_cache := (meta_cache s)(meta_cache_key bucket key := None)\<rparr>"

definition meta_invalidate_prefix :: "string \<Rightarrow> string \<Rightarrow> engine \<Rightarrow> engine" where
  "meta_invalidate_prefix bucket pre s =
     s\<lparr>meta_cache := (\<lambda>k. if starts_with k (meta_cache_key bucket pre) then None else meta_cache s k)\<rparr>"

section \<open>Permits and locks\<close>

definition try_acquire_codec :: "engine_env \<Rightarrow> unit op" where
  "try_acquire_codec env s = (case sched env (tick s) of
     None \<Rightarrow> (Inr (), next_tick s)
   | Some _ \<Rightarrow> (Inl (Overloaded ''all delta codec slots busy''), next_tick s))"

definition acquire_codec_timeout :: "engine_env \<Rightarrow> unit op" where
  "acquire_codec_timeout env s = (case sched env (tick s) of
     None \<Rightarrow> (Inr (), next_tick s)
   | Some _ \<Rightarrow> (Inl (Overloaded ''timed out waiting for codec slot''), next_tick s))"

definition spool_acquire :: "engine_env \<Rightarrow> nat \<Rightarrow> unit op" where
  "spool_acquire env n s = (case sched env (tick s) of
     None \<Rightarrow> (Inr (), next_tick s)
   | Some (FaultBefore _) \<Rightarrow> (Inl (Overloaded ''spool budget exhausted''), next_tick s)
   | Some (FaultAfter e) \<Rightarrow> (Inl (EStorage e), next_tick s))"

definition spool_acquire_pair :: "engine_env \<Rightarrow> nat \<Rightarrow> nat \<Rightarrow> unit op" where
  "spool_acquire_pair env a b = spool_acquire env (a + b)"

definition acquire_reference_lock :: "engine_env \<Rightarrow> string \<Rightarrow> string \<Rightarrow> unit op" where
  "acquire_reference_lock env bucket deltaspace s =
     (if \<not> reference_lock_attached env then (Inr (), s)
      else case sched env (tick s) of
        None \<Rightarrow> (Inr (), next_tick s)
      | Some _ \<Rightarrow> (Inl (EStorage (Other ''reference lock not acquired'')), next_tick s))"

section \<open>Keys\<close>

definition validated_key :: "string \<Rightarrow> string \<Rightarrow> (engine_error, object_key \<times> string) result" where
  "validated_key bucket key =
     (let k = parse_key bucket key
      in case validate_object k of
           Inl e \<Rightarrow> Inl (InvalidArgument (BadKey e))
         | Inr _ \<Rightarrow> Inr (k, deltaspace_id k))"

definition validated_key_ingest :: "string \<Rightarrow> string \<Rightarrow> (engine_error, object_key \<times> string) result" where
  "validated_key_ingest bucket key =
     (let k = parse_key bucket key
      in case validate_ingest k of
           Inl e \<Rightarrow> Inl (InvalidArgument (BadKey e))
         | Inr _ \<Rightarrow> Inr (k, deltaspace_id k))"

section \<open>Resolving the metadata of an object\<close>

text \<open>A missing variant and an unreadable one both count as absent; other errors abort.\<close>

definition tolerate ::
  "(storage_error, file_metadata) result \<Rightarrow> (storage_error, file_metadata option) result" where
  "tolerate r = (case r of
     Inr m \<Rightarrow> Inr (Some m)
   | Inl e \<Rightarrow> (case e of NotFound _ \<Rightarrow> Inr None | Io _ \<Rightarrow> Inr None | _ \<Rightarrow> Inl e))"

definition newest :: "file_metadata option \<Rightarrow> file_metadata option \<Rightarrow> file_metadata option" where
  "newest d p = (case (d, p) of
     (Some d, Some p) \<Rightarrow> Some (if created_at p \<le> created_at d then d else p)
   | (Some m, None) \<Rightarrow> Some m
   | (None, Some m) \<Rightarrow> Some m
   | (None, None) \<Rightarrow> None)"

definition last_segment :: "string \<Rightarrow> string" where
  "last_segment k = (case rsplit_once (CHR ''/'') k of Some (_, f) \<Rightarrow> f | None \<Rightarrow> k)"

definition resolve_object_metadata ::
  "engine_env \<Rightarrow> string \<Rightarrow> string \<Rightarrow> string \<Rightarrow> engine
     \<Rightarrow> (storage_error, file_metadata option) result \<times> engine" where
  "resolve_object_metadata env bucket pre full s =
     (let filename = last_segment full;
          (dr, s) = get_delta_metadata env bucket pre filename s;
          (pr, s) = get_passthrough_metadata env bucket pre filename s
      in case tolerate dr of Inl e \<Rightarrow> (Inl e, s) | Inr d \<Rightarrow>
         case tolerate pr of Inl e \<Rightarrow> (Inl e, s) | Inr p \<Rightarrow> (Inr (newest d p), s))"

definition resolve_metadata :: "engine_env \<Rightarrow> string \<Rightarrow> string \<Rightarrow> object_key \<Rightarrow> file_metadata option op" where
  "resolve_metadata env bucket deltaspace k s =
     map_err EStorage (resolve_object_metadata env bucket deltaspace (full_key k) s)"

definition resolve_metadata_with_migration ::
  "engine_env \<Rightarrow> string \<Rightarrow> string \<Rightarrow> object_key \<Rightarrow> file_metadata option op" where
  "resolve_metadata_with_migration env bucket deltaspace k s =
     and_then (map_err EStorage (resolve_object_metadata env bucket deltaspace (full_key k) s))
       (\<lambda>m s. case m of Some _ \<Rightarrow> (Inr m, s) | None \<Rightarrow> (Inr None, s))"

definition head :: "engine_env \<Rightarrow> string \<Rightarrow> string \<Rightarrow> file_metadata op" where
  "head env bucket key s =
     (case validated_key bucket key of Inl e \<Rightarrow> (Inl e, s) | Inr (k, ds) \<Rightarrow>
      and_then (resolve_metadata_with_migration env bucket ds k s) (\<lambda>r s.
      and_then (case r of
          Some m \<Rightarrow> (Inr m, s)
        | None \<Rightarrow> map_err (\<lambda>e. case e of NotFound _ \<Rightarrow> ENotFound (full_key k) | _ \<Rightarrow> EStorage e)
                   (get_passthrough_metadata env bucket ds (ok_filename k) s)) (\<lambda>m s.
      (Inr m, meta_insert bucket key m s))))"

section \<open>The reference of a deltaspace\<close>

definition reference_integrity_ok :: "string \<Rightarrow> string \<Rightarrow> (string, unit) result" where
  "reference_integrity_ok actual expected =
     (if expected = [] \<or> actual = expected then Inr () else Inl expected)"

text \<open>
  The load is in two parts, as another request can run between them: reading and verifying the
  bytes, and publishing them in the cache.
\<close>

definition load_reference :: "engine_env \<Rightarrow> string \<Rightarrow> string \<Rightarrow> bytes op" where
  "load_reference env bucket ds s =
     (let (data_result, s) = get_reference env bucket ds s;
          (meta_result, s) = get_reference_metadata env bucket ds s
      in case data_result of
           Inl (NotFound _) \<Rightarrow> (Inl (MissingReference ds), s)
         | Inl e \<Rightarrow> (Inl (EStorage e), s)
         | Inr d \<Rightarrow>
             (case meta_result of
                Inl _ \<Rightarrow> (Inr d, s)
              | Inr expected \<Rightarrow>
                  if file_sha256 expected = [] then (Inr d, s)
                  else (case reference_integrity_ok (sha256_hex env d) (file_sha256 expected) of
                          Inr _ \<Rightarrow> (Inr d, s)
                        | Inl x \<Rightarrow> (Inl (ChecksumMismatch (ds @ ''/.dg/reference.bin'') x (sha256_hex env d)), s))))"

definition get_reference_cached :: "engine_env \<Rightarrow> string \<Rightarrow> string \<Rightarrow> (bytes \<times> bool) op" where
  "get_reference_cached env bucket ds s =
     (case ref_cache s (cache_key bucket ds) of
        Some d \<Rightarrow> (Inr (d, True), s)
      | None \<Rightarrow> and_then (load_reference env bucket ds s) (\<lambda>d s.
          (Inr (d, False), cache_put (cache_key bucket ds) d s)))"

section \<open>The usage counter\<close>

definition record_store :: "engine_env \<Rightarrow> string \<Rightarrow> store_result \<Rightarrow> engine \<Rightarrow> engine" where
  "record_store env bucket r s =
     (if \<not> usage_attached env then s
      else s\<lparr>usage := apply_net bucket (replaced r) (Some (sr_metadata r))
                       (as_i64 (reference_created_bytes r)) (usage s)\<rparr>)"

definition record_delete :: "engine_env \<Rightarrow> string \<Rightarrow> file_metadata \<Rightarrow> nat \<Rightarrow> engine \<Rightarrow> engine" where
  "record_delete env bucket m reclaimed s =
     (if \<not> usage_attached env then s
      else s\<lparr>usage := apply_net bucket (Some m) None (- as_i64 reclaimed) (usage s)\<rparr>)"

definition prior_for_counter ::
  "engine_env \<Rightarrow> string \<Rightarrow> string \<Rightarrow> engine \<Rightarrow> file_metadata option \<times> engine" where
  "prior_for_counter env bucket key s =
     (if \<not> usage_attached env then (None, s)
      else case validated_key bucket key of
        Inl _ \<Rightarrow> (None, s)
      | Inr (k, ds) \<Rightarrow>
          (case resolve_metadata env bucket ds k s of
             (Inr m, s) \<Rightarrow> (m, s) | (Inl _, s) \<Rightarrow> (None, s)))"

definition record_fast_path_copy ::
  "engine_env \<Rightarrow> string \<Rightarrow> file_metadata option \<Rightarrow> file_metadata \<Rightarrow> nat \<Rightarrow> engine \<Rightarrow> engine" where
  "record_fast_path_copy env bucket prior m seeded s =
     (if \<not> usage_attached env then s
      else s\<lparr>usage := apply_net bucket prior (Some m) (as_i64 seeded) (usage s)\<rparr>)"

section \<open>Facts on the shared parts\<close>

lemma engine_fields [simp]:
  "lookup_file (cache_put k d s) = lookup_file s" "lookup_file (cache_invalidate k s) = lookup_file s"
  "lookup_file (meta_insert b key m s) = lookup_file s" "lookup_file (meta_invalidate b key s) = lookup_file s"
  "lookup_file (record_store env b r s) = lookup_file s" "lookup_file (record_delete env b m n s) = lookup_file s"
  "clock (cache_put k d s) = clock s" "clock (cache_invalidate k s) = clock s"
  "clock (meta_insert b key m s) = clock s" "clock (meta_invalidate b key s) = clock s"
  "clock (record_store env b r s) = clock s" "clock (record_delete env b m n s) = clock s"
  "tick (cache_put k d s) = tick s" "tick (cache_invalidate k s) = tick s"
  "tick (meta_insert b key m s) = tick s" "tick (meta_invalidate b key s) = tick s"
  "tick (record_store env b r s) = tick s" "tick (record_delete env b m n s) = tick s"
  "bucket_dirs (cache_put k d s) = bucket_dirs s" "bucket_dirs (cache_invalidate k s) = bucket_dirs s"
  "bucket_dirs (meta_insert b key m s) = bucket_dirs s" "bucket_dirs (meta_invalidate b key s) = bucket_dirs s"
  "bucket_dirs (record_store env b r s) = bucket_dirs s" "bucket_dirs (record_delete env b m n s) = bucket_dirs s"
  by (simp_all add: lookup_file_def fun_eq_iff cache_put_def cache_invalidate_def meta_insert_def
      meta_invalidate_def record_store_def record_delete_def)

lemma cache_fields [simp]:
  "ref_cache (cache_put k d s) = (ref_cache s)(k \<mapsto> d)"
  "ref_cache (cache_invalidate k s) = (ref_cache s)(k := None)"
  "ref_cache (meta_insert b key m s) = ref_cache s" "ref_cache (meta_invalidate b key s) = ref_cache s"
  "ref_cache (record_store env b r s) = ref_cache s" "ref_cache (record_delete env b m n s) = ref_cache s"
  "meta_cache (cache_put k d s) = meta_cache s" "meta_cache (cache_invalidate k s) = meta_cache s"
  "meta_cache (meta_insert b key m s) = (meta_cache s)(meta_cache_key b key \<mapsto> m)"
  "meta_cache (meta_invalidate b key s) = (meta_cache s)(meta_cache_key b key := None)"
  "meta_cache (record_store env b r s) = meta_cache s" "meta_cache (record_delete env b m n s) = meta_cache s"
  by (simp_all add: cache_put_def cache_invalidate_def meta_insert_def
      meta_invalidate_def record_store_def record_delete_def)

lemma storage_caches [simp]:
  "ref_cache (next_tick s) = ref_cache s" "meta_cache (next_tick s) = meta_cache s"
  "ref_cache (write_file p f s) = ref_cache s" "meta_cache (write_file p f s) = meta_cache s"
  "ref_cache (remove_file p s) = ref_cache s" "meta_cache (remove_file p s) = meta_cache s"
  "usage (next_tick s) = usage s" "usage (write_file p f s) = usage s" "usage (remove_file p s) = usage s"
  by (simp_all add: next_tick_def write_file_def remove_file_def)

lemma ticked_engine:
  fixes s t :: engine
  assumes "ticked s t"
  shows "ref_cache t = ref_cache s" "meta_cache t = meta_cache s" "usage t = usage s"
  using assms by (auto simp: ticked_def)

lemma cache_key_eq:
  assumes "CHR ''/'' \<notin> set b" "CHR ''/'' \<notin> set b'"
  shows "cache_key b p = cache_key b' p' \<longleftrightarrow> b = b' \<and> p = p'"
proof -
  have "b = b'" if "b @ CHR ''/'' # p = b' @ CHR ''/'' # p'"
  proof -
    have "takeWhile (\<lambda>c. c \<noteq> CHR ''/'') (b @ CHR ''/'' # p) = b"
      "takeWhile (\<lambda>c. c \<noteq> CHR ''/'') (b' @ CHR ''/'' # p') = b'"
      using assms by (auto simp: takeWhile_append)
    with that show ?thesis by simp
  qed
  then show ?thesis by (auto simp: cache_key_def)
qed

lemma meta_cache_key_eq:
  assumes "CHR ''/'' \<notin> set b" "CHR ''/'' \<notin> set b'"
  shows "meta_cache_key b k = meta_cache_key b' k' \<longleftrightarrow> b = b' \<and> parse_key b k = parse_key b' k'"
proof -
  have "meta_cache_key b k = meta_cache_key b' k' \<longleftrightarrow>
      b = b' \<and> trim_start_matches (CHR ''/'') k = trim_start_matches (CHR ''/'') k'"
    using cache_key_eq [OF assms] by (simp add: meta_cache_key_def cache_key_def)
  also have "\<dots> \<longleftrightarrow> b = b' \<and> parse_key b k = parse_key b' k'"
    by (metis full_key_parse_key parse_key_trim)
  finally show ?thesis .
qed

lemma last_segment_full_key: "CHR ''/'' \<notin> set (ok_filename k) \<Longrightarrow> last_segment (full_key k) = ok_filename k"
proof -
  assume a: "CHR ''/'' \<notin> set (ok_filename k)"
  show ?thesis
  proof (cases "ok_prefix k = []")
    case True
    with a show ?thesis by (simp add: last_segment_def full_key_def rsplit_once_None [THEN iffD2])
  next
    case False
    then have "rsplit_once (CHR ''/'') (full_key k) = Some (ok_prefix k, ok_filename k)"
      using a by (simp add: rsplit_once_Some full_key_def)
    then show ?thesis by (simp add: last_segment_def)
  qed
qed

end
