(* ===== verification/Store.thy ===== *)
theory Store
  imports Engine
begin

text \<open>
  The store pipeline (\<open>src/src/deltaglider/engine/store.rs\<close>): the buffered store with its choice
  between a delta and a passthrough copy, the baseline reference of a deltaspace with its rollback
  and its healing, the spooled store of large bodies, the passthrough sinks for chunked and relayed
  bodies, and the migration of a legacy reference.  The per-deltaspace lock is held throughout, so
  an operation is one function on the state.
\<close>

record store_context =
  sc_bucket :: string
  sc_key :: object_key
  sc_ds :: string
  sc_data :: bytes
  sc_sha256 :: string
  sc_md5 :: string
  sc_content_type :: "string option"
  sc_user_metadata :: "string \<rightharpoonup> string"
  sc_multipart_etag :: "string option"

section \<open>Idempotent deletes\<close>

definition delete_ignoring_not_found ::
  "(storage_error, unit) result \<Rightarrow> (engine_error, unit) result" where
  "delete_ignoring_not_found r = (case r of
     Inr _ \<Rightarrow> Inr () | Inl (NotFound _) \<Rightarrow> Inr () | Inl e \<Rightarrow> Inl (EStorage e))"

definition delete_delta_idempotent :: "engine_env \<Rightarrow> string \<Rightarrow> string \<Rightarrow> string \<Rightarrow> unit op" where
  "delete_delta_idempotent env bucket ds f s =
     (case delete_delta env bucket ds f s of (r, s) \<Rightarrow> (delete_ignoring_not_found r, s))"

definition delete_passthrough_idempotent :: "engine_env \<Rightarrow> string \<Rightarrow> string \<Rightarrow> string \<Rightarrow> unit op" where
  "delete_passthrough_idempotent env bucket ds f s =
     (case delete_passthrough env bucket ds f s of (r, s) \<Rightarrow> (delete_ignoring_not_found r, s))"

section \<open>Passthrough and delta commits\<close>

definition store_passthrough :: "engine_env \<Rightarrow> store_context \<Rightarrow> store_result op" where
  "store_passthrough env ctx s =
     (let m = (new_passthrough (clock s) (ok_filename (sc_key ctx)) (sc_sha256 ctx) (sc_md5 ctx)
                 (length (sc_data ctx)) (sc_content_type ctx))
                \<lparr>user_metadata := sc_user_metadata ctx, multipart_etag := sc_multipart_etag ctx\<rparr>
      in and_then (map_err EStorage (put_passthrough env (sc_bucket ctx) (sc_ds ctx)
             (ok_filename (sc_key ctx)) (sc_data ctx) m s)) (\<lambda>_ s.
           (Inr (new_store_result m (length (sc_data ctx))), s)))"

definition commit_delta_or_passthrough ::
  "engine_env \<Rightarrow> store_context \<Rightarrow> file_metadata \<Rightarrow> bool \<Rightarrow> bytes \<Rightarrow> rat \<Rightarrow> store_result op" where
  "commit_delta_or_passthrough env ctx ref_meta has_existing_reference delta ratio s =
     (let b = sc_bucket ctx; ds = sc_ds ctx; f = ok_filename (sc_key ctx)
      in if ratio \<ge> max_delta_ratio (bucket_policies env) b
         then and_then (store_passthrough env ctx s) (\<lambda>result s.
           let s = snd (delete_delta_idempotent env b ds f s)
           in if has_existing_reference then (Inr result, s)
              else (Inr result, snd (delete_reference env b ds (cache_invalidate (cache_key b ds) s))))
         else
           let m = (new_delta (clock s) f (sc_sha256 ctx) (sc_md5 ctx) (length (sc_data ctx))
                      ''reference.bin'' (file_sha256 ref_meta) (length delta) (sc_content_type ctx))
                     \<lparr>user_metadata := sc_user_metadata ctx, multipart_etag := sc_multipart_etag ctx\<rparr>
           in and_then (map_err EStorage (put_delta env b ds f delta m s)) (\<lambda>_ s.
                (Inr (new_store_result m (length delta)),
                 snd (delete_passthrough_idempotent env b ds f s))))"

definition encode_and_store ::
  "engine_env \<Rightarrow> store_context \<Rightarrow> file_metadata \<Rightarrow> bool \<Rightarrow> store_result op" where
  "encode_and_store env ctx ref_meta has_existing_reference s =
     and_then (get_reference_cached env (sc_bucket ctx) (sc_ds ctx) s) (\<lambda>(reference, _) s.
     and_then (try_acquire_codec env s) (\<lambda>_ s.
     case encode (codec env) reference (sc_data ctx) of
       Inl e \<Rightarrow> (Inl (ECodec e), s)
     | Inr delta \<Rightarrow>
         commit_delta_or_passthrough env ctx ref_meta has_existing_reference delta
           (compression_ratio (codec env) (length (sc_data ctx)) (length delta)) s))"

section \<open>The baseline reference\<close>

definition set_reference_baseline :: "engine_env \<Rightarrow> store_context \<Rightarrow> file_metadata op" where
  "set_reference_baseline env ctx s =
     (let m = new_reference (clock s) INTERNAL_REFERENCE_NAME (full_key (sc_key ctx)) (sc_sha256 ctx)
                (sc_md5 ctx) (length (sc_data ctx)) (sc_content_type ctx)
      in and_then (map_err EStorage (put_reference env (sc_bucket ctx) (sc_ds ctx) (sc_data ctx) m s)) (\<lambda>_ s.
           (Inr m, cache_put (cache_key (sc_bucket ctx) (sc_ds ctx)) (sc_data ctx) s)))"

definition reference_metadata_is_corrupt :: "file_metadata \<Rightarrow> bool" where
  "reference_metadata_is_corrupt m \<longleftrightarrow> \<not> is_reference m \<or> file_sha256 m = []"

definition hash_spool_file :: "engine_env \<Rightarrow> bytes \<Rightarrow> string \<times> string \<times> nat" where
  "hash_spool_file env d = (sha256_hex env d, md5_hex env d, length d)"

definition heal_reference_if_corrupt ::
  "engine_env \<Rightarrow> string \<Rightarrow> string \<Rightarrow> file_metadata \<Rightarrow> file_metadata op" where
  "heal_reference_if_corrupt env bucket ds ref_meta s =
     (if \<not> reference_metadata_is_corrupt ref_meta then (Inr ref_meta, s)
      else
        and_then (spool_acquire env (max (file_size ref_meta) 1) s) (\<lambda>_ s.
        and_then (map_err EStorage (get_reference_to_file env bucket ds s)) (\<lambda>d s.
        let (sha, m5, sz) = hash_spool_file env d;
            healed = new_reference (clock s) INTERNAL_REFERENCE_NAME INTERNAL_REFERENCE_NAME sha m5 sz
                       (content_type ref_meta)
        in and_then (map_err EStorage (put_reference_from_file env bucket ds d healed s)) (\<lambda>_ s.
             (Inr healed, cache_invalidate (cache_key bucket ds) s)))))"

section \<open>The buffered store\<close>

definition ensure_reference :: "engine_env \<Rightarrow> store_context \<Rightarrow> bool \<Rightarrow> file_metadata op" where
  "ensure_reference env ctx has_existing_reference s =
     (if has_existing_reference
      then and_then (map_err EStorage (get_reference_metadata env (sc_bucket ctx) (sc_ds ctx) s)) (\<lambda>m s.
             heal_reference_if_corrupt env (sc_bucket ctx) (sc_ds ctx) m s)
      else set_reference_baseline env ctx s)"

text \<open>A failed encode takes back the reference that this store has just created.\<close>

definition encode_or_rollback ::
  "engine_env \<Rightarrow> store_context \<Rightarrow> file_metadata \<Rightarrow> bool \<Rightarrow> store_result op" where
  "encode_or_rollback env ctx ref_meta has_existing_reference s =
     (case encode_and_store env ctx ref_meta has_existing_reference s of
        (Inl e, s) \<Rightarrow>
          (Inl e, if has_existing_reference then s
                  else snd (delete_reference env (sc_bucket ctx) (sc_ds ctx)
                              (cache_invalidate (cache_key (sc_bucket ctx) (sc_ds ctx)) s)))
      | (Inr result, s) \<Rightarrow> (Inr result, s))"

definition store_inner ::
  "engine_env \<Rightarrow> string \<Rightarrow> string \<Rightarrow> bytes \<Rightarrow> string option \<Rightarrow> (string \<rightharpoonup> string) \<Rightarrow> string option
     \<Rightarrow> store_result op" where
  "store_inner env bucket key d ct um mpe s =
     (let s = meta_invalidate bucket key s
      in if length d > max_object_size env then (Inl (ETooLarge (length d) (max_object_size env)), s)
         else case validated_key_ingest bucket key of Inl e \<Rightarrow> (Inl e, s) | Inr (k, ds) \<Rightarrow>
         case prior_for_counter env bucket key s of (prior, s) \<Rightarrow>
         let ctx = \<lparr>sc_bucket = bucket, sc_key = k, sc_ds = ds, sc_data = d,
                    sc_sha256 = sha256_hex env d, sc_md5 = md5_hex env d, sc_content_type = ct,
                    sc_user_metadata = um, sc_multipart_etag = mpe\<rparr>
         in if \<not> compression_enabled (bucket_policies env) bucket \<or> \<not> is_delta_eligible (ok_filename k)
            then and_then (store_passthrough env ctx s) (\<lambda>result s.
              let s = snd (delete_delta_idempotent env bucket ds (ok_filename k) s)
              in (Inr (with_accounting result prior 0), meta_insert bucket key (sr_metadata result) s))
            else
              and_then (acquire_reference_lock env bucket ds s) (\<lambda>_ s.
              and_then (map_err EStorage (has_reference env bucket ds s)) (\<lambda>has_existing_reference s.
              and_then (ensure_reference env ctx has_existing_reference s) (\<lambda>ref_meta s.
              and_then (encode_or_rollback env ctx ref_meta has_existing_reference s) (\<lambda>result s.
              (Inr (with_accounting result prior
                      (if has_existing_reference then 0 else file_size ref_meta)),
               meta_insert bucket key (sr_metadata result) s))))))"

definition store ::
  "engine_env \<Rightarrow> string \<Rightarrow> string \<Rightarrow> bytes \<Rightarrow> string option \<Rightarrow> (string \<rightharpoonup> string) \<Rightarrow> store_result op" where
  "store env bucket key d ct um s =
     and_then (store_inner env bucket key d ct um None s) (\<lambda>r s. (Inr r, record_store env bucket r s))"

definition store_with_multipart_etag ::
  "engine_env \<Rightarrow> string \<Rightarrow> string \<Rightarrow> bytes \<Rightarrow> string option \<Rightarrow> (string \<rightharpoonup> string) \<Rightarrow> string
     \<Rightarrow> store_result op" where
  "store_with_multipart_etag env bucket key d ct um mpe s =
     and_then (store_inner env bucket key d ct um (Some mpe) s)
       (\<lambda>r s. (Inr r, record_store env bucket r s))"

section \<open>The passthrough sinks\<close>

definition ensure_within_passthrough_ceiling :: "engine_env \<Rightarrow> nat \<Rightarrow> (engine_error, unit) result" where
  "ensure_within_passthrough_ceiling env total_size =
     (if total_size > max_passthrough_object_size env
      then Inl (ETooLarge total_size (max_passthrough_object_size env)) else Inr ())"

definition store_passthrough_chunked_inner ::
  "engine_env \<Rightarrow> string \<Rightarrow> string \<Rightarrow> bytes list \<Rightarrow> nat \<Rightarrow> string option \<Rightarrow> (string \<rightharpoonup> string)
     \<Rightarrow> string option \<Rightarrow> store_result op" where
  "store_passthrough_chunked_inner env bucket key chunks total_size ct um mpe s =
     (case ensure_within_passthrough_ceiling env total_size of Inl e \<Rightarrow> (Inl e, s) | Inr _ \<Rightarrow>
      let s = meta_invalidate bucket key s
      in case validated_key_ingest bucket key of Inl e \<Rightarrow> (Inl e, s) | Inr (k, ds) \<Rightarrow>
      let f = ok_filename k;
          m = (new_passthrough (clock s) f (sha256_hex env (concat chunks)) (md5_hex env (concat chunks))
                 total_size ct)\<lparr>user_metadata := um, multipart_etag := mpe\<rparr>
      in and_then (map_err EStorage (put_passthrough_chunked env bucket ds f chunks m s)) (\<lambda>_ s.
         let s = snd (delete_delta_idempotent env bucket ds f s)
         in (Inr (new_store_result m total_size), meta_insert bucket key m s)))"

definition store_passthrough_chunked where
  "store_passthrough_chunked env bucket key chunks total_size ct um s =
     and_then (store_passthrough_chunked_inner env bucket key chunks total_size ct um None s)
       (\<lambda>r s. (Inr r, record_store env bucket r s))"

definition store_passthrough_chunked_with_multipart_etag where
  "store_passthrough_chunked_with_multipart_etag env bucket key chunks total_size ct um mpe s =
     and_then (store_passthrough_chunked_inner env bucket key chunks total_size ct um (Some mpe) s)
       (\<lambda>r s. (Inr r, record_store env bucket r s))"

definition store_passthrough_relayed_parts_with_multipart_etag ::
  "engine_env \<Rightarrow> string \<Rightarrow> string \<Rightarrow> bytes list \<Rightarrow> nat \<Rightarrow> string option \<Rightarrow> (string \<rightharpoonup> string)
     \<Rightarrow> string \<Rightarrow> store_result op" where
  "store_passthrough_relayed_parts_with_multipart_etag env bucket key parts total_size ct um mpe s =
     (case ensure_within_passthrough_ceiling env total_size of Inl e \<Rightarrow> (Inl e, s) | Inr _ \<Rightarrow>
      let s = meta_invalidate bucket key s
      in case validated_key_ingest bucket key of Inl e \<Rightarrow> (Inl e, s) | Inr (k, ds) \<Rightarrow>
      if length (concat parts) \<noteq> total_size
      then (Inl (EStorage (Other ''Multipart relay size mismatch'')), s)
      else
        let f = ok_filename k;
            m = (new_passthrough (clock s) f (sha256_hex env (concat parts)) (md5_hex env (concat parts))
                   total_size ct)\<lparr>user_metadata := um, multipart_etag := Some mpe\<rparr>
        in and_then (map_err EStorage (put_passthrough_parts env bucket ds f parts m s)) (\<lambda>_ s.
           let s = snd (delete_delta_idempotent env bucket ds f s);
               r = new_store_result m total_size
           in (Inr r, record_store env bucket r (meta_insert bucket key m s))))"

definition store_passthrough_file_with_multipart_etag ::
  "engine_env \<Rightarrow> string \<Rightarrow> string \<Rightarrow> bytes \<Rightarrow> nat \<Rightarrow> string option \<Rightarrow> (string \<rightharpoonup> string)
     \<Rightarrow> string \<Rightarrow> store_result op" where
  "store_passthrough_file_with_multipart_etag env bucket key body total_size ct um mpe s =
     (case ensure_within_passthrough_ceiling env total_size of Inl e \<Rightarrow> (Inl e, s) | Inr _ \<Rightarrow>
      let s = meta_invalidate bucket key s
      in case validated_key_ingest bucket key of Inl e \<Rightarrow> (Inl e, s) | Inr (k, ds) \<Rightarrow>
      if length body \<noteq> total_size
      then (Inl (EStorage (Other ''Multipart relay size mismatch'')), s)
      else
        let f = ok_filename k;
            m = (new_passthrough (clock s) f (sha256_hex env body) (md5_hex env body) total_size ct)
                  \<lparr>user_metadata := um, multipart_etag := Some mpe\<rparr>
        in and_then (map_err EStorage (put_passthrough_file env bucket ds f body m s)) (\<lambda>_ s.
           let s = snd (delete_delta_idempotent env bucket ds f s);
               r = new_store_result m total_size
           in (Inr r, record_store env bucket r (meta_insert bucket key m s))))"

section \<open>The spooled store\<close>

definition commit_streamed_delta ::
  "engine_env \<Rightarrow> string \<Rightarrow> string \<Rightarrow> object_key \<Rightarrow> bytes \<Rightarrow> nat \<Rightarrow> string \<Rightarrow> string \<Rightarrow> string option
     \<Rightarrow> (string \<rightharpoonup> string) \<Rightarrow> string option \<Rightarrow> store_result op" where
  "commit_streamed_delta env bucket ds k delta sz sha m5 ct um mpe s =
     and_then (map_err EStorage (get_reference_metadata env bucket ds s)) (\<lambda>ref_meta s.
     let f = ok_filename k;
         m = (new_delta (clock s) f sha m5 sz ''reference.bin'' (file_sha256 ref_meta) (length delta) ct)
               \<lparr>user_metadata := um, multipart_etag := mpe\<rparr>
     in and_then (map_err EStorage (put_delta env bucket ds f delta m s)) (\<lambda>_ s.
        (Inr (new_store_result m (length delta)),
         snd (delete_passthrough_idempotent env bucket ds f s))))"

definition store_spooled_delta ::
  "engine_env \<Rightarrow> string \<Rightarrow> string \<Rightarrow> bytes \<Rightarrow> nat \<Rightarrow> string option \<Rightarrow> (string \<rightharpoonup> string)
     \<Rightarrow> string option \<Rightarrow> store_result op" where
  "store_spooled_delta env bucket key body sz ct um mpe s =
     (let s = meta_invalidate bucket key s
      in case validated_key_ingest bucket key of Inl e \<Rightarrow> (Inl e, s) | Inr (k, ds) \<Rightarrow>
      let is_passthrough = (\<not> compression_enabled (bucket_policies env) bucket
                              \<or> \<not> is_delta_eligible (ok_filename k));
          ceil_v = (if is_passthrough then max_passthrough_object_size env else max_object_size env)
      in if sz > ceil_v then (Inl (ETooLarge sz ceil_v), s)
         else case prior_for_counter env bucket key s of (prior, s) \<Rightarrow>
         case hash_spool_file env body of (sha, m5, observed) \<Rightarrow>
         if observed \<noteq> sz then (Inl (EStorage (Other ''Spooled object size mismatch'')), s)
         else
           let etag_v = (case mpe of Some e \<Rightarrow> if e = [] then quoted m5 else e | None \<Rightarrow> quoted m5);
               as_passthrough = (\<lambda>s.
                 and_then (store_passthrough_file_with_multipart_etag env bucket key body sz ct um etag_v s)
                   (\<lambda>result s. (Inr (with_accounting result prior 0),
                                meta_insert bucket key (sr_metadata result) s)))
           in if is_passthrough then as_passthrough s
              else
                and_then (acquire_reference_lock env bucket ds s) (\<lambda>_ s.
                and_then (map_err EStorage (has_reference env bucket ds s)) (\<lambda>has_existing_reference s.
                and_then
                  (if has_existing_reference
                   then and_then (map_err EStorage (get_reference_metadata env bucket ds s)) (\<lambda>m s.
                          and_then (heal_reference_if_corrupt env bucket ds m s) (\<lambda>m s.
                          (Inr (file_size m), s)))
                   else
                     let m = new_reference (clock s) INTERNAL_REFERENCE_NAME (full_key k) sha m5 sz ct
                     in and_then (map_err EStorage (put_reference_from_file env bucket ds body m s)) (\<lambda>_ s.
                        (Inr sz, cache_invalidate (cache_key bucket ds) s))) (\<lambda>ref_size s.
                and_then (spool_acquire_pair env ref_size sz s) (\<lambda>_ s.
                and_then (map_err EStorage (get_reference_to_file env bucket ds s)) (\<lambda>reference s.
                and_then (try_acquire_codec env s) (\<lambda>_ s.
                case encode_from_reader (codec env) reference body
                       (delta_cap (codec env) sz (max_delta_ratio (bucket_policies env) bucket)) of
                  Inl e \<Rightarrow> (Inl (ECodec e), s)
                | Inr None \<Rightarrow> as_passthrough s
                | Inr (Some delta) \<Rightarrow>
                    and_then (commit_streamed_delta env bucket ds k delta sz sha m5 ct um mpe s) (\<lambda>result s.
                    (Inr (with_accounting result prior 0),
                     meta_insert bucket key (sr_metadata result) s)))))))))"

section \<open>Migration of a legacy reference\<close>

definition acquire_codec :: "engine_env \<Rightarrow> unit op" where
  "acquire_codec env s = (case sched env (tick s) of
     None \<Rightarrow> (Inr (), next_tick s)
   | Some _ \<Rightarrow> (Inl (EStorage (Other ''codec semaphore closed'')), next_tick s))"

definition migrate_legacy_reference_object_if_needed ::
  "engine_env \<Rightarrow> string \<Rightarrow> string \<Rightarrow> string \<Rightarrow> bool op" where
  "migrate_legacy_reference_object_if_needed env bucket ds f s =
     and_then (map_err EStorage (has_reference env bucket ds s)) (\<lambda>present s.
     if \<not> present then (Inr False, s)
     else
       and_then (map_err EStorage (get_reference_metadata env bucket ds s)) (\<lambda>ref_meta s.
       if original_name ref_meta = INTERNAL_REFERENCE_NAME \<or> original_name ref_meta \<noteq> f
       then (Inr False, s)
       else
         and_then (get_reference_cached env bucket ds s) (\<lambda>(reference, _) s.
         and_then (acquire_codec env s) (\<lambda>_ s.
         case encode (codec env) reference reference of Inl e \<Rightarrow> (Inl (ECodec e), s) | Inr delta \<Rightarrow>
         let m = new_delta (clock s) f (file_sha256 ref_meta) (md5 ref_meta) (file_size ref_meta)
                   ''reference.bin'' (file_sha256 ref_meta) (length delta) (content_type ref_meta)
         in and_then (map_err EStorage (put_delta env bucket ds f delta m s)) (\<lambda>_ s.
            and_then (delete_passthrough_idempotent env bucket ds f s) (\<lambda>_ s.
            and_then (map_err EStorage (put_reference_metadata env bucket ds
                        (ref_meta\<lparr>original_name := INTERNAL_REFERENCE_NAME\<rparr>) s)) (\<lambda>_ s.
            (Inr True, cache_invalidate (cache_key bucket ds) s))))))))"

end
