(* ===== verification/Retrieve.thy ===== *)
theory Retrieve
  imports Engine
begin

text \<open>
  The retrieve pipeline (\<open>src/src/deltaglider/engine/retrieve.rs\<close>): reconstruction of a delta in
  memory or through a spool file, streaming of passthrough objects, ranges, the retry on a stale
  metadata cache entry, and the generation pin of multi-part copies.  A stream is the list of bytes
  it delivers.
\<close>

datatype retrieve_response =
    Streamed (resp_data: bytes) (resp_metadata: file_metadata) (resp_cache_hit: "bool option")
  | Buffered (resp_data: bytes) (resp_metadata: file_metadata) (resp_cache_hit: "bool option")

section \<open>Reconstruction\<close>

definition reference_or_fallback ::
  "engine_env \<Rightarrow> string \<Rightarrow> string \<Rightarrow> (engine_error, bytes \<times> bool) result \<Rightarrow> (bytes \<times> bool) op" where
  "reference_or_fallback env bucket ds ref_result s = (case ref_result of
     Inr r \<Rightarrow> (Inr r, s)
   | Inl (MissingReference _) \<Rightarrow>
       (case get_passthrough env bucket ds ''reference.bin'' s of
          (Inr d, s) \<Rightarrow> (Inr (d, False), cache_put (cache_key bucket ds) d s)
        | (Inl _, s) \<Rightarrow>
            (Inl (MissingReference (ds @ '' (reference.bin not found via any method)'')), s))
   | Inl e \<Rightarrow> (Inl e, s))"

definition fetch_buffered ::
  "engine_env \<Rightarrow> string \<Rightarrow> string \<Rightarrow> object_key \<Rightarrow> file_metadata \<Rightarrow> (bytes \<times> bool option) op" where
  "fetch_buffered env bucket ds k m s = (case storage_info m of
     Reference _ \<Rightarrow>
       and_then (map_err EStorage (get_reference env bucket ds s)) (\<lambda>d s. (Inr (d, None), s))
   | Delta _ _ _ _ \<Rightarrow>
       (case get_reference_cached env bucket ds s of (ref_result, s) \<Rightarrow>
        case get_delta env bucket ds (ok_filename k) s of (delta_result, s) \<Rightarrow>
        and_then (reference_or_fallback env bucket ds ref_result s) (\<lambda>(reference, cache_hit) s.
        case delta_result of Inl e \<Rightarrow> (Inl (EStorage e), s) | Inr delta \<Rightarrow>
        if file_size m > max_object_size env
        then (Inl (ETooLarge (file_size m) (max_object_size env)), s)
        else and_then (acquire_codec_timeout env s) (\<lambda>_ s.
          case decode (codec env) reference delta of
            Inl e \<Rightarrow> (Inl (ECodec e), s)
          | Inr d \<Rightarrow> (Inr (d, Some cache_hit), s))))
   | Passthrough \<Rightarrow>
       and_then (map_err EStorage (get_passthrough env bucket ds (ok_filename k) s))
         (\<lambda>d s. (Inr (d, None), s)))"

definition retrieve_buffered ::
  "engine_env \<Rightarrow> string \<Rightarrow> string \<Rightarrow> object_key \<Rightarrow> file_metadata \<Rightarrow> (bytes \<times> bool option) op" where
  "retrieve_buffered env bucket ds k m s =
     and_then (fetch_buffered env bucket ds k m s) (\<lambda>(d, cache_hit) s.
     if sha256_hex env d \<noteq> file_sha256 m
     then (Inl (ChecksumMismatch (full_key k) (file_sha256 m) (sha256_hex env d)),
           cache_invalidate (cache_key bucket ds) s)
     else (Inr (d, cache_hit), s))"

definition reconstruct_delta_to_spool ::
  "engine_env \<Rightarrow> string \<Rightarrow> string \<Rightarrow> object_key \<Rightarrow> file_metadata \<Rightarrow> bytes op" where
  "reconstruct_delta_to_spool env bucket ds k m s =
     (case get_reference_metadata env bucket ds s of (mr, s) \<Rightarrow>
      let ref_size = (case mr of Inr rm \<Rightarrow> file_size rm | Inl _ \<Rightarrow> file_size m)
      in and_then (spool_acquire_pair env ref_size (file_size m) s) (\<lambda>_ s.
         and_then (map_err EStorage (get_reference_to_file env bucket ds s)) (\<lambda>reference s.
         and_then (map_err EStorage (get_delta env bucket ds (ok_filename k) s)) (\<lambda>delta s.
         and_then (acquire_codec_timeout env s) (\<lambda>_ s.
         case decode_to_writer (codec env) reference delta (file_size m) of
           Inl e \<Rightarrow> (Inl (ECodec e), s)
         | Inr out \<Rightarrow>
             if sha256_hex env out \<noteq> file_sha256 m
             then (Inl (ChecksumMismatch (full_key k) (file_sha256 m) (sha256_hex env out)),
                   cache_invalidate (cache_key bucket ds) s)
             else (Inr out, s))))))"

definition retrieve_delta_spooled ::
  "engine_env \<Rightarrow> string \<Rightarrow> string \<Rightarrow> object_key \<Rightarrow> file_metadata \<Rightarrow> retrieve_response op" where
  "retrieve_delta_spooled env bucket ds k m s =
     and_then (reconstruct_delta_to_spool env bucket ds k m s) (\<lambda>out s. (Inr (Streamed out m None), s))"

definition retrieve_delta_range_spooled ::
  "engine_env \<Rightarrow> string \<Rightarrow> string \<Rightarrow> object_key \<Rightarrow> file_metadata \<Rightarrow> nat \<Rightarrow> nat \<Rightarrow> (bytes \<times> nat) op" where
  "retrieve_delta_range_spooled env bucket ds k m start end_incl s =
     and_then (reconstruct_delta_to_spool env bucket ds k m s) (\<lambda>out s.
     let sz = file_size m;
         start = min start sz;
         end_excl = min (sat_add end_incl 1) sz;
         content_length = end_excl - start
     in (Inr (take content_length (drop start out), content_length), s))"

section \<open>Whole objects\<close>

definition retrieve_with_metadata ::
  "engine_env \<Rightarrow> string \<Rightarrow> string \<Rightarrow> object_key \<Rightarrow> file_metadata \<Rightarrow> retrieve_response op" where
  "retrieve_with_metadata env bucket ds k m s =
     (if storage_info m = Passthrough
      then and_then (map_err EStorage (get_passthrough_stream env bucket ds (original_name m) s))
             (\<lambda>d s. (Inr (Streamed d m None), s))
      else if is_delta m \<and> file_size m > spool_threshold env
      then retrieve_delta_spooled env bucket ds k m s
      else and_then (retrieve_buffered env bucket ds k m s)
             (\<lambda>(d, cache_hit) s. (Inr (Buffered d m cache_hit), s)))"

definition try_unmanaged_passthrough ::
  "engine_env \<Rightarrow> string \<Rightarrow> string \<Rightarrow> object_key \<Rightarrow> retrieve_response op" where
  "try_unmanaged_passthrough env bucket ds k s =
     (case get_passthrough_metadata env bucket ds (ok_filename k) s of (mr, s) \<Rightarrow>
      and_then
        ((case mr of
            Inr m \<Rightarrow> Inr m
          | Inl (NotFound _) \<Rightarrow> Inr (new_passthrough (clock s) (ok_filename k) [] [] 0 None)
          | Inl e \<Rightarrow> Inl (EStorage e)), s) (\<lambda>m s.
      let m = (if ends_with (ok_filename k) ''.delta'' \<or> ok_filename k = ''reference.bin''
               then m\<lparr>user_metadata := (user_metadata m)(''dg-warning'' \<mapsto>
                      ''Missing DG metadata: delta features disabled.'')\<rparr>
               else m)
      in map_err (\<lambda>e. case e of NotFound _ \<Rightarrow> ENotFound (full_key k) | _ \<Rightarrow> EStorage e)
           (case get_passthrough_stream env bucket ds (ok_filename k) s of
              (Inr d, s) \<Rightarrow> (Inr (Streamed d m None), s)
            | (Inl e, s) \<Rightarrow> (Inl e, s))))"

definition is_not_found :: "engine_error \<Rightarrow> bool" where
  "is_not_found e = (case e of ENotFound _ \<Rightarrow> True | EStorage (NotFound _) \<Rightarrow> True | _ \<Rightarrow> False)"

definition retrieve_stream :: "engine_env \<Rightarrow> string \<Rightarrow> string \<Rightarrow> retrieve_response op" where
  "retrieve_stream env bucket key s =
     (case validated_key bucket key of Inl e \<Rightarrow> (Inl e, s) | Inr (k, ds) \<Rightarrow>
      and_then
        (case meta_get bucket key s of
           Some cached \<Rightarrow> (Inr (Some cached, True), s)
         | None \<Rightarrow> and_then (resolve_metadata_with_migration env bucket ds k s) (\<lambda>r s. (Inr (r, False), s)))
        (\<lambda>(metadata, from_cache) s.
         case metadata of
           None \<Rightarrow> try_unmanaged_passthrough env bucket ds k s
         | Some m \<Rightarrow>
             (case retrieve_with_metadata env bucket ds k m (meta_insert bucket key m s) of
                (Inr response, s) \<Rightarrow> (Inr response, s)
              | (Inl e, s) \<Rightarrow>
                  if is_not_found e \<and> from_cache
                  then and_then (resolve_metadata_with_migration env bucket ds k (meta_invalidate bucket key s))
                         (\<lambda>fresh s. case fresh of
                            Some m \<Rightarrow> retrieve_with_metadata env bucket ds k m (meta_insert bucket key m s)
                          | None \<Rightarrow> try_unmanaged_passthrough env bucket ds k s)
                  else (Inl e, s))))"

definition retrieve :: "engine_env \<Rightarrow> string \<Rightarrow> string \<Rightarrow> (bytes \<times> file_metadata) op" where
  "retrieve env bucket key s =
     and_then (retrieve_stream env bucket key s) (\<lambda>r s. (Inr (resp_data r, resp_metadata r), s))"

section \<open>Ranges and the generation pin\<close>

definition same_generation :: "file_metadata \<Rightarrow> file_metadata \<Rightarrow> bool" where
  "same_generation e a =
     (if file_size e \<noteq> file_size a then False
      else if file_sha256 e \<noteq> [] \<and> file_sha256 a \<noteq> [] then file_sha256 e = file_sha256 a
      else if md5 e \<noteq> [] \<and> md5 a \<noteq> [] then md5 e = md5 a
      else (case (multipart_etag e, multipart_etag a) of
              (Some x, Some y) \<Rightarrow> x \<noteq> [] \<and> y \<noteq> [] \<and> x = y
            | _ \<Rightarrow> False))"

definition range_passthrough ::
  "engine_env \<Rightarrow> string \<Rightarrow> string \<Rightarrow> file_metadata \<Rightarrow> nat \<Rightarrow> nat
     \<Rightarrow> (bytes \<times> nat \<times> file_metadata) option op" where
  "range_passthrough env bucket ds m start end_incl s =
     and_then (map_err EStorage
       (get_passthrough_stream_range env bucket ds (original_name m) start end_incl s)) (\<lambda>(d, len) s.
     (Inr (if len = 0 then None else Some (d, len, m)), s))"

definition retrieve_stream_range ::
  "engine_env \<Rightarrow> string \<Rightarrow> string \<Rightarrow> nat \<Rightarrow> nat \<Rightarrow> file_metadata option
     \<Rightarrow> (bytes \<times> nat \<times> file_metadata) option op" where
  "retrieve_stream_range env bucket key start end_incl expected_source s =
     (case validated_key bucket key of Inl e \<Rightarrow> (Inl e, s) | Inr (k, ds) \<Rightarrow>
      and_then
        (case (expected_source, meta_get bucket key s) of
           (None, Some cached) \<Rightarrow> (Inr (Some cached, True), s)
         | _ \<Rightarrow> and_then (resolve_metadata_with_migration env bucket ds k s) (\<lambda>r s. (Inr (r, False), s)))
        (\<lambda>(metadata, from_cache) s.
         if (case (expected_source, metadata) of
               (Some e, Some a) \<Rightarrow> \<not> same_generation e a | _ \<Rightarrow> False)
         then (Inl (EStorage (Other ''source changed during copy'')), s)
         else case metadata of None \<Rightarrow> (Inr None, s) | Some m \<Rightarrow>
         let s = meta_insert bucket key m s
         in if storage_info m = Passthrough
            then (case range_passthrough env bucket ds m start end_incl s of
                    (Inl (EStorage (NotFound msg)), s) \<Rightarrow>
                      if \<not> from_cache then (Inl (EStorage (NotFound msg)), s)
                      else and_then (resolve_metadata_with_migration env bucket ds k
                                       (meta_invalidate bucket key s)) (\<lambda>fresh s.
                        case fresh of None \<Rightarrow> (Inr None, s) | Some fm \<Rightarrow>
                        let s = meta_insert bucket key fm s
                        in if storage_info fm = Passthrough
                           then range_passthrough env bucket ds fm start end_incl s
                           else (Inr None, s))
                  | other \<Rightarrow> other)
            else if is_delta m \<and> file_size m > spool_threshold env
            then and_then (retrieve_delta_range_spooled env bucket ds k m start end_incl s)
                   (\<lambda>(d, len) s. (Inr (Some (d, len, m)), s))
            else (Inr None, s)))"

end
