(* ===== verification/Delete.thy ===== *)
theory Delete
  imports Engine
begin

text \<open>
  Deletion of objects and reclamation of references (\<open>delete\<close>, \<open>delete_in_sweep\<close> and
  \<open>reclaim_empty_deltaspace\<close> of \<open>src/src/deltaglider/engine/mod.rs\<close>).
\<close>

definition delete_sibling_variant_best_effort ::
  "engine_env \<Rightarrow> string \<Rightarrow> string \<Rightarrow> string \<Rightarrow> bool \<Rightarrow> engine \<Rightarrow> engine" where
  "delete_sibling_variant_best_effort env bucket ds f is_delta_variant s =
     (if is_delta_variant then snd (delete_delta env bucket ds f s)
      else snd (delete_passthrough env bucket ds f s))"

definition has_objects :: "file_metadata list \<Rightarrow> bool" where
  "has_objects ms = list_ex (\<lambda>m. \<not> is_reference m) ms"

definition reference_bytes_of :: "file_metadata list \<Rightarrow> nat" where
  "reference_bytes_of ms = (case find is_reference ms of Some m \<Rightarrow> file_size m | None \<Rightarrow> 0)"

text \<open>The removal of a reference that no object needs any more, with the bytes it frees.\<close>

definition reclaim_reference_bytes ::
  "engine_env \<Rightarrow> string \<Rightarrow> string \<Rightarrow> file_metadata list \<Rightarrow> nat op" where
  "reclaim_reference_bytes env bucket ds remaining s =
     (if has_objects remaining then (Inr 0, s)
      else
        and_then (map_err EStorage (has_reference env bucket ds s)) (\<lambda>present s.
        if \<not> present then (Inr 0, s)
        else and_then (map_err EStorage (delete_reference env bucket ds s)) (\<lambda>_ s.
             (Inr (reference_bytes_of remaining), cache_invalidate (cache_key bucket ds) s))))"

definition delete_inner :: "engine_env \<Rightarrow> string \<Rightarrow> string \<Rightarrow> bool \<Rightarrow> file_metadata op" where
  "delete_inner env bucket key reclaim_reference s =
     (case validated_key bucket key of Inl e \<Rightarrow> (Inl e, s) | Inr (k, ds) \<Rightarrow>
      and_then (resolve_metadata env bucket ds k s) (\<lambda>r s.
      case r of None \<Rightarrow> (Inl (ENotFound (full_key k)), s) | Some m \<Rightarrow>
      and_then
        (case storage_info m of
           Passthrough \<Rightarrow>
             and_then (map_err EStorage (delete_passthrough env bucket ds (ok_filename k) s)) (\<lambda>_ s.
             (Inr (), delete_sibling_variant_best_effort env bucket ds (ok_filename k) True s))
         | Delta _ _ _ _ \<Rightarrow>
             and_then (map_err EStorage (delete_delta env bucket ds (ok_filename k) s)) (\<lambda>_ s.
             (Inr (), delete_sibling_variant_best_effort env bucket ds (ok_filename k) False s))
         | Reference _ \<Rightarrow> (Inl (InvalidArgument ReferenceIsInternal), s)) (\<lambda>_ s.
      and_then
        (if reclaim_reference
         then and_then (map_err EStorage (scan_deltaspace env bucket ds s)) (\<lambda>remaining s.
                reclaim_reference_bytes env bucket ds remaining s)
         else (Inr 0, s)) (\<lambda>reclaimed s.
      (Inr m, record_delete env bucket m reclaimed (meta_invalidate bucket key s))))))"

definition delete_object :: "engine_env \<Rightarrow> string \<Rightarrow> string \<Rightarrow> file_metadata op" where
  "delete_object env bucket key = delete_inner env bucket key True"

definition delete_in_sweep :: "engine_env \<Rightarrow> string \<Rightarrow> string \<Rightarrow> file_metadata op" where
  "delete_in_sweep env bucket key = delete_inner env bucket key False"

definition reclaim_empty_deltaspace :: "engine_env \<Rightarrow> string \<Rightarrow> string \<Rightarrow> unit op" where
  "reclaim_empty_deltaspace env bucket ds s =
     and_then (map_err EStorage (scan_deltaspace env bucket ds s)) (\<lambda>remaining s.
     if has_objects remaining then (Inr (), s)
     else
       and_then (map_err EStorage (has_reference env bucket ds s)) (\<lambda>present s.
       if \<not> present then (Inr (), s)
       else
         and_then (map_err EStorage (delete_reference env bucket ds s)) (\<lambda>_ s.
         let s = cache_invalidate (cache_key bucket ds) s
         in (Inr (), if usage_attached env
                     then s\<lparr>usage := apply_net bucket None None
                              (- as_i64 (reference_bytes_of remaining)) (usage s)\<rparr>
                     else s))))"

end
