(* ===== verification/Consistency.thy ===== *)
theory Consistency
  imports Store Retrieve Delete
begin

text \<open>
  What a consistent engine state is, and that operations on one key keep it.  A disk is consistent
  when every reference carries intact metadata and its own checksum, every delta has its reference
  and reconstructs from it to bytes with the recorded checksum and length, and every passthrough
  file is recorded under its own name.  The reference cache may hold an entry only for the bytes that
  are on disk, and the metadata cache only what a fresh resolution would give.

  An operation on one key touches at most three files: the key's delta, its passthrough copy and the
  deltaspace's reference.  \<open>confined\<close> describes the states such an operation may pass through.
\<close>

section \<open>What is stored for a key\<close>

type_synonym disk = "fpath \<rightharpoonup> data_file"

definition resolve_view :: "engine_env \<Rightarrow> disk \<Rightarrow> string \<Rightarrow> object_key \<Rightarrow> file_metadata option" where
  "resolve_view env D b k =
     newest (map_option (file_meta env (ok_filename k)) (D (delta_path b (ok_prefix k) (ok_filename k))))
            (map_option (file_meta env (ok_filename k)) (D (passthrough_path b (ok_prefix k) (ok_filename k))))"

definition content_of :: "engine_env \<Rightarrow> disk \<Rightarrow> string \<Rightarrow> object_key \<Rightarrow> file_metadata \<Rightarrow> bytes option" where
  "content_of env D b k m = (case storage_info m of
     Passthrough \<Rightarrow> map_option fdata (D (passthrough_path b (ok_prefix k) (original_name m)))
   | Reference _ \<Rightarrow> map_option fdata (D (reference_path b (ok_prefix k)))
   | Delta _ _ _ _ \<Rightarrow>
       (case (D (reference_path b (ok_prefix k)), D (delta_path b (ok_prefix k) (ok_filename k))) of
          (Some r, Some f) \<Rightarrow>
            (case xdelta3 (codec env) Decode (fdata r) (fdata f) of (d, ok) \<Rightarrow> if ok then Some d else None)
        | _ \<Rightarrow> None))"

definition object_view ::
  "engine_env \<Rightarrow> disk \<Rightarrow> string \<Rightarrow> object_key \<Rightarrow> (bytes \<times> file_metadata) option" where
  "object_view env D b k = (case resolve_view env D b k of
     None \<Rightarrow> None | Some m \<Rightarrow> map_option (\<lambda>d. (d, m)) (content_of env D b k m))"

section \<open>Consistency\<close>

definition reference_ok :: "engine_env \<Rightarrow> disk \<Rightarrow> string \<Rightarrow> string \<Rightarrow> bool" where
  "reference_ok env D b p \<longleftrightarrow> (\<forall>f. D (reference_path b p) = Some f \<longrightarrow>
     (\<exists>m. fxattr f = Some m \<and> \<not> reference_metadata_is_corrupt m
        \<and> file_sha256 m = sha256_hex env (fdata f) \<and> length (fdata f) \<le> max_object_size env))"

definition delta_ok :: "engine_env \<Rightarrow> disk \<Rightarrow> string \<Rightarrow> string \<Rightarrow> string \<Rightarrow> bool" where
  "delta_ok env D b p n \<longleftrightarrow> (\<forall>f. D (delta_path b p n) = Some f \<longrightarrow>
     (\<exists>m r d. fxattr f = Some m \<and> is_delta m \<and> D (reference_path b p) = Some r
        \<and> xdelta3 (codec env) Decode (fdata r) (fdata f) = (d, True)
        \<and> sha256_hex env d = file_sha256 m \<and> length d = file_size m \<and> file_size m \<le> max_object_size env))"

definition passthrough_ok :: "engine_env \<Rightarrow> disk \<Rightarrow> string \<Rightarrow> string \<Rightarrow> string \<Rightarrow> bool" where
  "passthrough_ok env D b p n \<longleftrightarrow> (\<forall>f. plain_name n \<longrightarrow> D (passthrough_path b p n) = Some f \<longrightarrow>
     storage_info (file_meta env n f) = Passthrough \<and> original_name (file_meta env n f) = n)"

definition disk_ok :: "engine_env \<Rightarrow> disk \<Rightarrow> bool" where
  "disk_ok env D \<longleftrightarrow>
     (\<forall>b p. reference_ok env D b p) \<and> (\<forall>b p n. delta_ok env D b p n) \<and> (\<forall>b p n. passthrough_ok env D b p n)"

definition cache_at :: "engine \<Rightarrow> string \<Rightarrow> string \<Rightarrow> bool" where
  "cache_at s b p \<longleftrightarrow> (\<forall>f d. lookup_file s (reference_path b p) = Some f \<longrightarrow>
     ref_cache s (cache_key b p) = Some d \<longrightarrow> fdata f = d)"

definition meta_at :: "engine_env \<Rightarrow> engine \<Rightarrow> string \<Rightarrow> string \<Rightarrow> bool" where
  "meta_at env s b key \<longleftrightarrow> (\<forall>m. meta_cache s (meta_cache_key b key) = Some m \<longrightarrow>
     validate_object (parse_key b key) = Inr () \<and>
     resolve_view env (lookup_file s) b (parse_key b key) = Some m)"

definition slashless :: "string \<Rightarrow> bool" where
  "slashless b \<longleftrightarrow> CHR ''/'' \<notin> set b"

definition disk_cache_ok :: "engine_env \<Rightarrow> engine \<Rightarrow> bool" where
  "disk_cache_ok env s \<longleftrightarrow> disk_ok env (lookup_file s) \<and> (\<forall>b p. slashless b \<longrightarrow> cache_at s b p)"

definition consistent :: "engine_env \<Rightarrow> engine \<Rightarrow> bool" where
  "consistent env s \<longleftrightarrow> disk_cache_ok env s \<and> (\<forall>b key. slashless b \<longrightarrow> meta_at env s b key)"

text \<open>Everything on disk is older than the clock.\<close>

definition fresh_clock :: "engine_env \<Rightarrow> engine \<Rightarrow> bool" where
  "fresh_clock env s \<longleftrightarrow> (\<forall>path f n. lookup_file s path = Some f \<longrightarrow> created_at (file_meta env n f) < clock s)"

text \<open>The environment as the constructor of the engine sets it up, with a hash that is never empty.\<close>

definition env_ok :: "engine_env \<Rightarrow> bool" where
  "env_ok env \<longleftrightarrow> max_size (codec env) = max_object_size env \<and> (\<forall>d. sha256_hex env d \<noteq> [])
     \<and> xdelta3_lossless (codec env)"

lemma disk_okD:
  assumes "disk_ok env D"
  shows "reference_ok env D b p" "delta_ok env D b p n" "passthrough_ok env D b p n"
  using assms by (auto simp: disk_ok_def)

lemma delta_needs_reference: "delta_ok env D b p n \<Longrightarrow> D (reference_path b p) = None \<Longrightarrow> D (delta_path b p n) = None"
  by (cases "D (delta_path b p n)") (auto simp: delta_ok_def)

section \<open>States on the way of an operation on one key\<close>

definition confined :: "engine_env \<Rightarrow> disk \<Rightarrow> string \<Rightarrow> string \<Rightarrow> string \<Rightarrow> disk \<Rightarrow> bool" where
  "confined env D0 b p n D \<longleftrightarrow>
     (\<forall>path. path \<notin> {reference_path b p, delta_path b p n, passthrough_path b p n} \<longrightarrow> D path = D0 path)
   \<and> (D (reference_path b p) = D0 (reference_path b p) \<or> (\<forall>m. m \<noteq> n \<longrightarrow> D0 (delta_path b p m) = None))
   \<and> reference_ok env D b p \<and> delta_ok env D b p n \<and> passthrough_ok env D b p n"

lemma confined_other:
  assumes "confined env D0 b p n D" "path \<noteq> reference_path b p" "path \<noteq> delta_path b p n"
    "path \<noteq> passthrough_path b p n"
  shows "D path = D0 path"
  using assms unfolding confined_def by blast

lemma confined_ref:
  assumes "confined env D0 b p n D"
  shows "D (reference_path b p) = D0 (reference_path b p) \<or> (\<forall>m. m \<noteq> n \<longrightarrow> D0 (delta_path b p m) = None)"
  using assms unfolding confined_def by blast

lemma confined_ok:
  assumes "confined env D0 b p n D"
  shows "reference_ok env D b p" "delta_ok env D b p n" "passthrough_ok env D b p n"
  using assms unfolding confined_def by blast+

lemma confined_refl: "disk_ok env D \<Longrightarrow> confined env D b p n D"
  by (auto simp: confined_def disk_okD)

lemma confined_disk_ok:
  assumes D0: "disk_ok env D0" and w: "confined env D0 b p n D" and n: "plain_name n"
  shows "disk_ok env D"
proof -
  note same = confined_other [OF w]
  have ref: "reference_ok env D b' p'" for b' p'
  proof (cases "b' = b \<and> p' = p")
    case False
    with n have "D (reference_path b' p') = D0 (reference_path b' p')" by (intro same) auto
    then show ?thesis using disk_okD(1) [OF D0, of b' p'] by (simp add: reference_ok_def)
  qed (use confined_ok [OF w] in auto)
  have delta: "delta_ok env D b' p' m" for b' p' m
  proof (cases "b' = b \<and> p' = p \<and> m = n")
    case False
    with n have d: "D (delta_path b' p' m) = D0 (delta_path b' p' m)" by (intro same) auto
    show ?thesis
    proof (cases "D0 (delta_path b' p' m)")
      case (Some f)
      then have "D (reference_path b' p') = D0 (reference_path b' p')"
        using confined_ref [OF w] False n by (cases "b' = b \<and> p' = p") (auto intro!: same)
      with d show ?thesis using disk_okD(2) [OF D0, of b' p' m] by (simp add: delta_ok_def)
    qed (simp add: delta_ok_def d)
  qed (use confined_ok [OF w] in auto)
  have pass: "passthrough_ok env D b' p' m" for b' p' m
  proof (cases "(b' = b \<and> p' = p \<and> m = n) \<or> \<not> plain_name m")
    case False
    with n have "D (passthrough_path b' p' m) = D0 (passthrough_path b' p' m)" by (intro same) auto
    then show ?thesis using disk_okD(3) [OF D0, of b' p' m] by (simp add: passthrough_ok_def)
  qed (use confined_ok [OF w] in \<open>auto simp: passthrough_ok_def\<close>)
  show ?thesis using ref delta pass by (simp add: disk_ok_def)
qed

text \<open>Other objects, seen from outside, do not change.\<close>

lemma confined_object_view:
  assumes D0: "disk_ok env D0" and w: "confined env D0 b p n D" and n: "plain_name n"
    and k: "plain_name (ok_filename k)" and other: "(b', ok_prefix k, ok_filename k) \<noteq> (b, p, n)"
  shows "resolve_view env D b' k = resolve_view env D0 b' k"
    and "object_view env D b' k = object_view env D0 b' k"
proof -
  let ?d = "delta_path b' (ok_prefix k) (ok_filename k)"
  let ?p = "passthrough_path b' (ok_prefix k) (ok_filename k)"
  have d: "D ?d = D0 ?d" and p: "D ?p = D0 ?p"
    using n k other by (auto intro!: confined_other [OF w])
  then show r: "resolve_view env D b' k = resolve_view env D0 b' k" by (simp add: resolve_view_def)
  have "content_of env D b' k m = content_of env D0 b' k m" if m: "resolve_view env D0 b' k = Some m" for m
  proof -
    from m consider f where "D0 ?d = Some f" "m = file_meta env (ok_filename k) f"
      | f where "D0 ?p = Some f" "m = file_meta env (ok_filename k) f"
      by (auto simp: resolve_view_def newest_def split: option.splits if_splits)
    then show ?thesis
    proof cases
      case (1 f)
      then have "is_delta m" using disk_okD(2) [OF D0] by (fastforce simp: delta_ok_def file_meta_def)
      then have "\<exists>rp rs z c. storage_info m = Delta rp rs z c"
        by (auto simp: is_delta_def split: storage_info.splits)
      moreover have "D (reference_path b' (ok_prefix k)) = D0 (reference_path b' (ok_prefix k))"
        using confined_ref [OF w] 1 other n
        by (cases "b' = b \<and> ok_prefix k = p") (auto intro!: confined_other [OF w])
      ultimately show ?thesis using d by (auto simp: content_of_def split: option.split)
    next
      case (2 f)
      then have "storage_info m = Passthrough" "original_name m = ok_filename k"
        using disk_okD(3) [OF D0] k by (auto simp: passthrough_ok_def)
      then show ?thesis using p by (simp add: content_of_def)
    qed
  qed
  with r show "object_view env D b' k = object_view env D0 b' k"
    by (auto simp: object_view_def split: option.splits)
qed

text \<open>The updates an operation performs.\<close>

lemma confinedI:
  assumes "confined env D0 b p n D"
    and "\<And>path. path \<noteq> reference_path b p \<Longrightarrow> path \<noteq> delta_path b p n \<Longrightarrow> path \<noteq> passthrough_path b p n
           \<Longrightarrow> D' path = D path"
    and "D' (reference_path b p) = D (reference_path b p) \<or> (\<forall>m. m \<noteq> n \<longrightarrow> D0 (delta_path b p m) = None)"
    and "reference_ok env D' b p" "delta_ok env D' b p n" "passthrough_ok env D' b p n"
  shows "confined env D0 b p n D'"
proof -
  have "\<forall>path. path \<notin> {reference_path b p, delta_path b p n, passthrough_path b p n} \<longrightarrow> D' path = D0 path"
  proof (intro allI impI)
    fix path assume "path \<notin> {reference_path b p, delta_path b p n, passthrough_path b p n}"
    then have "path \<noteq> reference_path b p" "path \<noteq> delta_path b p n" "path \<noteq> passthrough_path b p n" by simp_all
    then show "D' path = D0 path"
      using assms(2) [of path] confined_other [OF assms(1), of path] by simp
  qed
  moreover have "D' (reference_path b p) = D0 (reference_path b p) \<or> (\<forall>m. m \<noteq> n \<longrightarrow> D0 (delta_path b p m) = None)"
    using assms(3) confined_ref [OF assms(1)] by argo
  ultimately show ?thesis unfolding confined_def using assms(4-6) by blast
qed

lemma ok_local:
  "D' (reference_path b p) = D (reference_path b p) \<Longrightarrow> reference_ok env D' b p = reference_ok env D b p"
  "D' (reference_path b p) = D (reference_path b p) \<Longrightarrow> D' (delta_path b p n) = D (delta_path b p n)
     \<Longrightarrow> delta_ok env D' b p n = delta_ok env D b p n"
  "D' (passthrough_path b p n) = D (passthrough_path b p n)
     \<Longrightarrow> passthrough_ok env D' b p n = passthrough_ok env D b p n"
  by (simp_all add: reference_ok_def delta_ok_def passthrough_ok_def)

lemma confined_put_passthrough:
  assumes w: "confined env D0 b p n D" and n: "plain_name n"
    and m: "fxattr f = Some m" "storage_info m = Passthrough" "original_name m = n"
  shows "confined env D0 b p n (D(passthrough_path b p n \<mapsto> f))"
proof (rule confinedI [OF w])
  let ?D = "D(passthrough_path b p n \<mapsto> f)"
  show "?D path = D path" if "path \<noteq> reference_path b p" "path \<noteq> delta_path b p n"
    "path \<noteq> passthrough_path b p n" for path
    using that by simp
  show "?D (reference_path b p) = D (reference_path b p) \<or> (\<forall>m. m \<noteq> n \<longrightarrow> D0 (delta_path b p m) = None)"
    using n by simp
  show "reference_ok env ?D b p"
    using confined_ok(1) [OF w] n by (simp add: reference_ok_def)
  show "delta_ok env ?D b p n"
    using confined_ok(2) [OF w] n by (simp add: delta_ok_def)
  show "passthrough_ok env ?D b p n"
    using m by (simp add: passthrough_ok_def file_meta_def)
qed

lemma confined_del_passthrough:
  assumes w: "confined env D0 b p n D" and n: "plain_name n"
  shows "confined env D0 b p n (D(passthrough_path b p n := None))"
proof (rule confinedI [OF w])
  let ?D = "D(passthrough_path b p n := None)"
  show "?D path = D path" if "path \<noteq> reference_path b p" "path \<noteq> delta_path b p n"
    "path \<noteq> passthrough_path b p n" for path
    using that by simp
  show "?D (reference_path b p) = D (reference_path b p) \<or> (\<forall>m. m \<noteq> n \<longrightarrow> D0 (delta_path b p m) = None)"
    using n by simp
  show "reference_ok env ?D b p"
    using confined_ok(1) [OF w] n by (simp add: reference_ok_def)
  show "delta_ok env ?D b p n"
    using confined_ok(2) [OF w] n by (simp add: delta_ok_def)
  show "passthrough_ok env ?D b p n"
    by (simp add: passthrough_ok_def)
qed

lemma confined_del_delta:
  assumes w: "confined env D0 b p n D" and n: "plain_name n"
  shows "confined env D0 b p n (D(delta_path b p n := None))"
proof (rule confinedI [OF w])
  let ?D = "D(delta_path b p n := None)"
  show "?D path = D path" if "path \<noteq> reference_path b p" "path \<noteq> delta_path b p n"
    "path \<noteq> passthrough_path b p n" for path
    using that by simp
  show "?D (reference_path b p) = D (reference_path b p) \<or> (\<forall>m. m \<noteq> n \<longrightarrow> D0 (delta_path b p m) = None)"
    using n by simp
  show "reference_ok env ?D b p"
    using confined_ok(1) [OF w] n by (simp add: reference_ok_def)
  show "delta_ok env ?D b p n"
    by (simp add: delta_ok_def)
  show "passthrough_ok env ?D b p n"
    using confined_ok(3) [OF w] n by (simp add: passthrough_ok_def)
qed

lemma confined_put_delta:
  assumes w: "confined env D0 b p n D" and n: "plain_name n"
    and m: "fxattr f = Some m" "is_delta m" "file_sha256 m = sha256_hex env d" "file_size m = length d"
      "length d \<le> max_object_size env"
    and r: "D (reference_path b p) = Some r" "xdelta3 (codec env) Decode (fdata r) (fdata f) = (d, True)"
  shows "confined env D0 b p n (D(delta_path b p n \<mapsto> f))"
proof (rule confinedI [OF w])
  let ?D = "D(delta_path b p n \<mapsto> f)"
  show "?D path = D path" if "path \<noteq> reference_path b p" "path \<noteq> delta_path b p n"
    "path \<noteq> passthrough_path b p n" for path
    using that by simp
  show "?D (reference_path b p) = D (reference_path b p) \<or> (\<forall>m. m \<noteq> n \<longrightarrow> D0 (delta_path b p m) = None)"
    using n by simp
  show "reference_ok env ?D b p"
    using confined_ok(1) [OF w] n by (simp add: reference_ok_def)
  show "delta_ok env ?D b p n"
    using m r by (simp add: delta_ok_def)
  show "passthrough_ok env ?D b p n"
    using confined_ok(3) [OF w] n by (simp add: passthrough_ok_def)
qed

lemma no_other_deltas:
  assumes D0: "disk_ok env D0" and w: "confined env D0 b p n D" and r: "D (reference_path b p) = None"
  shows "\<forall>m. m \<noteq> n \<longrightarrow> D0 (delta_path b p m) = None"
proof (cases "D0 (reference_path b p)")
  case None
  then show ?thesis using delta_needs_reference [OF disk_okD(2) [OF D0]] by blast
next
  case (Some f)
  with r confined_ref [OF w] show ?thesis by auto
qed

lemma confined_put_reference:
  assumes D0: "disk_ok env D0" and w: "confined env D0 b p n D" and n: "plain_name n"
    and r: "D (reference_path b p) = None"
    and f: "fxattr f = Some m" "\<not> reference_metadata_is_corrupt m"
      "file_sha256 m = sha256_hex env (fdata f)" "length (fdata f) \<le> max_object_size env"
  shows "confined env D0 b p n (D(reference_path b p \<mapsto> f))"
proof (rule confinedI [OF w])
  let ?D = "D(reference_path b p \<mapsto> f)"
  have none: "D (delta_path b p n) = None" using delta_needs_reference [OF confined_ok(2) [OF w] r] .
  show "?D path = D path" if "path \<noteq> reference_path b p" "path \<noteq> delta_path b p n"
    "path \<noteq> passthrough_path b p n" for path
    using that by simp
  show "?D (reference_path b p) = D (reference_path b p) \<or> (\<forall>m. m \<noteq> n \<longrightarrow> D0 (delta_path b p m) = None)"
    using no_other_deltas [OF D0 w r] by blast
  show "reference_ok env ?D b p" using f by (simp add: reference_ok_def)
  show "delta_ok env ?D b p n" using none by (simp add: delta_ok_def)
  show "passthrough_ok env ?D b p n" using confined_ok(3) [OF w] n by (simp add: passthrough_ok_def)
qed

lemma confined_del_reference:
  assumes w: "confined env D0 b p n D" and n: "plain_name n"
    and "D (delta_path b p n) = None" "\<forall>m. m \<noteq> n \<longrightarrow> D0 (delta_path b p m) = None"
  shows "confined env D0 b p n (D(reference_path b p := None))"
proof (rule confinedI [OF w])
  let ?D = "D(reference_path b p := None)"
  show "?D path = D path" if "path \<noteq> reference_path b p" "path \<noteq> delta_path b p n"
    "path \<noteq> passthrough_path b p n" for path
    using that by simp
  show "?D (reference_path b p) = D (reference_path b p) \<or> (\<forall>m. m \<noteq> n \<longrightarrow> D0 (delta_path b p m) = None)"
    using assms(4) by simp
  show "reference_ok env ?D b p"
    by (simp add: reference_ok_def)
  show "delta_ok env ?D b p n"
    using assms(3) by (simp add: delta_ok_def)
  show "passthrough_ok env ?D b p n"
    using confined_ok(3) [OF w] n by (simp add: passthrough_ok_def)
qed

end
