(* ===== verification/StoreCorrect.thy ===== *)
theory StoreCorrect
  imports Consistency
begin

text \<open>
  Correctness of the store pipeline under every schedule of faults: a store keeps the state
  consistent whether it succeeds or fails, it leaves every other object as it was, and after a store
  that reports success the object that is found under the key has the bytes and the metadata that
  were stored.
\<close>

section \<open>Progress of an operation on one key\<close>

definition progress :: "engine_env \<Rightarrow> engine \<Rightarrow> string \<Rightarrow> string \<Rightarrow> engine \<Rightarrow> bool" where
  "progress env s0 b key s \<longleftrightarrow>
     confined env (lookup_file s0) b (ok_prefix (parse_key b key)) (ok_filename (parse_key b key)) (lookup_file s)
   \<and> clock s = clock s0
   \<and> (\<forall>c. c \<noteq> cache_key b (ok_prefix (parse_key b key)) \<longrightarrow> ref_cache s c = ref_cache s0 c)
   \<and> cache_at s b (ok_prefix (parse_key b key))
   \<and> meta_cache s = meta_cache s0"

lemma progress_refl:
  assumes "disk_cache_ok env s" "slashless b"
  shows "progress env s b key s"
  using assms by (auto simp: progress_def disk_cache_ok_def confined_refl)

lemma progressD:
  assumes "progress env s0 b key s"
  shows "confined env (lookup_file s0) b (ok_prefix (parse_key b key)) (ok_filename (parse_key b key)) (lookup_file s)"
    and "clock s = clock s0" and "cache_at s b (ok_prefix (parse_key b key))"
    and "meta_cache s = meta_cache s0"
  using assms by (auto simp: progress_def)

lemma progress_same:
  assumes "progress env s0 b key s" "lookup_file t = lookup_file s" "clock t = clock s"
    "ref_cache t = ref_cache s" "meta_cache t = meta_cache s"
  shows "progress env s0 b key t"
  using assms by (simp add: progress_def cache_at_def)

lemma progress_ticked:
  assumes "progress env s0 b key s" "ticked s t"
  shows "progress env s0 b key t"
  using ticked_fields [OF assms(2)] ticked_engine [OF assms(2)] by (intro progress_same [OF assms(1)]) simp_all

lemma progress_caches:
  assumes "progress env s0 b key s"
  shows "progress env s0 b key (cache_invalidate (cache_key b (ok_prefix (parse_key b key))) s)"
    "progress env s0 b key (record_store env b r s)" "progress env s0 b key (record_delete env b m z s)"
  using assms unfolding progress_def cache_at_def by simp_all

lemma progress_cache_put:
  assumes "progress env s0 b key s"
    and "\<And>f. lookup_file s (reference_path b (ok_prefix (parse_key b key))) = Some f \<Longrightarrow> fdata f = d"
  shows "progress env s0 b key (cache_put (cache_key b (ok_prefix (parse_key b key))) d s)"
proof -
  have "cache_at (cache_put (cache_key b (ok_prefix (parse_key b key))) d s) b (ok_prefix (parse_key b key))"
    unfolding cache_at_def using assms(2) by simp
  then show ?thesis using assms(1) unfolding progress_def by simp
qed

text \<open>A change of the disk that leaves the reference alone, or that the cache entry does not contradict.\<close>

lemma progress_disk:
  assumes s: "progress env s0 b key s"
    and t: "confined env (lookup_file s0) b (ok_prefix (parse_key b key)) (ok_filename (parse_key b key)) (lookup_file t)"
      "clock t = clock s" "ref_cache t = ref_cache s" "meta_cache t = meta_cache s"
    and r: "lookup_file t (reference_path b (ok_prefix (parse_key b key))) = lookup_file s (reference_path b (ok_prefix (parse_key b key)))
       \<or> lookup_file t (reference_path b (ok_prefix (parse_key b key))) = None"
  shows "progress env s0 b key t"
proof -
  have "cache_at t b (ok_prefix (parse_key b key))"
    using progressD(3) [OF s] r t(3) unfolding cache_at_def by auto
  then show ?thesis using s t unfolding progress_def by simp
qed

section \<open>Consistency at the end\<close>

lemma progress_disk_cache_ok:
  assumes s0: "disk_cache_ok env s0" and b: "slashless b" and n: "plain_name (ok_filename (parse_key b key))"
    and s: "progress env s0 b key s"
  shows "disk_cache_ok env s"
proof -
  have D0: "disk_ok env (lookup_file s0)" using s0 by (simp add: disk_cache_ok_def)
  have "cache_at s b' p'" if b': "slashless b'" for b' p'
  proof (cases "b' = b \<and> p' = ok_prefix (parse_key b key)")
    case True
    then show ?thesis using s by (simp add: progress_def)
  next
    case False
    then have "ref_cache s (cache_key b' p') = ref_cache s0 (cache_key b' p')"
      using s b b' cache_key_eq [of b' b p' "ok_prefix (parse_key b key)"]
      by (auto simp: progress_def slashless_def)
    moreover have "lookup_file s (reference_path b' p') = lookup_file s0 (reference_path b' p')"
      using False n by (intro confined_other [OF progressD(1) [OF s]]) auto
    ultimately show ?thesis using s0 b' by (simp add: disk_cache_ok_def cache_at_def)
  qed
  with confined_disk_ok [OF D0 progressD(1) [OF s] n] show ?thesis by (simp add: disk_cache_ok_def)
qed

lemma progress_consistent:
  assumes s0: "consistent env s0" and b: "slashless b" and v: "validate_object (parse_key b key) = Inr ()"
    and s: "progress env s0 b key s"
    and t: "lookup_file t = lookup_file s" "ref_cache t = ref_cache s"
      "\<And>c. c \<noteq> meta_cache_key b key \<Longrightarrow> meta_cache t c = meta_cache s c"
    and own: "meta_at env t b key"
  shows "consistent env t"
proof -
  have n: "plain_name (ok_filename (parse_key b key))" using valid_plain [OF v] .
  have dc0: "disk_cache_ok env s0" using s0 by (simp add: consistent_def)
  then have D0: "disk_ok env (lookup_file s0)" by (simp add: disk_cache_ok_def)
  have "meta_at env t b' key'" if b': "slashless b'" for b' key'
  proof (cases "meta_cache_key b' key' = meta_cache_key b key")
    case True
    then have "b' = b" "parse_key b' key' = parse_key b key"
      using meta_cache_key_eq [of b' b key' key] b b' by (auto simp: slashless_def)
    with True own show ?thesis by (simp add: meta_at_def)
  next
    case False
    then have mc: "meta_cache t (meta_cache_key b' key') = meta_cache s0 (meta_cache_key b' key')"
      using t(3) progressD(4) [OF s] by simp
    have m0: "meta_at env s0 b' key'" using s0 b' by (simp add: consistent_def)
    have "resolve_view env (lookup_file s) b' (parse_key b' key')
        = resolve_view env (lookup_file s0) b' (parse_key b' key')"
      if "validate_object (parse_key b' key') = Inr ()"
    proof (rule confined_object_view(1) [OF D0 progressD(1) [OF s] n valid_plain [OF that]])
      have "\<not> (b' = b \<and> parse_key b' key' = parse_key b key)"
        using False meta_cache_key_eq [of b' b key' key] b b' by (simp add: slashless_def)
      then show "(b', ok_prefix (parse_key b' key'), ok_filename (parse_key b' key'))
          \<noteq> (b, ok_prefix (parse_key b key), ok_filename (parse_key b key))"
        using parse_key_inj [of b key' key] by auto
    qed
    with mc m0 t(1) show ?thesis by (auto simp: meta_at_def)
  qed
  moreover have "disk_cache_ok env t"
    using progress_disk_cache_ok [OF dc0 b n s] t(1,2) by (simp add: disk_cache_ok_def cache_at_def)
  ultimately show ?thesis by (simp add: consistent_def)
qed

section \<open>The shared parts\<close>

lemma resolve_object_metadata_ticked:
  assumes "resolve_object_metadata env b p f s = (r, t)"
  shows "ticked s t"
proof -
  obtain dr s1 where d: "get_delta_metadata env b p (last_segment f) s = (dr, s1)" by fastforce
  obtain pr s2 where p: "get_passthrough_metadata env b p (last_segment f) s1 = (pr, s2)" by fastforce
  have "ticked s s1" using d unfolding get_delta_metadata_def by (auto elim: get_object_metadata_cases)
  moreover have "ticked s1 s2"
    using p unfolding get_passthrough_metadata_def by (auto elim: get_object_metadata_cases)
  moreover have "t = s2"
    using assms d p by (auto simp: resolve_object_metadata_def split: sum.splits)
  ultimately show ?thesis using ticked_trans by blast
qed

lemma prior_for_counter_ticked:
  assumes "prior_for_counter env b key s = (r, t)"
  shows "ticked s t"
  using assms
  by (auto simp: prior_for_counter_def resolve_metadata_def map_err_def split: if_splits sum.splits prod.splits
      dest: resolve_object_metadata_ticked)

lemma permit_ticked:
  "try_acquire_codec env s = (r, t) \<Longrightarrow> ticked s t"
  "acquire_codec_timeout env s = (r, t) \<Longrightarrow> ticked s t"
  "acquire_codec env s = (r, t) \<Longrightarrow> ticked s t"
  "spool_acquire env n s = (r, t) \<Longrightarrow> ticked s t"
  "acquire_reference_lock env b p s = (r, t) \<Longrightarrow> ticked s t"
  by (auto simp: try_acquire_codec_def acquire_codec_timeout_def acquire_codec_def spool_acquire_def
      acquire_reference_lock_def split: option.splits fault.splits if_splits)

lemma load_reference_cases:
  assumes "load_reference env b p s = (r, t)"
  obtains f where "lookup_file s (reference_path b p) = Some f" "r = Inr (fdata f)" "ticked s t"
  | e where "r = Inl e" "ticked s t"
proof -
  obtain dr s1 where d: "get_reference env b p s = (dr, s1)" by fastforce
  obtain mr s2 where m: "get_reference_metadata env b p s1 = (mr, s2)" by fastforce
  have t1: "ticked s s1" using d unfolding get_reference_def by (auto elim: get_object_file_cases)
  have "ticked s1 s2"
    using m unfolding get_reference_metadata_def by (auto elim: get_object_metadata_cases)
  with t1 have t2: "ticked s s2" using ticked_trans by blast
  show ?thesis
  proof (cases dr)
    case (Inl e)
    then have "t = s2 \<and> (\<exists>e. r = Inl e)"
      using assms d m by (cases e) (auto simp: load_reference_def)
    with t2 that(2) show ?thesis by blast
  next
    case (Inr x)
    with d [unfolded get_reference_def] obtain f where f: "lookup_file s (reference_path b p) = Some f" "x = fdata f"
      by (auto elim: get_object_file_cases)
    have "t = s2 \<and> (r = Inr x \<or> (\<exists>e. r = Inl e))"
      using assms d m Inr
      by (cases mr) (auto simp: load_reference_def reference_integrity_ok_def split: if_splits)
    with t2 f that show ?thesis by blast
  qed
qed

lemma get_reference_cached_progress:
  assumes s: "progress env s0 b key s"
    and op: "get_reference_cached env b (ok_prefix (parse_key b key)) s = (r, t)"
  shows "progress env s0 b key t" and "lookup_file t = lookup_file s"
    and "\<And>d h f. r = Inr (d, h) \<Longrightarrow>
      lookup_file s (reference_path b (ok_prefix (parse_key b key))) = Some f \<Longrightarrow> d = fdata f"
proof -
  let ?p = "ok_prefix (parse_key b key)"
  have "progress env s0 b key t \<and> lookup_file t = lookup_file s \<and>
    (\<forall>d h f. r = Inr (d, h) \<longrightarrow> lookup_file s (reference_path b ?p) = Some f \<longrightarrow> d = fdata f)"
  proof (cases "ref_cache s (cache_key b ?p)")
    case (Some d)
    then have "r = Inr (d, True)" "t = s" using op by (auto simp: get_reference_cached_def)
    moreover have "fdata f = d" if "lookup_file s (reference_path b ?p) = Some f" for f
      using progressD(3) [OF s] Some that by (simp add: cache_at_def)
    ultimately show ?thesis using s by simp
  next
    case None
    obtain lr u where l: "load_reference env b ?p s = (lr, u)" by fastforce
    from l show ?thesis
    proof (cases rule: load_reference_cases)
      case (1 f)
      then have r: "r = Inr (fdata f, False)" "t = cache_put (cache_key b ?p) (fdata f) u"
        using op l None by (auto simp: get_reference_cached_def)
      have u: "progress env s0 b key u" "lookup_file u = lookup_file s"
        using progress_ticked [OF s 1(3)] ticked_fields [OF 1(3)] by auto
      moreover have "progress env s0 b key t"
        unfolding r(2) using u 1(1) by (intro progress_cache_put) simp_all
      ultimately show ?thesis using r 1(1) by simp
    next
      case (2 e)
      then have "r = Inl e" "t = u" using op l None by (simp_all add: get_reference_cached_def)
      then show ?thesis using progress_ticked [OF s 2(2)] ticked_fields(1) [OF 2(2)] by simp
    qed
  qed
  then show "progress env s0 b key t" and "lookup_file t = lookup_file s"
    and "\<And>d h f. r = Inr (d, h) \<Longrightarrow>
      lookup_file s (reference_path b (ok_prefix (parse_key b key))) = Some f \<Longrightarrow> d = fdata f"
    by blast+
qed

section \<open>What a reader finds\<close>

lemma object_view_delta:
  assumes "D (delta_path b (ok_prefix k) (ok_filename k)) = Some f" "fxattr f = Some m" "is_delta m"
    and "D (reference_path b (ok_prefix k)) = Some r"
    and "xdelta3 (codec env) Decode (fdata r) (fdata f) = (d, True)"
    and "\<And>g. D (passthrough_path b (ok_prefix k) (ok_filename k)) = Some g \<Longrightarrow>
      created_at (file_meta env (ok_filename k) g) \<le> created_at m"
  shows "object_view env D b k = Some (d, m)" "resolve_view env D b k = Some m"
proof -
  show r: "resolve_view env D b k = Some m"
    using assms(1,2,6) by (auto simp: resolve_view_def newest_def file_meta_def split: option.splits)
  obtain rp rs z c where "storage_info m = Delta rp rs z c"
    using assms(3) by (auto simp: is_delta_def split: storage_info.splits)
  then show "object_view env D b k = Some (d, m)"
    using r assms(1,4,5) by (simp add: object_view_def content_of_def)
qed

lemma object_view_passthrough:
  assumes "D (passthrough_path b (ok_prefix k) (ok_filename k)) = Some f" "fxattr f = Some m"
    and "storage_info m = Passthrough" "original_name m = ok_filename k"
    and "\<And>g. D (delta_path b (ok_prefix k) (ok_filename k)) = Some g \<Longrightarrow>
      created_at (file_meta env (ok_filename k) g) < created_at m"
  shows "object_view env D b k = Some (fdata f, m)" "resolve_view env D b k = Some m"
proof -
  show r: "resolve_view env D b k = Some m"
    using assms(1,2,5)
    by (cases "D (delta_path b (ok_prefix k) (ok_filename k))")
      (auto simp: resolve_view_def newest_def file_meta_def)
  then show "object_view env D b k = Some (fdata f, m)"
    using assms(1,3,4) by (simp add: object_view_def content_of_def)
qed

section \<open>Removing a variant\<close>

abbreviation pfx :: "string \<Rightarrow> string \<Rightarrow> string" where "pfx b key \<equiv> ok_prefix (parse_key b key)"
abbreviation nam :: "string \<Rightarrow> string \<Rightarrow> string" where "nam b key \<equiv> ok_filename (parse_key b key)"

text \<open>The state after a deletion: the file is there or gone, and nothing else has changed.\<close>

definition dropped :: "fpath \<Rightarrow> engine \<Rightarrow> engine \<Rightarrow> bool" where
  "dropped path s t \<longleftrightarrow> (lookup_file t = lookup_file s \<or> lookup_file t = (lookup_file s)(path := None))
     \<and> clock t = clock s \<and> ref_cache t = ref_cache s \<and> meta_cache t = meta_cache s"

lemma delete_object_file_dropped:
  fixes s :: engine
  assumes "delete_object_file env path l s = (r, t)"
  shows "dropped path s t" and "r = Inr () \<Longrightarrow> lookup_file t = (lookup_file s)(path := None)"
  using assms
  by (auto elim!: delete_object_file_cases simp: dropped_def ticked_fields ticked_engine)

lemma dropped_delta: "dropped (delta_path b p n) s (snd (delete_delta_idempotent env b p n s))"
proof -
  obtain r t where rt: "delete_object_file env (delta_path b p n) ''delta'' s = (r, t)" by fastforce
  from delete_object_file_dropped(1) [OF this] rt show ?thesis
    by (simp add: delete_delta_idempotent_def delete_delta_def)
qed

lemma dropped_passthrough: "dropped (passthrough_path b p n) s (snd (delete_passthrough_idempotent env b p n s))"
proof -
  obtain r t where rt: "delete_object_file env (passthrough_path b p n) ''passthrough'' s = (r, t)" by fastforce
  from delete_object_file_dropped(1) [OF this] rt show ?thesis
    by (simp add: delete_passthrough_idempotent_def delete_passthrough_def)
qed

lemma dropped_reference: "dropped (reference_path b p) s (snd (delete_reference env b p s))"
proof -
  obtain r t where rt: "delete_object_file env (reference_path b p) ''reference'' s = (r, t)" by fastforce
  from delete_object_file_dropped(1) [OF this] rt show ?thesis
    by (simp add: delete_reference_def)
qed

lemma progress_dropped:
  assumes s: "progress env s0 b key s" and n: "plain_name (nam b key)" and t: "dropped path s t"
    and path: "path = delta_path b (pfx b key) (nam b key) \<or> path = passthrough_path b (pfx b key) (nam b key)
      \<or> path = reference_path b (pfx b key) \<and> lookup_file s (delta_path b (pfx b key) (nam b key)) = None
        \<and> (\<forall>m. m \<noteq> nam b key \<longrightarrow> lookup_file s0 (delta_path b (pfx b key) m) = None)"
  shows "progress env s0 b key t"
proof -
  note c = progressD(1) [OF s]
  have "confined env (lookup_file s0) b (pfx b key) (nam b key) ((lookup_file s)(path := None))"
    using path confined_del_delta [OF c n] confined_del_passthrough [OF c n] confined_del_reference [OF c n]
    by blast
  with c t have "confined env (lookup_file s0) b (pfx b key) (nam b key) (lookup_file t)"
    by (auto simp: dropped_def)
  moreover have "lookup_file t (reference_path b (pfx b key)) = lookup_file s (reference_path b (pfx b key))
      \<or> lookup_file t (reference_path b (pfx b key)) = None"
    using t by (auto simp: dropped_def split: if_splits)
  ultimately show ?thesis
    using t by (intro progress_disk [OF s]) (simp_all add: dropped_def)
qed

section \<open>Passthrough\<close>

definition context_for :: "engine_env \<Rightarrow> string \<Rightarrow> string \<Rightarrow> bytes \<Rightarrow> store_context \<Rightarrow> bool" where
  "context_for env b key d ctx \<longleftrightarrow> sc_bucket ctx = b \<and> sc_key ctx = parse_key b key \<and> sc_ds ctx = pfx b key
     \<and> sc_data ctx = d \<and> sc_sha256 ctx = sha256_hex env d \<and> sc_md5 ctx = md5_hex env d"

lemma store_passthrough_cases:
  assumes op: "store_passthrough env ctx s = (r, t)" and ctx: "context_for env b key d ctx"
    and s: "progress env s0 b key s" and n: "plain_name (nam b key)"
  obtains res where "r = Inr res" "progress env s0 b key t"
      "lookup_file t = (lookup_file s)(passthrough_path b (pfx b key) (nam b key) \<mapsto>
         \<lparr>fdata = d, fxattr = Some (sr_metadata res), fmtime = clock s\<rparr>)"
      "storage_info (sr_metadata res) = Passthrough" "original_name (sr_metadata res) = nam b key"
      "created_at (sr_metadata res) = clock s" "ref_cache t = ref_cache s"
  | e where "r = Inl e" "progress env s0 b key t" "lookup_file t = lookup_file s"
proof -
  let ?m = "(new_passthrough (clock s) (nam b key) (sc_sha256 ctx) (sc_md5 ctx) (length d)
      (sc_content_type ctx))\<lparr>user_metadata := sc_user_metadata ctx, multipart_etag := sc_multipart_etag ctx\<rparr>"
  let ?path = "passthrough_path b (pfx b key) (nam b key)"
  obtain pr u where pu: "put_object_file env b ?path d ?m s = (pr, u)" by fastforce
  have m: "storage_info ?m = Passthrough" "original_name ?m = nam b key" "created_at ?m = clock s"
    by (simp_all add: new_passthrough_def)
  from pu show ?thesis
  proof (cases rule: put_object_file_cases)
    case 1
    have "r = Inr (new_store_result ?m (length d))" "t = u"
      using op ctx pu 1(1) by (simp_all add: store_passthrough_def put_passthrough_def context_for_def Let_def)
    moreover have "progress env s0 b key u"
      unfolding 1(3) using n m
      by (intro progress_disk [OF s]) (simp_all add: confined_put_passthrough [OF progressD(1) [OF s] n])
    ultimately show ?thesis
      using 1(3) m by (intro that(1) [of "new_store_result ?m (length d)"]) (simp_all add: new_store_result_def)
  next
    case (2 e)
    then have "r = Inl (EStorage e)" "t = u"
      using op ctx pu by (simp_all add: store_passthrough_def put_passthrough_def context_for_def Let_def)
    with 2 show ?thesis
      using progress_ticked [OF s 2(2)] ticked_fields(1) [OF 2(2)] by (intro that(2)) simp_all
  qed
qed

lemma fresh_clockD:
  assumes "fresh_clock env s" "lookup_file s path = Some g"
  shows "created_at (file_meta env n g) < clock s"
  using assms unfolding fresh_clock_def by blast

text \<open>A passthrough copy was written; the delta variant is as it was or gone.\<close>

lemma passthrough_visible:
  assumes new: "lookup_file u (passthrough_path b (pfx b key) (nam b key))
      = Some \<lparr>fdata = d, fxattr = Some m, fmtime = c\<rparr>"
    and m: "storage_info m = Passthrough" "original_name m = nam b key" "created_at m = clock s0"
    and old: "fresh_clock env s0"
      "\<And>g. lookup_file u (delta_path b (pfx b key) (nam b key)) = Some g \<Longrightarrow>
         lookup_file s0 (delta_path b (pfx b key) (nam b key)) = Some g"
  shows "object_view env (lookup_file u) b (parse_key b key) = Some (d, m)"
proof -
  have "object_view env (lookup_file u) b (parse_key b key)
      = Some (fdata \<lparr>fdata = d, fxattr = Some m, fmtime = c\<rparr>, m)"
  proof (rule object_view_passthrough(1))
    show "lookup_file u (passthrough_path b (pfx b key) (nam b key))
      = Some \<lparr>fdata = d, fxattr = Some m, fmtime = c\<rparr>" by (rule new)
    show "created_at (file_meta env (nam b key) g) < created_at m"
      if "lookup_file u (delta_path b (pfx b key) (nam b key)) = Some g" for g
      using fresh_clockD [OF old(1) old(2) [OF that]] m(3) by simp
  qed (use m in simp_all)
  then show ?thesis by simp
qed

section \<open>Commit\<close>

lemma commit_passthrough:
  assumes op: "commit_delta_or_passthrough env ctx rm ex delta ratio s = (r, t)"
    and ratio: "ratio \<ge> max_delta_ratio (bucket_policies env) b"
    and ctx: "context_for env b key d ctx"
    and s: "progress env s0 b key s" and n: "plain_name (nam b key)"
    and fresh: "\<not> ex \<Longrightarrow> lookup_file s (delta_path b (pfx b key) (nam b key)) = None
      \<and> (\<forall>m. m \<noteq> nam b key \<longrightarrow> lookup_file s0 (delta_path b (pfx b key) m) = None)"
    and pre: "lookup_file s (delta_path b (pfx b key) (nam b key)) = lookup_file s0 (delta_path b (pfx b key) (nam b key))"
    and old: "fresh_clock env s0"
  shows "progress env s0 b key t \<and> (case r of
      Inl _ \<Rightarrow> lookup_file t = lookup_file s
    | Inr res \<Rightarrow> object_view env (lookup_file t) b (parse_key b key) = Some (d, sr_metadata res))"
proof -
  let ?delta = "delta_path b (pfx b key) (nam b key)"
  let ?pass = "passthrough_path b (pfx b key) (nam b key)"
  let ?ref = "reference_path b (pfx b key)"
  obtain pr u where pu: "store_passthrough env ctx s = (pr, u)" by fastforce
  have c: "sc_bucket ctx = b" "sc_ds ctx = pfx b key" "ok_filename (sc_key ctx) = nam b key"
    using ctx by (simp_all add: context_for_def)
  from store_passthrough_cases [OF pu ctx s n] show ?thesis
  proof cases
    case (1 res)
    let ?v = "snd (delete_delta_idempotent env b (pfx b key) (nam b key) u)"
    have dv: "dropped ?delta u ?v" by (rule dropped_delta)
    have v: "progress env s0 b key ?v" by (rule progress_dropped [OF 1(2) n dv]) simp
    have lv: "lookup_file ?v ?pass = Some \<lparr>fdata = d, fxattr = Some (sr_metadata res), fmtime = clock s\<rparr>"
      using dv 1(3) n by (auto simp: dropped_def)
    have dl: "lookup_file ?v ?delta = None \<or> lookup_file ?v ?delta = lookup_file s ?delta"
      using dv 1(3) n by (auto simp: dropped_def)
    let ?w = "snd (delete_reference env b (pfx b key) (cache_invalidate (cache_key b (pfx b key)) ?v))"
    have dw: "dropped ?ref (cache_invalidate (cache_key b (pfx b key)) ?v) ?w" by (rule dropped_reference)
    have rt: "r = Inr res" "t = (if ex then ?v else ?w)"
      using op ratio pu c 1(1) by (auto simp: commit_delta_or_passthrough_def Let_def split: if_splits)
    have "progress env s0 b key t"
    proof (cases ex)
      case False
      show ?thesis unfolding rt(2) using False fresh dl
        by (auto intro!: progress_dropped [OF progress_caches(1) [OF v] n dw])
    qed (use rt v in simp)
    moreover have lt: "lookup_file t ?pass = lookup_file ?v ?pass" "lookup_file t ?delta = lookup_file ?v ?delta"
      using rt(2) dw n by (auto simp: dropped_def)
    moreover have "object_view env (lookup_file t) b (parse_key b key) = Some (d, sr_metadata res)"
      using lt lv dl pre 1(6) progressD(2) [OF s]
      by (intro passthrough_visible [OF _ 1(4,5) _ old]) auto
    ultimately show ?thesis using rt(1) by simp
  next
    case (2 e)
    then show ?thesis using op ratio pu c by (auto simp: commit_delta_or_passthrough_def Let_def)
  qed
qed

lemma commit_delta:
  assumes op: "commit_delta_or_passthrough env ctx rm ex delta ratio s = (r, t)"
    and ratio: "\<not> ratio \<ge> max_delta_ratio (bucket_policies env) b"
    and ctx: "context_for env b key d ctx"
    and s: "progress env s0 b key s" and n: "plain_name (nam b key)" and len: "length d \<le> max_object_size env"
    and rf: "lookup_file s (reference_path b (pfx b key)) = Some rf"
    and dec: "xdelta3 (codec env) Decode (fdata rf) delta = (d, True)"
    and pre: "lookup_file s (passthrough_path b (pfx b key) (nam b key))
      = lookup_file s0 (passthrough_path b (pfx b key) (nam b key))"
    and old: "fresh_clock env s0"
  shows "progress env s0 b key t \<and> (case r of
      Inl _ \<Rightarrow> lookup_file t = lookup_file s
    | Inr res \<Rightarrow> object_view env (lookup_file t) b (parse_key b key) = Some (d, sr_metadata res))"
proof -
  let ?delta = "delta_path b (pfx b key) (nam b key)"
  let ?pass = "passthrough_path b (pfx b key) (nam b key)"
  let ?ref = "reference_path b (pfx b key)"
  let ?m = "(new_delta (clock s) (nam b key) (sha256_hex env d) (md5_hex env d) (length d) ''reference.bin''
      (file_sha256 rm) (length delta) (sc_content_type ctx))
      \<lparr>user_metadata := sc_user_metadata ctx, multipart_etag := sc_multipart_etag ctx\<rparr>"
  have m: "is_delta ?m" "file_sha256 ?m = sha256_hex env d" "file_size ?m = length d" "created_at ?m = clock s0"
    using progressD(2) [OF s] by (simp_all add: new_delta_def is_delta_def)
  obtain pr u where pu: "put_object_file env b ?delta delta ?m s = (pr, u)" by fastforce
  have eq: "commit_delta_or_passthrough env ctx rm ex delta ratio s =
      and_then (map_err EStorage (pr, u)) (\<lambda>_ s. (Inr (new_store_result ?m (length delta)),
        snd (delete_passthrough_idempotent env b (pfx b key) (nam b key) s)))"
    using ctx ratio pu by (simp add: commit_delta_or_passthrough_def context_for_def put_delta_def Let_def)
  from pu show ?thesis
  proof (cases rule: put_object_file_cases)
    case 1
    let ?f = "\<lparr>fdata = delta, fxattr = Some ?m, fmtime = clock s\<rparr>"
    have lu: "lookup_file u = (lookup_file s)(?delta \<mapsto> ?f)" using 1(3) by simp
    have u: "progress env s0 b key u"
    proof (rule progress_disk [OF s])
      show "confined env (lookup_file s0) b (pfx b key) (nam b key) (lookup_file u)"
        unfolding lu using len rf dec
        by (intro confined_put_delta [OF progressD(1) [OF s] n _ m(1-3), where r = rf]) simp_all
    qed (use 1(3) in simp_all)
    have rt: "r = Inr (new_store_result ?m (length delta))"
      "t = snd (delete_passthrough_idempotent env b (pfx b key) (nam b key) u)"
      using op eq 1(1) by simp_all
    have dt: "dropped ?pass u t" unfolding rt(2) by (rule dropped_passthrough)
    have "progress env s0 b key t" by (rule progress_dropped [OF u n dt]) simp
    moreover have "object_view env (lookup_file t) b (parse_key b key) = Some (d, ?m)"
    proof (rule object_view_delta(1))
      show "lookup_file t ?delta = Some ?f" "lookup_file t ?ref = Some rf"
        using dt lu n rf by (auto simp: dropped_def)
      show "created_at (file_meta env (nam b key) g) \<le> created_at ?m" if "lookup_file t ?pass = Some g" for g
      proof -
        from that dt lu n pre have "lookup_file s0 ?pass = Some g" by (auto simp: dropped_def)
        from fresh_clockD [OF old this] show ?thesis unfolding m(4) by (rule less_imp_le)
      qed
    qed (use m dec in simp_all)
    ultimately show ?thesis using rt(1) by (simp add: new_store_result_def)
  next
    case (2 e)
    then have "r = Inl (EStorage e)" "t = u" using op eq by simp_all
    with 2 show ?thesis using progress_ticked [OF s 2(2)] ticked_fields(1) [OF 2(2)] by simp
  qed
qed

section \<open>Encoding against the reference\<close>

text \<open>The outcome of the writing part: an error leaves the disk as it was, success makes the object visible.\<close>

definition outcome ::
  "engine_env \<Rightarrow> engine \<Rightarrow> engine \<Rightarrow> string \<Rightarrow> string \<Rightarrow> bytes \<Rightarrow> (engine_error, store_result) result \<Rightarrow> engine \<Rightarrow> bool" where
  "outcome env s0 s b key d r t \<longleftrightarrow> progress env s0 b key t \<and> (case r of
      Inl _ \<Rightarrow> lookup_file t = lookup_file s
    | Inr res \<Rightarrow> object_view env (lookup_file t) b (parse_key b key) = Some (d, sr_metadata res))"

lemma encode_and_store_outcome:
  assumes op: "encode_and_store env ctx rm ex s = (r, t)" and env: "env_ok env"
    and ctx: "context_for env b key d ctx"
    and s: "progress env s0 b key s" and n: "plain_name (nam b key)" and len: "length d \<le> max_object_size env"
    and rf: "lookup_file s (reference_path b (pfx b key)) = Some rf"
    and fresh: "\<not> ex \<Longrightarrow> lookup_file s (delta_path b (pfx b key) (nam b key)) = None
      \<and> (\<forall>m. m \<noteq> nam b key \<longrightarrow> lookup_file s0 (delta_path b (pfx b key) m) = None)"
    and pre: "lookup_file s (delta_path b (pfx b key) (nam b key)) = lookup_file s0 (delta_path b (pfx b key) (nam b key))"
      "lookup_file s (passthrough_path b (pfx b key) (nam b key)) = lookup_file s0 (passthrough_path b (pfx b key) (nam b key))"
    and old: "fresh_clock env s0"
  shows "outcome env s0 s b key d r t"
proof -
  have c: "sc_bucket ctx = b" "sc_ds ctx = pfx b key" "sc_data ctx = d"
    using ctx by (simp_all add: context_for_def)
  from op obtain gr u where g: "get_reference_cached env b (pfx b key) s = (gr, u)"
    by (metis surj_pair)
  note gp = get_reference_cached_progress [OF s g]
  show ?thesis
  proof (cases gr)
    case (Inl e)
    then show ?thesis using op g c gp(1,2) by (auto simp: encode_and_store_def outcome_def)
  next
    case (Inr x)
    obtain reference h where x: "x = (reference, h)" by (cases x)
    with Inr gp(3) rf have ref: "reference = fdata rf" by simp
    obtain cr v where p: "try_acquire_codec env u = (cr, v)" by fastforce
    have tv: "ticked u v" using permit_ticked(1) [OF p] .
    have v: "progress env s0 b key v" "lookup_file v = lookup_file s"
      using progress_ticked [OF gp(1) tv] ticked_fields(1) [OF tv] gp(2) by simp_all
    show ?thesis
    proof (cases "cr = Inr () \<and> (\<exists>delta. encode (codec env) reference d = Inr delta)")
      case False
      then show ?thesis
        using op g c Inr x p v by (cases cr; cases "encode (codec env) reference d") (auto simp: encode_and_store_def outcome_def)
    next
      case True
      then obtain delta where enc: "encode (codec env) reference d = Inr delta" by blast
      have dec: "xdelta3 (codec env) Decode (fdata rf) delta = (d, True)"
        using encode_Inr(2) [OF enc] env ref by (auto simp: env_ok_def xdelta3_lossless_def)
      let ?q = "compression_ratio (codec env) (length d) (length delta)"
      have cm: "commit_delta_or_passthrough env ctx rm ex delta ?q v = (r, t)"
        using op g c Inr x p True enc by (auto simp: encode_and_store_def)
      show ?thesis
      proof (cases "?q \<ge> max_delta_ratio (bucket_policies env) b")
        case q: True
        show ?thesis
          using commit_passthrough [OF cm q ctx v(1) n _ _ old] fresh pre(1) v(2) by (simp add: outcome_def split: sum.splits)
      next
        case q: False
        show ?thesis
          using commit_delta [OF cm q ctx v(1) n len _ dec _ old] rf pre(2) v(2) by (simp add: outcome_def split: sum.splits)
      qed
    qed
  qed
qed

section \<open>The baseline\<close>

lemma set_reference_baseline_cases:
  assumes op: "set_reference_baseline env ctx s = (r, t)" and env: "env_ok env"
    and ctx: "context_for env b key d ctx" and D0: "disk_ok env (lookup_file s0)"
    and s: "progress env s0 b key s" and n: "plain_name (nam b key)" and len: "length d \<le> max_object_size env"
    and none: "lookup_file s (reference_path b (pfx b key)) = None"
  obtains m f where "r = Inr m" "progress env s0 b key t" "file_size m = length d"
      "lookup_file t = (lookup_file s)(reference_path b (pfx b key) \<mapsto> f)"
  | e where "r = Inl e" "progress env s0 b key t" "lookup_file t = lookup_file s"
proof -
  let ?ref = "reference_path b (pfx b key)"
  let ?m = "new_reference (clock s) INTERNAL_REFERENCE_NAME (full_key (parse_key b key)) (sha256_hex env d)
      (md5_hex env d) (length d) (sc_content_type ctx)"
  let ?f = "\<lparr>fdata = d, fxattr = Some ?m, fmtime = clock s\<rparr>"
  obtain pr u where pu: "put_object_file env b ?ref d ?m s = (pr, u)" by fastforce
  have eq: "set_reference_baseline env ctx s = and_then (map_err EStorage (pr, u)) (\<lambda>_ s.
      (Inr ?m, cache_put (cache_key b (pfx b key)) d s))"
    using ctx pu by (simp add: set_reference_baseline_def context_for_def put_reference_def Let_def)
  have m: "\<not> reference_metadata_is_corrupt ?m" "file_sha256 ?m = sha256_hex env d"
    using env by (simp_all add: reference_metadata_is_corrupt_def new_reference_def is_reference_def env_ok_def)
  from pu show ?thesis
  proof (cases rule: put_object_file_cases)
    case 1
    have lu: "lookup_file u = (lookup_file s)(?ref \<mapsto> ?f)" using 1(3) by simp
    have rt: "r = Inr ?m" "t = cache_put (cache_key b (pfx b key)) d u" using op eq 1(1) by simp_all
    have "confined env (lookup_file s0) b (pfx b key) (nam b key) (lookup_file u)"
      unfolding lu using m len
      by (intro confined_put_reference [OF D0 progressD(1) [OF s] n none, where m = ?m]) simp_all
    moreover have "cache_at t b (pfx b key)" unfolding rt(2) cache_at_def lu by (simp add: lu)
    moreover have "ref_cache u = ref_cache s" "meta_cache u = meta_cache s" "clock u = clock s"
      using 1(3) by simp_all
    ultimately have "progress env s0 b key t" using s unfolding rt(2) progress_def by simp
    with rt lu show ?thesis by (intro that(1) [of ?m ?f]) (simp_all add: new_reference_def)
  next
    case (2 e)
    then have "r = Inl (EStorage e)" "t = u" using op eq by simp_all
    with 2 show ?thesis
      using progress_ticked [OF s 2(2)] ticked_fields(1) [OF 2(2)] by (intro that(2)) simp_all
  qed
qed

section \<open>The whole store\<close>

text \<open>
  The guarantee of a store: consistency, the frame, and for the key itself either the new object or,
  after an error, the object that was there before.
\<close>

definition store_guarantee ::
  "engine_env \<Rightarrow> engine \<Rightarrow> string \<Rightarrow> string \<Rightarrow> bytes \<Rightarrow> (engine_error, store_result) result \<Rightarrow> engine \<Rightarrow> bool" where
  "store_guarantee env s b key d r t \<longleftrightarrow> consistent env t
     \<and> (\<forall>b' key'. slashless b' \<longrightarrow> validate_object (parse_key b' key') = Inr () \<longrightarrow>
          (b', parse_key b' key') \<noteq> (b, parse_key b key) \<longrightarrow>
          object_view env (lookup_file t) b' (parse_key b' key') = object_view env (lookup_file s) b' (parse_key b' key'))
     \<and> object_view env (lookup_file t) b (parse_key b key) =
         (case r of Inl _ \<Rightarrow> object_view env (lookup_file s) b (parse_key b key)
          | Inr res \<Rightarrow> Some (d, sr_metadata res))"

text \<open>A state in which the variants of the key are untouched shows the same object.\<close>

lemma object_view_untouched:
  assumes D: "disk_ok env D" and k: "plain_name (ok_filename k)"
    and same: "D' (delta_path b (ok_prefix k) (ok_filename k)) = D (delta_path b (ok_prefix k) (ok_filename k))"
      "D' (passthrough_path b (ok_prefix k) (ok_filename k)) = D (passthrough_path b (ok_prefix k) (ok_filename k))"
    and ref: "D' (reference_path b (ok_prefix k)) = D (reference_path b (ok_prefix k))
      \<or> D (reference_path b (ok_prefix k)) = None"
  shows "object_view env D' b k = object_view env D b k"
proof -
  let ?d = "delta_path b (ok_prefix k) (ok_filename k)"
  have r: "resolve_view env D' b k = resolve_view env D b k" using same by (simp add: resolve_view_def)
  have "content_of env D' b k m = content_of env D b k m" if m: "resolve_view env D b k = Some m" for m
  proof -
    from m consider f where "D ?d = Some f" "m = file_meta env (ok_filename k) f"
      | f where "D (passthrough_path b (ok_prefix k) (ok_filename k)) = Some f" "m = file_meta env (ok_filename k) f"
      by (auto simp: resolve_view_def newest_def split: option.splits if_splits)
    then show ?thesis
    proof cases
      case (1 f)
      then have "is_delta m" "D (reference_path b (ok_prefix k)) \<noteq> None"
        using disk_okD(2) [OF D] by (fastforce simp: delta_ok_def file_meta_def)+
      then have "\<exists>rp rs z c. storage_info m = Delta rp rs z c" "D' (reference_path b (ok_prefix k)) = D (reference_path b (ok_prefix k))"
        using ref by (auto simp: is_delta_def split: storage_info.splits)
      then show ?thesis using same(1) by (auto simp: content_of_def split: option.split)
    next
      case (2 f)
      then have "storage_info m = Passthrough" "original_name m = ok_filename k"
        using disk_okD(3) [OF D] k by (auto simp: passthrough_ok_def)
      then show ?thesis using same(2) by (simp add: content_of_def)
    qed
  qed
  with r show ?thesis by (auto simp: object_view_def split: option.splits)
qed

lemma consistent_meta_invalidate:
  assumes "consistent env s" "slashless b"
  shows "consistent env (meta_invalidate b key s)" "meta_at env (meta_invalidate b key s) b key"
proof -
  show "meta_at env (meta_invalidate b key s) b key" by (simp add: meta_at_def)
  show "consistent env (meta_invalidate b key s)"
    using assms by (auto simp: consistent_def disk_cache_ok_def cache_at_def meta_at_def)
qed

lemma object_view_resolve: "object_view env D b k = Some (d, m) \<Longrightarrow> resolve_view env D b k = Some m"
  by (auto simp: object_view_def split: option.splits)

text \<open>From a run that only made progress to the guarantee.\<close>

lemma store_guaranteeI:
  assumes s: "consistent env s" and b: "slashless b" and v: "validate_object (parse_key b key) = Inr ()"
    and p: "progress env (meta_invalidate b key s) b key u"
    and r: "case r of
        Inl _ \<Rightarrow> t = u \<and> object_view env (lookup_file u) b (parse_key b key) = object_view env (lookup_file s) b (parse_key b key)
      | Inr res \<Rightarrow> t = meta_insert b key (sr_metadata res) u
          \<and> object_view env (lookup_file u) b (parse_key b key) = Some (d, sr_metadata res)"
  shows "store_guarantee env s b key d r t"
proof -
  let ?s0 = "meta_invalidate b key s"
  note s0 = consistent_meta_invalidate(1) [OF s b, of key]
  have n: "plain_name (nam b key)" using valid_plain [OF v] .
  have D0: "disk_ok env (lookup_file s)" using s by (simp add: consistent_def disk_cache_ok_def)
  have lt: "lookup_file t = lookup_file u" "ref_cache t = ref_cache u"
    "\<And>c. c \<noteq> meta_cache_key b key \<Longrightarrow> meta_cache t c = meta_cache u c"
    using r by (auto split: sum.splits)
  have "meta_at env t b key"
    using r progressD(4) [OF p] v by (auto simp: meta_at_def object_view_resolve split: sum.splits)
  from progress_consistent [OF s0 b v p lt this] have "consistent env t" .
  moreover have "object_view env (lookup_file t) b' (parse_key b' key') = object_view env (lookup_file s) b' (parse_key b' key')"
    if "validate_object (parse_key b' key') = Inr ()" "(b', parse_key b' key') \<noteq> (b, parse_key b key)" for b' key'
  proof -
    have "(b', ok_prefix (parse_key b' key'), ok_filename (parse_key b' key')) \<noteq> (b, pfx b key, nam b key)"
      using that(2) parse_key_inj [of b key' key] by auto
    from confined_object_view(2) [OF _ progressD(1) [OF p] n valid_plain [OF that(1)] this] D0
    show ?thesis by (simp add: lt(1))
  qed
  moreover have "object_view env (lookup_file t) b (parse_key b key) =
         (case r of Inl _ \<Rightarrow> object_view env (lookup_file s) b (parse_key b key)
          | Inr res \<Rightarrow> Some (d, sr_metadata res))"
    using r by (auto split: sum.splits)
  ultimately show ?thesis by (simp add: store_guarantee_def)
qed

lemma guarantee_unchanged:
  assumes s: "consistent env s" and b: "slashless b" and t: "ticked (meta_invalidate b key s) t"
  shows "store_guarantee env s b key d (Inl e) t"
proof -
  have "consistent env t"
    using consistent_meta_invalidate(1) [OF s b, of key] ticked_fields [OF t] ticked_engine [OF t]
    by (simp add: consistent_def disk_cache_ok_def cache_at_def meta_at_def)
  with ticked_fields(1) [OF t] show ?thesis by (simp add: store_guarantee_def)
qed

lemma ensure_reference_cases:
  assumes op: "ensure_reference env ctx has s = (r, t)" and env: "env_ok env"
    and ctx: "context_for env b key d ctx" and D0: "disk_ok env (lookup_file s0)"
    and s: "progress env s0 b key s" and n: "plain_name (nam b key)" and len: "length d \<le> max_object_size env"
    and has: "has \<longleftrightarrow> lookup_file s (reference_path b (pfx b key)) \<noteq> None"
  obtains m f where "r = Inr m" "progress env s0 b key t"
      "lookup_file t = (lookup_file s)(reference_path b (pfx b key) \<mapsto> f)"
      "has \<Longrightarrow> lookup_file t = lookup_file s"
  | e where "r = Inl e" "progress env s0 b key t" "lookup_file t = lookup_file s"
proof (cases has)
  case False
  with op have "set_reference_baseline env ctx s = (r, t)" by (simp add: ensure_reference_def)
  from set_reference_baseline_cases [OF this env ctx D0 s n len] show ?thesis
    using False has by cases (auto intro: that)
next
  case True
  obtain f where f: "lookup_file s (reference_path b (pfx b key)) = Some f" using True has by auto
  obtain mr u where g: "get_reference_metadata env b (pfx b key) s = (mr, u)" by fastforce
  have eq: "ensure_reference env ctx has s = and_then (map_err EStorage (mr, u)) (\<lambda>m s.
      heal_reference_if_corrupt env b (pfx b key) m s)"
    using True ctx g by (simp add: ensure_reference_def context_for_def)
  from g [unfolded get_reference_metadata_def] show ?thesis
  proof (cases rule: get_object_metadata_cases)
    case (1 f')
    with f have "f' = f" by simp
    moreover from confined_ok(1) [OF progressD(1) [OF s]] f
    obtain m where m: "fxattr f = Some m" "\<not> reference_metadata_is_corrupt m" by (auto simp: reference_ok_def)
    ultimately have "r = Inr m" "t = u"
      using op eq 1(2) by (simp_all add: heal_reference_if_corrupt_def file_meta_def)
    moreover have "progress env s0 b key u" "lookup_file u = lookup_file s"
      using progress_ticked [OF s 1(3)] ticked_fields(1) [OF 1(3)] by simp_all
    moreover have "(lookup_file s)(reference_path b (pfx b key) \<mapsto> f) = lookup_file s"
      using f by (simp add: fun_upd_idem)
    ultimately show ?thesis by (intro that(1) [of m f]) simp_all
  next
    case (2 e)
    then have "r = Inl (EStorage e)" "t = u" using op eq by simp_all
    with 2 show ?thesis
      using progress_ticked [OF s 2(2)] ticked_fields(1) [OF 2(2)] by (intro that(2)) simp_all
  qed
qed

lemma encode_or_rollback_outcome:
  assumes op: "encode_or_rollback env ctx rm has s = (r, t)" and env: "env_ok env"
    and ctx: "context_for env b key d ctx" and D0: "disk_ok env (lookup_file s0)"
    and s: "progress env s0 b key s" and n: "plain_name (nam b key)" and len: "length d \<le> max_object_size env"
    and ref: "lookup_file s = (lookup_file s0)(reference_path b (pfx b key) \<mapsto> rf)"
      "has \<longleftrightarrow> lookup_file s0 (reference_path b (pfx b key)) \<noteq> None" "has \<Longrightarrow> lookup_file s = lookup_file s0"
    and old: "fresh_clock env s0"
  shows "progress env s0 b key t \<and> object_view env (lookup_file t) b (parse_key b key) =
      (case r of Inl _ \<Rightarrow> object_view env (lookup_file s0) b (parse_key b key) | Inr res \<Rightarrow> Some (d, sr_metadata res))"
proof -
  let ?delta = "\<lambda>m. delta_path b (pfx b key) m"
  let ?ref = "reference_path b (pfx b key)"
  obtain er u where e: "encode_and_store env ctx rm has s = (er, u)" by fastforce
  have nodelta: "lookup_file s0 (?delta m) = None" if "\<not> has" for m
    using that ref(2) delta_needs_reference [OF disk_okD(2) [OF D0]] by simp
  have out: "outcome env s0 s b key d er u"
    using n nodelta by (intro encode_and_store_outcome [OF e env ctx s n len _ _ _ _ old]) (auto simp: ref(1))
  show ?thesis
  proof (cases er)
    case (Inr res)
    with op e have "r = Inr res" "t = u" by (simp_all add: encode_or_rollback_def)
    with out Inr show ?thesis by (simp add: outcome_def)
  next
    case (Inl x)
    let ?w = "snd (delete_reference env b (pfx b key) (cache_invalidate (cache_key b (pfx b key)) u))"
    have rt: "r = Inl x" "t = (if has then u else ?w)"
      using op e Inl ctx by (auto simp: encode_or_rollback_def context_for_def)
    have u: "progress env s0 b key u" "lookup_file u = lookup_file s" using out Inl by (simp_all add: outcome_def)
    have dw: "dropped ?ref (cache_invalidate (cache_key b (pfx b key)) u) ?w" by (rule dropped_reference)
    have "progress env s0 b key t"
    proof (cases has)
      case False
      have "lookup_file u (?delta (nam b key)) = None" using u(2) ref(1) nodelta [OF False] by simp
      then show ?thesis unfolding rt(2) using False nodelta [OF False]
        by (auto intro!: progress_dropped [OF progress_caches(1) [OF u(1)] n dw])
    qed (use rt u in simp)
    moreover have "object_view env (lookup_file t) b (parse_key b key) = object_view env (lookup_file s0) b (parse_key b key)"
    proof (cases has)
      case True
      with rt u ref(3) show ?thesis by simp
    next
      case False
      have l: "lookup_file t (?delta (nam b key)) = lookup_file s0 (?delta (nam b key))"
        "lookup_file t (passthrough_path b (pfx b key) (nam b key)) = lookup_file s0 (passthrough_path b (pfx b key) (nam b key))"
        using dw u(2) ref(1) n False rt(2) by (auto simp: dropped_def)
      show ?thesis using False ref(2) by (intro object_view_untouched [OF D0 n l]) simp
    qed
    ultimately show ?thesis using rt(1) by simp
  qed
qed

text \<open>The branch for objects that are not candidates for a delta.\<close>

lemma store_inner_passthrough:
  assumes s: "consistent env s" and b: "slashless b" and v: "validate_object (parse_key b key) = Inr ()"
    and old: "fresh_clock env s" and s1: "ticked (meta_invalidate b key s) s1"
    and ctx: "context_for env b key d ctx"
    and op: "and_then (store_passthrough env ctx s1) (\<lambda>result s.
        let s = snd (delete_delta_idempotent env b (pfx b key) (nam b key) s)
        in (Inr (with_accounting result prior 0), meta_insert b key (sr_metadata result) s)) = (r, t)"
  shows "store_guarantee env s b key d r t"
proof -
  let ?s0 = "meta_invalidate b key s"
  have s0: "disk_cache_ok env ?s0" using consistent_meta_invalidate(1) [OF s b] by (simp add: consistent_def)
  have n: "plain_name (nam b key)" using valid_plain [OF v] .
  have p1: "progress env ?s0 b key s1" by (rule progress_ticked [OF progress_refl [OF s0 b] s1])
  have l1: "lookup_file s1 = lookup_file s" using ticked_fields(1) [OF s1] by simp
  obtain pr u where pu: "store_passthrough env ctx s1 = (pr, u)" by fastforce
  from store_passthrough_cases [OF pu ctx p1 n] show ?thesis
  proof cases
    case (1 res)
    let ?v = "snd (delete_delta_idempotent env b (pfx b key) (nam b key) u)"
    have dv: "dropped (delta_path b (pfx b key) (nam b key)) u ?v" by (rule dropped_delta)
    have pv: "progress env ?s0 b key ?v" by (rule progress_dropped [OF 1(2) n dv]) simp
    have "object_view env (lookup_file ?v) b (parse_key b key) = Some (d, sr_metadata res)"
      using dv 1(3,6) n l1 progressD(2) [OF p1] old
      by (intro passthrough_visible [OF _ 1(4,5), where ?s0.0 = s]) (auto simp: dropped_def)
    with pv show ?thesis
      using op pu 1(1) by (intro store_guaranteeI [OF s b v pv]) (auto simp: with_accounting_def Let_def)
  next
    case (2 e)
    with op pu l1 show ?thesis by (intro store_guaranteeI [OF s b v 2(2)]) auto
  qed
qed

text \<open>The branch that encodes against the reference of the deltaspace.\<close>

lemma store_inner_delta:
  assumes s: "consistent env s" and b: "slashless b" and v: "validate_object (parse_key b key) = Inr ()"
    and old: "fresh_clock env s" and env: "env_ok env" and len: "length d \<le> max_object_size env"
    and s1: "ticked (meta_invalidate b key s) s1" and ctx: "context_for env b key d ctx"
    and op: "and_then (map_err EStorage (has_reference env b (pfx b key) s1)) (\<lambda>has s.
        and_then (ensure_reference env ctx has s) (\<lambda>ref_meta s.
        and_then (encode_or_rollback env ctx ref_meta has s) (\<lambda>result s.
        (Inr (with_accounting result prior (if has then 0 else file_size ref_meta)),
         meta_insert b key (sr_metadata result) s)))) = (r, t)"
  shows "store_guarantee env s b key d r t"
proof -
  let ?s0 = "meta_invalidate b key s" and ?ref = "reference_path b (pfx b key)"
  have s0: "disk_cache_ok env ?s0" using consistent_meta_invalidate(1) [OF s b] by (simp add: consistent_def)
  have D0: "disk_ok env (lookup_file ?s0)" using s0 by (simp add: disk_cache_ok_def)
  have n: "plain_name (nam b key)" using valid_plain [OF v] .
  have old0: "fresh_clock env ?s0" using old by (simp add: fresh_clock_def)
  obtain hr s2 where h: "has_reference env b (pfx b key) s1 = (hr, s2)" by fastforce
  have t2: "ticked ?s0 s2"
    using h ticked_trans [OF s1] by (auto elim: has_reference_cases)
  note p2 = progress_ticked [OF progress_refl [OF s0 b] t2]
  show ?thesis
  proof (cases hr)
    case (Inl e)
    with op h have "r = Inl (EStorage e)" "t = s2" by simp_all
    with guarantee_unchanged [OF s b t2] show ?thesis by simp
  next
    case (Inr has)
    have has: "has \<longleftrightarrow> lookup_file s2 ?ref \<noteq> None"
      using h Inr ticked_fields(1) [OF t2] ticked_fields(1) [OF s1] by (auto elim: has_reference_cases)
    obtain er s3 where e: "ensure_reference env ctx has s2 = (er, s3)" by fastforce
    have op2: "and_then (er, s3) (\<lambda>ref_meta s. and_then (encode_or_rollback env ctx ref_meta has s) (\<lambda>result s.
        (Inr (with_accounting result prior (if has then 0 else file_size ref_meta)),
         meta_insert b key (sr_metadata result) s))) = (r, t)"
      using op h Inr e by simp
    have l2: "lookup_file s2 = lookup_file ?s0" using ticked_fields(1) [OF t2] .
    from ensure_reference_cases [OF e env ctx D0 p2 n len has] show ?thesis
    proof cases
      case (1 m f)
      obtain rr u where w: "encode_or_rollback env ctx m has s3 = (rr, u)" by fastforce
      have out: "progress env ?s0 b key u \<and> object_view env (lookup_file u) b (parse_key b key) =
          (case rr of Inl _ \<Rightarrow> object_view env (lookup_file ?s0) b (parse_key b key) | Inr res \<Rightarrow> Some (d, sr_metadata res))"
        using 1 l2 has by (intro encode_or_rollback_outcome [OF w env ctx D0 1(2) n len _ _ _ old0]) simp_all
      then have pu: "progress env ?s0 b key u" ..
      show ?thesis
        using op2 1(1) w out
        by (intro store_guaranteeI [OF s b v pu]) (cases rr; auto simp: with_accounting_def)
    next
      case (2 x)
      with op2 l2 show ?thesis by (intro store_guaranteeI [OF s b v 2(2)]) auto
    qed
  qed
qed

lemma store_inner_guarantee:
  assumes s: "consistent env s" and b: "slashless b" and old: "fresh_clock env s" and env: "env_ok env"
    and op: "store_inner env b key d ct um mpe s = (r, t)"
  shows "store_guarantee env s b key d r t"
proof -
  let ?s0 = "meta_invalidate b key s"
  let ?ctx = "\<lparr>sc_bucket = b, sc_key = parse_key b key, sc_ds = pfx b key, sc_data = d,
      sc_sha256 = sha256_hex env d, sc_md5 = md5_hex env d, sc_content_type = ct,
      sc_user_metadata = um, sc_multipart_etag = mpe\<rparr>"
  have ctx: "context_for env b key d ?ctx" by (simp add: context_for_def)
  show ?thesis
  proof (cases "length d \<le> max_object_size env \<and> validate_ingest (parse_key b key) = Inr ()")
    case False
    then have "t = ?s0 \<and> (\<exists>e. r = Inl e)"
      using op by (auto simp: store_inner_def validated_key_ingest_def Let_def split: sum.splits if_splits)
    then show ?thesis using guarantee_unchanged [OF s b ticked_refl] by auto
  next
    case True
    then have v: "validate_object (parse_key b key) = Inr ()" using validate_ingest_object by blast
    obtain prior s1 where p: "prior_for_counter env b key ?s0 = (prior, s1)" by fastforce
    have t1: "ticked ?s0 s1" using prior_for_counter_ticked [OF p] .
    have key: "validated_key_ingest b key = Inr (parse_key b key, pfx b key)"
      using True by (simp add: validated_key_ingest_def deltaspace_id_def Let_def)
    show ?thesis
    proof (cases "\<not> compression_enabled (bucket_policies env) b \<or> \<not> is_delta_eligible (nam b key)")
      case pass: True
      show ?thesis
        using op True p key pass
        by (intro store_inner_passthrough [OF s b v old t1 ctx]) (simp add: store_inner_def Let_def)
    next
      case dl: False
      obtain lr s2 where l: "acquire_reference_lock env b (pfx b key) s1 = (lr, s2)" by fastforce
      have t2: "ticked ?s0 s2" using ticked_trans [OF t1 permit_ticked(5) [OF l]] .
      show ?thesis
      proof (cases lr)
        case (Inl e)
        with op True p key dl l have "r = Inl e" "t = s2" by (simp_all add: store_inner_def Let_def)
        with guarantee_unchanged [OF s b t2] show ?thesis by simp
      next
        case (Inr x)
        show ?thesis
          using op True p key dl l Inr
          by (intro store_inner_delta [OF s b v old env _ t2 ctx]) (simp_all add: store_inner_def Let_def)
      qed
    qed
  qed
qed

end
