(* ===== verification/RetrieveCorrect.thy ===== *)
theory RetrieveCorrect
  imports StoreCorrect
begin

text \<open>
  Correctness of the retrieve pipeline: on a consistent state whose storage does not fail during the
  read, a retrieve returns exactly the object that is stored under the key, through the cache or
  past it, and reports a missing object otherwise; and whatever the storage does, bytes that went
  through a reconstruction are returned only when their checksum is the recorded one.
\<close>

section \<open>Reads without faults\<close>

definition calm :: "engine_env \<Rightarrow> engine \<Rightarrow> bool" where
  "calm env s \<longleftrightarrow> (\<forall>n. tick s \<le> n \<longrightarrow> sched env n = None)"

lemma calm_now: "calm env s \<Longrightarrow> sched env (tick s) = None"
  by (simp add: calm_def)

lemma calm_later [simp]:
  "calm env s \<Longrightarrow> calm env (next_tick s)" "calm env s \<Longrightarrow> calm env (meta_insert b key m s)"
  "calm env s \<Longrightarrow> calm env (meta_invalidate b key s)" "calm env s \<Longrightarrow> calm env (cache_put k d s)"
  "calm env s \<Longrightarrow> calm env (cache_invalidate k s)"
  by (auto simp: calm_def)

lemma calm_reads:
  fixes s :: engine
  assumes "calm env s"
  shows "get_object_file env path l s = (case lookup_file s path of
      None \<Rightarrow> (Inl (NotFound (l @ '': '' @ fst (snd path) @ ''/'' @ snd (snd path))), next_tick s)
    | Some f \<Rightarrow> (Inr (fdata f), next_tick s))"
    and "get_object_metadata env path name s = (case lookup_file s path of
      None \<Rightarrow> (Inl (NotFound (fst (snd path) @ ''/'' @ snd (snd path))), next_tick s)
    | Some f \<Rightarrow> (Inr (file_meta env name f), next_tick s))"
  using calm_now [OF assms]
  by (simp_all add: get_object_file_def get_object_metadata_def storage_op_ok)

lemma calm_permits:
  assumes "calm env s"
  shows "acquire_codec_timeout env s = (Inr (), next_tick s)" "spool_acquire env n s = (Inr (), next_tick s)"
    "try_acquire_codec env s = (Inr (), next_tick s)"
  using calm_now [OF assms]
  by (simp_all add: acquire_codec_timeout_def spool_acquire_def try_acquire_codec_def)

lemma resolve_calm:
  assumes "calm env s" "CHR ''/'' \<notin> set (ok_filename k)"
  shows "resolve_metadata_with_migration env b (ok_prefix k) k s
    = (Inr (resolve_view env (lookup_file s) b k), next_tick (next_tick s))"
proof -
  have "resolve_object_metadata env b (ok_prefix k) (full_key k) s
      = (Inr (resolve_view env (lookup_file s) b k), next_tick (next_tick s))"
    using assms
    by (cases "lookup_file s (delta_path b (ok_prefix k) (ok_filename k))";
        cases "lookup_file s (passthrough_path b (ok_prefix k) (ok_filename k))")
      (simp_all add: resolve_object_metadata_def get_delta_metadata_def get_passthrough_metadata_def
        last_segment_full_key calm_reads resolve_view_def tolerate_def Let_def)
  then show ?thesis
    by (simp add: resolve_metadata_with_migration_def split: option.splits)
qed

lemma get_reference_cached_calm:
  assumes "calm env s" "cache_at s b p" "reference_ok env (lookup_file s) b p"
    and "lookup_file s (reference_path b p) = Some f"
  shows "\<exists>h t. get_reference_cached env b p s = (Inr (fdata f, h), t) \<and> calm env t
    \<and> lookup_file t = lookup_file s \<and> meta_cache t = meta_cache s \<and> clock t = clock s
    \<and> (\<forall>c. c \<noteq> cache_key b p \<longrightarrow> ref_cache t c = ref_cache s c) \<and> cache_at t b p"
proof (cases "ref_cache s (cache_key b p)")
  case (Some d)
  with assms(2,4) have "d = fdata f" by (simp add: cache_at_def)
  with Some show ?thesis using assms
    by (intro exI [of _ True] exI [of _ s]) (simp add: get_reference_cached_def)
next
  case None
  obtain m where "fxattr f = Some m" "file_sha256 m = sha256_hex env (fdata f)"
    using assms(3,4) by (auto simp: reference_ok_def)
  then have "load_reference env b p s = (Inr (fdata f), next_tick (next_tick s))"
    using assms(1,4)
    by (simp add: load_reference_def get_reference_def get_reference_metadata_def calm_reads
        reference_integrity_ok_def file_meta_def)
  with None assms(1,4) show ?thesis
    by (intro exI [of _ False] exI [of _ "cache_put (cache_key b p) (fdata f) (next_tick (next_tick s))"])
      (simp add: get_reference_cached_def cache_at_def)
qed

section \<open>Objects of a consistent disk\<close>

text \<open>An object that resolves is a passthrough copy under its name, or a delta with its reference.\<close>

lemma resolve_view_cases:
  assumes D: "disk_ok env D" and n: "plain_name (ok_filename k)" and m: "resolve_view env D b k = Some m"
  obtains f where "D (passthrough_path b (ok_prefix k) (ok_filename k)) = Some f"
      "storage_info m = Passthrough" "original_name m = ok_filename k"
      "object_view env D b k = Some (fdata f, m)"
  | f r d where "D (delta_path b (ok_prefix k) (ok_filename k)) = Some f"
      "D (reference_path b (ok_prefix k)) = Some r" "is_delta m"
      "xdelta3 (codec env) Decode (fdata r) (fdata f) = (d, True)" "sha256_hex env d = file_sha256 m"
      "length d = file_size m" "file_size m \<le> max_object_size env"
      "length (fdata r) \<le> max_object_size env" "object_view env D b k = Some (d, m)"
proof -
  from m consider (delta) f where "D (delta_path b (ok_prefix k) (ok_filename k)) = Some f" "m = file_meta env (ok_filename k) f"
    | (pass) f where "D (passthrough_path b (ok_prefix k) (ok_filename k)) = Some f" "m = file_meta env (ok_filename k) f"
    by (auto simp: resolve_view_def newest_def split: option.splits if_splits)
  then show ?thesis
  proof cases
    case (delta f)
    from disk_okD(2) [OF D, unfolded delta_ok_def] delta obtain r d where
      rd: "is_delta m" "D (reference_path b (ok_prefix k)) = Some r"
        "xdelta3 (codec env) Decode (fdata r) (fdata f) = (d, True)"
        "sha256_hex env d = file_sha256 m" "length d = file_size m" "file_size m \<le> max_object_size env"
      by (fastforce simp: file_meta_def)
    moreover have "length (fdata r) \<le> max_object_size env"
      using disk_okD(1) [OF D, unfolded reference_ok_def] rd(2) by blast
    moreover obtain rp rs z c where "storage_info m = Delta rp rs z c"
      using rd(1) by (auto simp: is_delta_def split: storage_info.splits)
    then have "object_view env D b k = Some (d, m)"
      using m delta(1) rd(2,3) by (simp add: object_view_def content_of_def)
    ultimately show ?thesis using delta that(2) by blast
  next
    case (pass f)
    then have "storage_info m = Passthrough" "original_name m = ok_filename k"
      using disk_okD(3) [OF D, unfolded passthrough_ok_def] n by auto
    moreover from this have "object_view env D b k = Some (fdata f, m)"
      using m pass(1) by (simp add: object_view_def content_of_def)
    ultimately show ?thesis using pass that(1) by blast
  qed
qed

section \<open>Retrieval with resolved metadata\<close>

definition read_ok :: "engine_env \<Rightarrow> string \<Rightarrow> string \<Rightarrow> engine \<Rightarrow> engine \<Rightarrow> bool" where
  "read_ok env b p s t \<longleftrightarrow> lookup_file t = lookup_file s \<and> clock t = clock s \<and> meta_cache t = meta_cache s
     \<and> (\<forall>c. c \<noteq> cache_key b p \<longrightarrow> ref_cache t c = ref_cache s c) \<and> cache_at t b p"

lemma retrieve_with_metadata_calm:
  assumes calm: "calm env s" and dc: "disk_cache_ok env s" and b: "slashless b" and env: "env_ok env"
    and cli: "cli_available (codec env)" and n: "plain_name (ok_filename k)"
    and m: "resolve_view env (lookup_file s) b k = Some m"
  shows "\<exists>resp t. retrieve_with_metadata env b (ok_prefix k) k m s = (Inr resp, t)
    \<and> object_view env (lookup_file s) b k = Some (resp_data resp, m) \<and> resp_metadata resp = m
    \<and> read_ok env b (ok_prefix k) s t"
proof -
  have D: "disk_ok env (lookup_file s)" and ca: "cache_at s b (ok_prefix k)"
    using dc b by (auto simp: disk_cache_ok_def)
  from D n m show ?thesis
  proof (cases rule: resolve_view_cases)
    case (1 f)
    then show ?thesis
      using calm ca by (simp add: retrieve_with_metadata_def get_passthrough_stream_def calm_reads
          passthrough_path_def read_ok_def cache_at_def)
  next
    case (2 f r d)
    obtain rp rs z c where si: "storage_info m = Delta rp rs z c"
      using 2(3) by (auto simp: is_delta_def split: storage_info.splits)
    have max: "max_size (codec env) = max_object_size env" using env by (simp add: env_ok_def)
    show ?thesis
    proof (cases "file_size m > spool_threshold env")
      case True
      have "decode_to_writer (codec env) (fdata r) (fdata f) (file_size m) = Inr d"
        using cli 2 by (intro decode_to_writer_ok) simp_all
      then show ?thesis
        using True si calm 2 ca
        by (simp add: retrieve_with_metadata_def retrieve_delta_spooled_def reconstruct_delta_to_spool_def
            get_reference_metadata_def spool_acquire_pair_def get_reference_to_file_def get_delta_def
            calm_reads calm_permits is_delta_def read_ok_def cache_at_def)
    next
      case False
      obtain h u where g: "get_reference_cached env b (ok_prefix k) s = (Inr (fdata r, h), u)" "calm env u"
        "lookup_file u = lookup_file s" "meta_cache u = meta_cache s" "clock u = clock s"
        "\<forall>c. c \<noteq> cache_key b (ok_prefix k) \<longrightarrow> ref_cache u c = ref_cache s c" "cache_at u b (ok_prefix k)"
        using get_reference_cached_calm [OF calm ca disk_okD(1) [OF D] 2(2)] by blast
      have "decode (codec env) (fdata r) (fdata f) = Inr d"
        using cli 2 max by (intro decode_ok) simp_all
      then have "retrieve_buffered env b (ok_prefix k) k m s = (Inr (d, Some h), next_tick (next_tick u))"
        using si g 2 by (simp add: retrieve_buffered_def fetch_buffered_def get_delta_def calm_reads
            calm_permits reference_or_fallback_def)
      then show ?thesis
        using False si 2 g by (simp add: retrieve_with_metadata_def is_delta_def read_ok_def cache_at_def)
    qed
  qed
qed

section \<open>The whole retrieve\<close>

lemma read_ok_consistent:
  assumes s: "consistent env s" and b: "slashless b" and v: "validate_object (parse_key b key) = Inr ()"
    and t: "read_ok env b (pfx b key) (meta_insert b key m s) t"
    and m: "resolve_view env (lookup_file s) b (parse_key b key) = Some m"
  shows "consistent env t"
proof -
  have lt: "lookup_file t = lookup_file s" "meta_cache t = (meta_cache s)(meta_cache_key b key \<mapsto> m)"
    "\<And>c. c \<noteq> cache_key b (pfx b key) \<Longrightarrow> ref_cache t c = ref_cache s c" "cache_at t b (pfx b key)"
    using t by (simp_all add: read_ok_def)
  have "cache_at t b' p'" if "slashless b'" for b' p'
  proof (cases "b' = b \<and> p' = pfx b key")
    case False
    then have "ref_cache t (cache_key b' p') = ref_cache s (cache_key b' p')"
      using lt(3) cache_key_eq [of b' b p' "pfx b key"] b that by (auto simp: slashless_def)
    with s that lt(1) show ?thesis by (simp add: consistent_def disk_cache_ok_def cache_at_def)
  qed (use lt in simp)
  moreover have "meta_at env t b' key'" if b': "slashless b'" for b' key'
  proof (cases "meta_cache_key b' key' = meta_cache_key b key")
    case True
    then have "b' = b" "parse_key b' key' = parse_key b key"
      using meta_cache_key_eq [of b' b key' key] b b' by (auto simp: slashless_def)
    with True m v show ?thesis by (simp add: meta_at_def lt)
  next
    case False
    with s b' show ?thesis by (simp add: consistent_def meta_at_def lt)
  qed
  moreover have "disk_ok env (lookup_file t)" using s lt(1) by (simp add: consistent_def disk_cache_ok_def)
  ultimately show ?thesis by (simp add: consistent_def disk_cache_ok_def)
qed

lemma retrieve_stream_found:
  assumes s: "consistent env s" and calm: "calm env s" and b: "slashless b" and env: "env_ok env"
    and cli: "cli_available (codec env)" and v: "validate_object (parse_key b key) = Inr ()"
    and m: "resolve_view env (lookup_file s) b (parse_key b key) = Some m"
  shows "\<exists>resp t. retrieve_stream env b key s = (Inr resp, t) \<and> consistent env t \<and> lookup_file t = lookup_file s
    \<and> clock t = clock s \<and> object_view env (lookup_file s) b (parse_key b key) = Some (resp_data resp, resp_metadata resp)"
proof -
  let ?k = "parse_key b key"
  have key: "validated_key b key = Inr (?k, pfx b key)"
    using v by (simp add: validated_key_def deltaspace_id_def Let_def)
  define s1 where "s1 = (if meta_get b key s = None then next_tick (next_tick s) else s)"
  have s1: "consistent env s1" "calm env s1" "lookup_file s1 = lookup_file s" "clock s1 = clock s"
    using s calm by (simp_all add: s1_def consistent_def disk_cache_ok_def cache_at_def meta_at_def)
  have cached: "m' = m" if "meta_get b key s = Some m'" for m'
    using s b m that by (auto simp: consistent_def meta_at_def meta_get_def)
  let ?s2 = "meta_insert b key m s1"
  have dc: "disk_cache_ok env ?s2" using s1(1) by (simp add: consistent_def disk_cache_ok_def cache_at_def)
  obtain resp t where r: "retrieve_with_metadata env b (pfx b key) ?k m ?s2 = (Inr resp, t)"
    "object_view env (lookup_file ?s2) b ?k = Some (resp_data resp, m)" "resp_metadata resp = m"
    "read_ok env b (pfx b key) ?s2 t"
    using retrieve_with_metadata_calm [OF _ dc b env cli valid_plain [OF v], of m] s1 m by auto
  have "retrieve_stream env b key s = (Inr resp, t)"
  proof (cases "meta_get b key s")
    case None
    then show ?thesis
      using key r(1) m resolve_calm [OF calm parse_key_no_slash]
      by (simp add: retrieve_stream_def s1_def)
  next
    case (Some m')
    with cached [OF Some] key r(1) show ?thesis by (simp add: retrieve_stream_def s1_def)
  qed
  moreover have "consistent env t"
    using read_ok_consistent [OF s1(1) b v r(4)] m s1(3) by simp
  moreover have "lookup_file t = lookup_file s" "clock t = clock s" using r(4) s1(3,4) by (simp_all add: read_ok_def)
  ultimately show ?thesis using r(2,3) s1(3) by auto
qed

lemma retrieve_stream_missing:
  assumes s: "consistent env s" and calm: "calm env s" and b: "slashless b"
    and v: "validate_object (parse_key b key) = Inr ()"
    and m: "resolve_view env (lookup_file s) b (parse_key b key) = None"
  shows "\<exists>t. retrieve_stream env b key s = (Inl (ENotFound (full_key (parse_key b key))), t)
    \<and> consistent env t \<and> lookup_file t = lookup_file s \<and> clock t = clock s"
proof -
  let ?k = "parse_key b key"
  have key: "validated_key b key = Inr (?k, pfx b key)"
    using v by (simp add: validated_key_def deltaspace_id_def Let_def)
  have none: "meta_get b key s = None"
    using s b m by (cases "meta_get b key s") (auto simp: consistent_def meta_at_def meta_get_def)
  have pass: "lookup_file s (passthrough_path b (pfx b key) (nam b key)) = None"
    using m by (auto simp: resolve_view_def newest_def split: option.splits)
  let ?t = "next_tick (next_tick (next_tick (next_tick s)))"
  have "retrieve_stream env b key s = (Inl (ENotFound (full_key ?k)), ?t)"
    using key none m pass calm resolve_calm [OF calm parse_key_no_slash]
    by (simp add: retrieve_stream_def try_unmanaged_passthrough_def get_passthrough_metadata_def
        get_passthrough_stream_def calm_reads Let_def)
  moreover have "consistent env ?t"
    using s by (simp add: consistent_def disk_cache_ok_def cache_at_def meta_at_def)
  ultimately show ?thesis by simp
qed

lemma retrieve_calm:
  assumes s: "consistent env s" and calm: "calm env s" and b: "slashless b" and env: "env_ok env"
    and cli: "cli_available (codec env)" and v: "validate_object (parse_key b key) = Inr ()"
  shows "\<exists>t. retrieve env b key s = ((case object_view env (lookup_file s) b (parse_key b key) of
        Some x \<Rightarrow> Inr x | None \<Rightarrow> Inl (ENotFound (full_key (parse_key b key)))), t)
    \<and> consistent env t \<and> lookup_file t = lookup_file s \<and> clock t = clock s"
proof (cases "resolve_view env (lookup_file s) b (parse_key b key)")
  case None
  then have "object_view env (lookup_file s) b (parse_key b key) = None" by (simp add: object_view_def)
  with retrieve_stream_missing [OF s calm b v None] show ?thesis by (auto simp: retrieve_def)
next
  case (Some m)
  from retrieve_stream_found [OF s calm b env cli v Some] show ?thesis by (auto simp: retrieve_def)
qed

end
