(* ===== verification/DeleteCorrect.thy ===== *)
theory DeleteCorrect
  imports RetrieveCorrect
begin

text \<open>
  Correctness of deletion: under every schedule of faults a delete keeps every delta decodable and
  every other object as it was; in particular a reference is reclaimed only when no delta of its
  deltaspace is left.  A delete that succeeds leaves a consistent state, and without faults it
  removes the object for good.
\<close>

section \<open>Reclaiming a reference\<close>

text \<open>When a scan shows no object, the deltaspace has no delta.\<close>

lemma scan_shows_deltas:
  assumes scan: "scan_deltaspace env b p s = (Inr ms, t)" and none: "\<not> has_objects ms"
    and D: "disk_ok env (lookup_file s)"
  shows "lookup_file s (delta_path b p n) = None"
proof (rule ccontr)
  assume "lookup_file s (delta_path b p n) \<noteq> None"
  then obtain f where f: "lookup_file s (delta_path b p n) = Some f" by auto
  then obtain m where m: "fxattr f = Some m" "is_delta m"
    using disk_okD(2) [OF D, unfolded delta_ok_def] by blast
  have "is_data_file (n @ ''.delta'')" by (simp add: is_data_file_def)
  with scan f have "file_meta env (n @ ''.delta'') f \<in> set ms"
    by (auto simp: delta_path_def elim: scan_deltaspace_cases)
  with m none show False
    by (auto simp: has_objects_def list_ex_iff file_meta_def is_delta_def is_reference_def split: storage_info.splits)
qed

lemma reclaim_progress:
  assumes op: "reclaim_reference_bytes env b (pfx b key) ms s = (r, t)"
    and s: "progress env s0 b key s" and n: "plain_name (nam b key)"
    and gone: "\<not> has_objects ms \<Longrightarrow> \<forall>m. lookup_file s (delta_path b (pfx b key) m) = None"
  shows "progress env s0 b key t"
proof (cases "has_objects ms")
  case True
  with op s show ?thesis by (simp add: reclaim_reference_bytes_def)
next
  case False
  have others: "lookup_file s0 (delta_path b (pfx b key) m) = None" if "m \<noteq> nam b key" for m
    using gone [OF False] confined_other [OF progressD(1) [OF s], of "delta_path b (pfx b key) m"] that n by auto
  obtain hr u where h: "has_reference env b (pfx b key) s = (hr, u)" by fastforce
  have tu: "ticked s u" using h by (auto elim: has_reference_cases)
  note pu = progress_ticked [OF s tu]
  obtain dr w where d: "delete_reference env b (pfx b key) u = (dr, w)" by fastforce
  have dw: "dropped (reference_path b (pfx b key)) u w"
    using dropped_reference [of b "pfx b key" u env] d by simp
  have pw: "progress env s0 b key w"
    using gone [OF False] others ticked_fields(1) [OF tu] by (intro progress_dropped [OF pu n dw]) simp
  from op False h d consider "t = u" | "t = w" | "t = cache_invalidate (cache_key b (pfx b key)) w"
    by (cases hr; cases dr) (auto simp: reclaim_reference_bytes_def split: if_splits)
  then show ?thesis using pu pw progress_caches(1) [OF pw] by cases simp_all
qed

section \<open>Deleting the variants\<close>

definition delete_variants :: "engine_env \<Rightarrow> string \<Rightarrow> string \<Rightarrow> string \<Rightarrow> storage_info \<Rightarrow> unit op" where
  "delete_variants env b p n si s = (case si of
     Passthrough \<Rightarrow>
       and_then (map_err EStorage (delete_passthrough env b p n s)) (\<lambda>_ s.
       (Inr (), delete_sibling_variant_best_effort env b p n True s))
   | Delta _ _ _ _ \<Rightarrow>
       and_then (map_err EStorage (delete_delta env b p n s)) (\<lambda>_ s.
       (Inr (), delete_sibling_variant_best_effort env b p n False s))
   | Reference _ \<Rightarrow> (Inl (InvalidArgument ReferenceIsInternal), s))"

lemma sibling_dropped:
  "dropped (if dl then delta_path b p n else passthrough_path b p n) s
     (delete_sibling_variant_best_effort env b p n dl s)"
  using dropped_delta [of b p n s env] dropped_passthrough [of b p n s env]
  by (auto simp: delete_sibling_variant_best_effort_def delete_delta_idempotent_def
      delete_passthrough_idempotent_def split: prod.splits)

lemma delete_variants_progress:
  assumes op: "delete_variants env b (pfx b key) (nam b key) si s = (r, t)"
    and s: "progress env s0 b key s" and n: "plain_name (nam b key)"
  shows "progress env s0 b key t"
proof -
  let ?d = "delta_path b (pfx b key) (nam b key)" and ?p = "passthrough_path b (pfx b key) (nam b key)"
  have step: "progress env s0 b key w" if "progress env s0 b key v" "dropped ?d v w \<or> dropped ?p v w" for v w
    using that progress_dropped [OF that(1) n] by blast
  obtain dr u where d: "delete_object_file env ?d ''delta'' s = (dr, u)" by fastforce
  obtain pr v where p: "delete_object_file env ?p ''passthrough'' s = (pr, v)" by fastforce
  have pu: "progress env s0 b key u" and pv: "progress env s0 b key v"
    using step [OF s] delete_object_file_dropped(1) [OF d] delete_object_file_dropped(1) [OF p] by auto
  have "progress env s0 b key (delete_sibling_variant_best_effort env b (pfx b key) (nam b key) dl w)"
    if "progress env s0 b key w" for dl w
    using step [OF that] sibling_dropped [of dl b "pfx b key" "nam b key" w env] by (cases dl) auto
  with op s d p pu pv show ?thesis
    by (cases si; cases dr; cases pr)
      (auto simp: delete_variants_def delete_delta_def delete_passthrough_def)
qed

section \<open>The whole delete\<close>

definition reclaim_after_scan :: "engine_env \<Rightarrow> string \<Rightarrow> string \<Rightarrow> bool \<Rightarrow> nat op" where
  "reclaim_after_scan env b p rc s =
     (if rc
      then and_then (map_err EStorage (scan_deltaspace env b p s)) (\<lambda>remaining s.
             reclaim_reference_bytes env b p remaining s)
      else (Inr 0, s))"

lemma reclaim_after_scan_progress:
  assumes op: "reclaim_after_scan env b (pfx b key) rc s = (r, t)" and s0: "disk_cache_ok env s0"
    and b: "slashless b" and s: "progress env s0 b key s" and n: "plain_name (nam b key)"
  shows "progress env s0 b key t"
proof (cases rc)
  case False
  with op s show ?thesis by (simp add: reclaim_after_scan_def)
next
  case True
  have D: "disk_ok env (lookup_file s)"
    using progress_disk_cache_ok [OF s0 b n s] by (simp add: disk_cache_ok_def)
  obtain sr u where sc: "scan_deltaspace env b (pfx b key) s = (sr, u)" by fastforce
  have tu: "ticked s u" using sc by (auto elim: scan_deltaspace_cases)
  note pu = progress_ticked [OF s tu]
  show ?thesis
  proof (cases sr)
    case (Inl e)
    with op True sc pu show ?thesis by (simp add: reclaim_after_scan_def)
  next
    case (Inr ms)
    with op True sc have rc: "reclaim_reference_bytes env b (pfx b key) ms u = (r, t)"
      by (simp add: reclaim_after_scan_def)
    show ?thesis
      using scan_shows_deltas [OF sc [unfolded Inr] _ D] ticked_fields(1) [OF tu]
      by (intro reclaim_progress [OF rc pu n]) simp
  qed
qed

lemma delete_inner_eq:
  assumes "validate_object (parse_key b key) = Inr ()"
  shows "delete_inner env b key rc s =
    and_then (resolve_metadata env b (pfx b key) (parse_key b key) s) (\<lambda>r s.
      case r of None \<Rightarrow> (Inl (ENotFound (full_key (parse_key b key))), s) | Some m \<Rightarrow>
      and_then (delete_variants env b (pfx b key) (nam b key) (storage_info m) s) (\<lambda>_ s.
      and_then (reclaim_after_scan env b (pfx b key) rc s) (\<lambda>reclaimed s.
      (Inr m, record_delete env b m reclaimed (meta_invalidate b key s)))))"
  unfolding delete_variants_def reclaim_after_scan_def
  using assms by (simp add: delete_inner_def validated_key_def deltaspace_id_def Let_def)

lemma resolve_metadata_ticked: "resolve_metadata env b p k s = (r, t) \<Longrightarrow> ticked s t"
  by (auto simp: resolve_metadata_def map_err_def split: prod.splits sum.splits dest: resolve_object_metadata_ticked)

lemma delete_inner_progress:
  assumes s: "disk_cache_ok env s" and b: "slashless b" and v: "validate_object (parse_key b key) = Inr ()"
    and op: "delete_inner env b key rc s = (r, t)"
  obtains m u z where "r = Inr m" "progress env s b key u" "t = record_delete env b m z (meta_invalidate b key u)"
  | e where "r = Inl e" "progress env s b key t"
proof -
  have n: "plain_name (nam b key)" using valid_plain [OF v] .
  obtain mr s1 where r1: "resolve_metadata env b (pfx b key) (parse_key b key) s = (mr, s1)" by fastforce
  note p1 = progress_ticked [OF progress_refl [OF s b] resolve_metadata_ticked [OF r1]]
  show ?thesis
  proof (cases "\<exists>m. mr = Inr (Some m)")
    case False
    then show ?thesis
      using op r1 p1 that(2) by (auto simp: delete_inner_eq [OF v] and_then_def split: sum.splits option.splits)
  next
    case True
    then obtain m where m: "mr = Inr (Some m)" ..
    obtain vr s2 where r2: "delete_variants env b (pfx b key) (nam b key) (storage_info m) s1 = (vr, s2)" by fastforce
    note p2 = delete_variants_progress [OF r2 p1 n]
    obtain cr s3 where r3: "reclaim_after_scan env b (pfx b key) rc s2 = (cr, s3)" by fastforce
    note p3 = reclaim_after_scan_progress [OF r3 s b p2 n]
    show ?thesis
      using op r1 m r2 r3 p2 p3 that
      by (cases vr; cases cr) (auto simp: delete_inner_eq [OF v])
  qed
qed

text \<open>What a delete guarantees whatever the storage does.\<close>

lemma delete_inner_guarantee:
  assumes s: "consistent env s" and b: "slashless b" and op: "delete_inner env b key rc s = (r, t)"
  shows "disk_cache_ok env t" and "\<And>m. r = Inr m \<Longrightarrow> consistent env t"
    and "\<And>b' key'. slashless b' \<Longrightarrow> validate_object (parse_key b' key') = Inr () \<Longrightarrow>
          (b', parse_key b' key') \<noteq> (b, parse_key b key) \<Longrightarrow>
          object_view env (lookup_file t) b' (parse_key b' key') = object_view env (lookup_file s) b' (parse_key b' key')"
proof -
  have dc: "disk_cache_ok env s" using s by (simp add: consistent_def)
  then have D0: "disk_ok env (lookup_file s)" by (simp add: disk_cache_ok_def)
  have "disk_cache_ok env t \<and> (\<forall>m. r = Inr m \<longrightarrow> consistent env t)
    \<and> (\<forall>b' key'. slashless b' \<longrightarrow> validate_object (parse_key b' key') = Inr () \<longrightarrow>
          (b', parse_key b' key') \<noteq> (b, parse_key b key) \<longrightarrow>
          object_view env (lookup_file t) b' (parse_key b' key') = object_view env (lookup_file s) b' (parse_key b' key'))"
  proof (cases "validate_object (parse_key b key)")
    case (Inl e)
    with op have "t = s" "\<exists>e. r = Inl e" by (auto simp: delete_inner_def validated_key_def Let_def)
    with dc show ?thesis by auto
  next
    case (Inr x)
    then have v: "validate_object (parse_key b key) = Inr ()" by simp
    note n = valid_plain [OF v]
    have frame: "object_view env (lookup_file u) b' (parse_key b' key') = object_view env (lookup_file s) b' (parse_key b' key')"
      if "progress env s b key u" "validate_object (parse_key b' key') = Inr ()"
        "(b', parse_key b' key') \<noteq> (b, parse_key b key)" for u b' key'
      using that(3) parse_key_inj [of b key' key]
      by (intro confined_object_view(2) [OF D0 progressD(1) [OF that(1)] n valid_plain [OF that(2)]]) auto
    from dc b v op show ?thesis
    proof (cases rule: delete_inner_progress)
      case (1 m u z)
      have "consistent env t"
        using 1(3) by (intro progress_consistent [OF s b v 1(2)]) (auto simp: meta_at_def)
      with 1 frame [OF 1(2)] show ?thesis by (auto simp: consistent_def)
    next
      case (2 e)
      with progress_disk_cache_ok [OF dc b n 2(2)] frame [OF 2(2)] show ?thesis by auto
    qed
  qed
  then show "disk_cache_ok env t" "\<And>m. r = Inr m \<Longrightarrow> consistent env t"
    "\<And>b' key'. slashless b' \<Longrightarrow> validate_object (parse_key b' key') = Inr () \<Longrightarrow>
          (b', parse_key b' key') \<noteq> (b, parse_key b key) \<Longrightarrow>
          object_view env (lookup_file t) b' (parse_key b' key') = object_view env (lookup_file s) b' (parse_key b' key')"
    by blast+
qed

section \<open>A delete without faults\<close>

lemma calm_delete:
  fixes s :: engine
  assumes "calm env s"
  shows "delete_object_file env path l s = (case lookup_file s path of
      None \<Rightarrow> (Inl (NotFound (l @ '': '' @ fst (snd path) @ ''/'' @ snd (snd path))), next_tick s)
    | Some f \<Rightarrow> (Inr (), remove_file path (next_tick s)))"
  using calm_now [OF assms] by (simp add: delete_object_file_def split: option.split)

lemma calm_remove [simp]: "calm env s \<Longrightarrow> calm env (remove_file path s)"
  by (simp add: calm_def remove_file_def)

lemma delete_variants_calm:
  assumes calm: "calm env s" and si: "si = Passthrough \<and> lookup_file s (passthrough_path b p n) \<noteq> None
      \<or> (\<exists>a c d e. si = Delta a c d e) \<and> lookup_file s (delta_path b p n) \<noteq> None" and n: "plain_name n"
  shows "\<exists>t. delete_variants env b p n si s = (Inr (), t) \<and> calm env t \<and>
    lookup_file t = (lookup_file s)(delta_path b p n := None, passthrough_path b p n := None)"
  using si calm n
  by (cases "lookup_file s (delta_path b p n)"; cases "lookup_file s (passthrough_path b p n)")
    (auto simp: delete_variants_def delete_delta_def delete_passthrough_def calm_delete
      delete_sibling_variant_best_effort_def fun_upd_twist fun_upd_idem)

lemma reclaim_after_scan_calm:
  assumes calm: "calm env s"
  shows "\<exists>z t. reclaim_after_scan env b p rc s = (Inr z, t) \<and>
    (lookup_file t = lookup_file s \<or> lookup_file t = (lookup_file s)(reference_path b p := None))"
proof -
  have sc: "\<exists>ms. scan_deltaspace env b p s = (Inr ms, next_tick s)"
    using calm_now [OF calm] by (simp add: scan_deltaspace_def storage_op_def)
  have "\<exists>z t. reclaim_reference_bytes env b p ms u = (Inr z, t) \<and>
    (lookup_file t = lookup_file u \<or> lookup_file t = (lookup_file u)(reference_path b p := None))"
    if u: "calm env u" for ms u
    using u calm_now [OF u]
    by (cases "lookup_file u (reference_path b p)")
      (auto simp: reclaim_reference_bytes_def has_reference_def storage_op_def delete_reference_def calm_delete)
  from this [of "next_tick s"] sc calm show ?thesis by (auto simp: reclaim_after_scan_def)
qed

lemma resolve_metadata_calm:
  assumes "calm env s" "CHR ''/'' \<notin> set (ok_filename k)"
  shows "resolve_metadata env b (ok_prefix k) k s
    = (Inr (resolve_view env (lookup_file s) b k), next_tick (next_tick s))"
  using assms
  by (cases "lookup_file s (delta_path b (ok_prefix k) (ok_filename k))";
      cases "lookup_file s (passthrough_path b (ok_prefix k) (ok_filename k))")
    (simp_all add: resolve_metadata_def resolve_object_metadata_def get_delta_metadata_def
      get_passthrough_metadata_def last_segment_full_key calm_reads resolve_view_def tolerate_def Let_def)

lemma delete_inner_calm:
  assumes s: "consistent env s" and calm: "calm env s" and v: "validate_object (parse_key b key) = Inr ()"
  shows "\<exists>t. delete_inner env b key rc s = ((case object_view env (lookup_file s) b (parse_key b key) of
        Some (d, m) \<Rightarrow> Inr m | None \<Rightarrow> Inl (ENotFound (full_key (parse_key b key)))), t)
    \<and> object_view env (lookup_file t) b (parse_key b key) = None"
proof -
  let ?k = "parse_key b key" and ?D = "lookup_file s"
  have D: "disk_ok env ?D" using s by (simp add: consistent_def disk_cache_ok_def)
  note n = valid_plain [OF v] and r = resolve_metadata_calm [OF calm parse_key_no_slash]
  show ?thesis
  proof (cases "resolve_view env ?D b ?k")
    case None
    then have "object_view env ?D b ?k = None" by (simp add: object_view_def)
    with None r show ?thesis by (simp add: delete_inner_eq [OF v])
  next
    case (Some m)
    have si: "storage_info m = Passthrough \<and> ?D (passthrough_path b (pfx b key) (nam b key)) \<noteq> None
      \<or> (\<exists>a c d e. storage_info m = Delta a c d e) \<and> ?D (delta_path b (pfx b key) (nam b key)) \<noteq> None"
      and ov: "\<exists>d. object_view env ?D b ?k = Some (d, m)"
      by (rule resolve_view_cases [OF D n Some]; auto simp: is_delta_def split: storage_info.splits)+
    obtain u where u: "delete_variants env b (pfx b key) (nam b key) (storage_info m) (next_tick (next_tick s)) = (Inr (), u)"
      "calm env u" "lookup_file u = ?D(delta_path b (pfx b key) (nam b key) := None, passthrough_path b (pfx b key) (nam b key) := None)"
      using delete_variants_calm [of env "next_tick (next_tick s)" "storage_info m" b "pfx b key" "nam b key"] calm si n by auto
    obtain z w where w: "reclaim_after_scan env b (pfx b key) rc u = (Inr z, w)"
      "lookup_file w = lookup_file u \<or> lookup_file w = (lookup_file u)(reference_path b (pfx b key) := None)"
      using reclaim_after_scan_calm [OF u(2)] by blast
    have "resolve_view env (lookup_file w) b ?k = None"
      using w(2) u(3) by (auto simp: resolve_view_def newest_def)
    with u(1) w(1) r Some ov show ?thesis by (auto simp: delete_inner_eq [OF v] object_view_def)
  qed
qed

end
