(* ===== verification/History.thy ===== *)
theory History
  imports DeleteCorrect
begin

text \<open>
  Histories of requests.  The engine is seen as an object store: the interface \<open>object_store\<close> states
  what a client relies on, the engine is shown to provide it, and the states that requests can lead
  to are related to the map from object names to bodies that the acknowledged requests describe.
\<close>

section \<open>Time\<close>

text \<open>Every stored object carries a time that has passed; a request starts at a later instant.\<close>

definition dated :: "engine_env \<Rightarrow> engine \<Rightarrow> bool" where
  "dated env s \<longleftrightarrow> (\<forall>path f n. lookup_file s path = Some f \<longrightarrow> created_at (file_meta env n f) \<le> clock s)"

definition later :: "engine \<Rightarrow> engine" where
  "later s = s\<lparr>clock := clock s + 1\<rparr>"

definition aged :: "engine_env \<Rightarrow> engine \<Rightarrow> engine \<Rightarrow> bool" where
  "aged env s t \<longleftrightarrow> clock t = clock s \<and> (dated env s \<longrightarrow> dated env t)"

lemma lookup_later [simp]: "lookup_file (later s) = lookup_file s"
  by (simp add: later_def lookup_file_def fun_eq_iff)

lemma later_fields [simp]:
  "ref_cache (later s) = ref_cache s" "meta_cache (later s) = meta_cache s" "tick (later s) = tick s"
  "clock (later s) = clock s + 1" "bucket_dirs (later s) = bucket_dirs s"
  by (simp_all add: later_def)

lemma dated_fresh: "dated env s \<Longrightarrow> fresh_clock env (later s)"
  unfolding dated_def fresh_clock_def by (simp add: order.strict_trans1)

lemma dated_later: "dated env s \<Longrightarrow> dated env (later s)"
  unfolding dated_def by (simp add: add_increasing2)

lemma aged_refl [simp]: "aged env s s"
  by (simp add: aged_def)

lemma aged_trans: "aged env s t \<Longrightarrow> aged env t u \<Longrightarrow> aged env s u"
  by (simp add: aged_def)

lemma aged_same: "lookup_file t = lookup_file s \<Longrightarrow> clock t = clock s \<Longrightarrow> aged env s t"
  by (simp add: aged_def dated_def)

lemma aged_ticked: "ticked s t \<Longrightarrow> aged env s t"
  using ticked_fields [of s t] by (intro aged_same) simp_all

lemma aged_caches [simp]:
  "aged env s (cache_invalidate c s)" "aged env s (cache_put c d s)" "aged env s (meta_insert b key m s)"
  "aged env s (meta_invalidate b key s)" "aged env s (record_store env b r s)" "aged env s (record_delete env b m z s)"
  by (intro aged_same; simp)+

lemma datedD: "dated env s \<Longrightarrow> lookup_file s q = Some f \<Longrightarrow> created_at (file_meta env n f) \<le> clock s"
  unfolding dated_def by blast

lemma dated_remove:
  assumes "dated env s" "lookup_file t = (lookup_file s)(path := None)" "clock t = clock s"
  shows "dated env t"
  unfolding dated_def
proof (intro allI impI)
  fix q f n assume "lookup_file t q = Some f"
  with assms(2) have "lookup_file s q = Some f" by (simp split: if_splits)
  with datedD [OF assms(1)] assms(3) show "created_at (file_meta env n f) \<le> clock t" by simp
qed

lemma dated_write:
  assumes "dated env s" "lookup_file t = (lookup_file s)(path \<mapsto> f)" "clock t = clock s"
    and "\<And>n. created_at (file_meta env n f) \<le> clock s"
  shows "dated env t"
  unfolding dated_def
proof (intro allI impI)
  fix q g n assume "lookup_file t q = Some g"
  with assms(2,3,4) datedD [OF assms(1)] show "created_at (file_meta env n g) \<le> clock t"
    by (cases "q = path") auto
qed

lemma aged_dropped: "dropped path s t \<Longrightarrow> aged env s t"
  using dated_remove [of env s t path] aged_same [of t s env] by (auto simp: dropped_def aged_def)

lemma aged_storage_op:
  "aged env (next_tick s) (snd (f (next_tick s))) \<Longrightarrow> aged env s (snd (storage_op env f s))"
  by (auto simp: storage_op_def aged_ticked split: option.splits fault.splits
      intro: aged_trans [OF aged_ticked [OF ticked_next]])

lemma aged_write:
  assumes "\<And>n. created_at (file_meta env n f) \<le> clock s"
  shows "aged env s (write_file path f s)"
  using dated_write [of env s "write_file path f s" path f] assms by (simp add: aged_def)

lemma aged_remove: "aged env s (remove_file path s)"
  using dated_remove [of env s "remove_file path s" path] by (simp add: aged_def)

lemma created_at_fallback [simp]: "created_at (fallback_metadata_from_path env len t n) = t"
  by (simp add: fallback_metadata_from_path_def fallback_metadata_def)

lemma aged_put:
  assumes "put_object_file env b path d m s = (r, t)" "created_at m = clock s"
  shows "aged env s t"
  using assms(1)
proof (cases rule: put_object_file_cases)
  case 1
  with assms(2) show ?thesis
    by (auto simp: file_meta_def intro!: aged_trans [OF aged_ticked [OF ticked_next] aged_write])
qed (simp add: aged_ticked)

lemma aged_and_then:
  assumes "aged env s (snd p)" "\<And>x u. p = (Inr x, u) \<Longrightarrow> aged env u (snd (k x u))"
  shows "aged env s (snd (and_then p k))"
  using assms by (cases p; cases "fst p") (auto simp: and_then_def intro: aged_trans)

lemma snd_map_err [simp]: "snd (map_err f p) = snd p"
  by (cases p) (simp add: map_err_def split: sum.splits)

section \<open>The store keeps the times in order\<close>

lemma aged_primitives [intro]:
  "created_at m = clock s \<Longrightarrow> aged env s (snd (put_object_file env b path d m s))"
  "aged env s (snd (delete_object_file env path l s))"
  "aged env s (snd (get_object_metadata env path n s))"
  "aged env s (snd (has_reference env b p s))"
  "aged env s (snd (get_reference_cached env b p s))"
  "aged env s (snd (try_acquire_codec env s))"
  "aged env s (snd (acquire_reference_lock env b p s))"
  "aged env s (snd (spool_acquire env z s))"
  "aged env s (snd (get_reference_to_file env b p s))"
proof -
  show "created_at m = clock s \<Longrightarrow> aged env s (snd (put_object_file env b path d m s))"
    by (cases "put_object_file env b path d m s") (simp add: aged_put)
  show "aged env s (snd (delete_object_file env path l s))"
    by (cases "delete_object_file env path l s") (simp add: aged_dropped [OF delete_object_file_dropped(1)])
  show "aged env s (snd (get_object_metadata env path n s))"
    by (cases "get_object_metadata env path n s") (auto elim: get_object_metadata_cases simp: aged_ticked)
  show "aged env s (snd (has_reference env b p s))"
    by (cases "has_reference env b p s") (auto elim: has_reference_cases simp: aged_ticked)
  show "aged env s (snd (try_acquire_codec env s))" "aged env s (snd (acquire_reference_lock env b p s))"
    "aged env s (snd (spool_acquire env z s))"
    by (cases "try_acquire_codec env s", simp add: aged_ticked permit_ticked,
        cases "acquire_reference_lock env b p s", simp add: aged_ticked permit_ticked,
        cases "spool_acquire env z s", simp add: aged_ticked permit_ticked)
  show "aged env s (snd (get_reference_to_file env b p s))"
    by (cases "get_reference_to_file env b p s")
      (auto simp: get_reference_to_file_def aged_ticked elim: get_object_file_cases)
  show "aged env s (snd (get_reference_cached env b p s))"
  proof (cases "ref_cache s (cache_key b p)")
    case None
    have "aged env s (snd (load_reference env b p s))"
      by (cases "load_reference env b p s") (auto elim: load_reference_cases simp: aged_ticked)
    with None show ?thesis by (auto simp: get_reference_cached_def intro!: aged_and_then)
  qed (simp add: get_reference_cached_def)
qed

lemma aged_put_reference_from_file:
  assumes "created_at m = clock s"
  shows "aged env s (snd (put_reference_from_file env b p d m s))"
proof -
  have wr: "aged env u (snd (storage_op env (\<lambda>s. (Inr (),
      write_file (reference_path b p) \<lparr>fdata = d, fxattr = x, fmtime = clock s\<rparr> s)) u))"
    if "\<And>m. x = Some m \<Longrightarrow> created_at m = clock u" for x u
    using that by (intro aged_storage_op) (auto simp: file_meta_def intro!: aged_write split: option.split)
  define p1 where "p1 = storage_op env (\<lambda>s. if b \<notin> set (bucket_dirs s) then (Inl (BucketNotFound b), s) else (Inr (), s)) s"
  have a1: "aged env s (snd p1)" unfolding p1_def by (intro aged_storage_op) simp
  show ?thesis
    unfolding put_reference_from_file_def p1_def [symmetric]
  proof (rule aged_and_then [OF a1], rule aged_and_then)
    fix x u assume "p1 = (Inr x, u)"
    then have "clock u = clock s" using a1 by (simp add: aged_def)
    have w: "aged env (remove_file (reference_path b p) u) (snd (storage_op env (\<lambda>s. (Inr (),
      write_file (reference_path b p) \<lparr>fdata = d, fxattr = None, fmtime = clock s\<rparr> s)) (remove_file (reference_path b p) u)))"
      by (rule wr) simp
    then show "aged env u (snd (storage_op env (\<lambda>s. (Inr (),
      write_file (reference_path b p) \<lparr>fdata = d, fxattr = None, fmtime = clock s\<rparr> s)) (remove_file (reference_path b p) u)))"
      using aged_remove aged_trans by blast
    fix y v assume "storage_op env (\<lambda>s. (Inr (), write_file (reference_path b p) \<lparr>fdata = d, fxattr = None, fmtime = clock s\<rparr> s))
        (remove_file (reference_path b p) u) = (Inr y, v)"
    with w have "clock v = clock s" using \<open>clock u = clock s\<close> by (simp add: aged_def)
    with assms show "aged env v (snd (storage_op env (\<lambda>s. (Inr (),
      write_file (reference_path b p) \<lparr>fdata = d, fxattr = Some m, fmtime = clock s\<rparr> s)) v))"
      by (intro wr) simp
  qed
qed

lemma created_at_new [simp]:
  "created_at (new_passthrough t n sha m z ct) = t"
  "created_at (new_delta t n sha m z rp rs dz ct) = t"
  "created_at (new_reference t n sk sha m z ct) = t"
  by (simp_all add: new_passthrough_def new_delta_def new_reference_def)

lemma aged_store_passthrough: "aged env s (snd (store_passthrough env ctx s))"
  unfolding store_passthrough_def Let_def put_passthrough_def
  by (rule aged_and_then) (auto simp: intro!: aged_primitives)

lemma aged_idempotent [intro]:
  "aged env s (snd (delete_delta_idempotent env b p n s))"
  "aged env s (snd (delete_passthrough_idempotent env b p n s))"
  "aged env s (snd (delete_reference env b p s))"
  using dropped_delta dropped_passthrough dropped_reference aged_dropped by blast+

lemma aged_clock: "aged env s t \<Longrightarrow> clock t = clock s"
  by (simp add: aged_def)

lemma aged_commit: "aged env s (snd (commit_delta_or_passthrough env ctx rm has dl ratio s))"
proof -
  have "aged env u (snd (delete_reference env b p (cache_invalidate c (snd (delete_delta_idempotent env b p n u)))))" for b p c n u
    using aged_trans [OF aged_trans [OF aged_idempotent(1) aged_caches(1)] aged_idempotent(3)] .
  then show ?thesis
    unfolding commit_delta_or_passthrough_def Let_def put_delta_def
    by (auto intro!: aged_and_then aged_store_passthrough aged_primitives aged_idempotent)
qed

lemma aged_encode_and_store: "aged env s (snd (encode_and_store env ctx rm has s))"
  unfolding encode_and_store_def
  by (auto intro!: aged_and_then aged_primitives aged_commit split: prod.splits sum.splits)

lemma aged_encode_or_rollback: "aged env s (snd (encode_or_rollback env ctx rm has s))"
proof -
  obtain r u where e: "encode_and_store env ctx rm has s = (r, u)" by fastforce
  with aged_encode_and_store [of env s ctx rm has] have "aged env s u" by simp
  with e show ?thesis
    by (auto simp: encode_or_rollback_def split: sum.split
        intro: aged_trans [OF _ aged_trans [OF aged_caches(1) aged_idempotent(3)]])
qed

lemma aged_ensure_reference: "aged env s (snd (ensure_reference env ctx has s))"
proof -
  have heal: "aged env u (snd (heal_reference_if_corrupt env b p m u))" for b p m u
    unfolding heal_reference_if_corrupt_def Let_def
    by (auto intro!: aged_and_then aged_primitives aged_put_reference_from_file split: prod.splits)
  have base: "aged env s (snd (set_reference_baseline env ctx s))"
    unfolding set_reference_baseline_def Let_def put_reference_def
    by (auto intro!: aged_and_then aged_primitives)
  show ?thesis
    unfolding ensure_reference_def get_reference_metadata_def
    using base by (auto intro!: aged_and_then aged_primitives heal)
qed

lemma aged_store_inner: "aged env s (snd (store_inner env b key d ct um mpe s))"
proof -
  obtain prior s1 where p: "prior_for_counter env b key (meta_invalidate b key s) = (prior, s1)" by fastforce
  have s1: "aged env s s1"
    using aged_trans [OF aged_caches(4) aged_ticked [OF prior_for_counter_ticked [OF p]]] .
  have tail: "aged env s (snd X)" if "aged env s1 (snd X)" for X :: "(engine_error, store_result) result \<times> engine"
    using aged_trans [OF s1 that] .
  show ?thesis
    unfolding store_inner_def Let_def p prod.case
    by (auto split: sum.splits prod.splits intro!: tail aged_and_then aged_store_passthrough aged_primitives
        aged_ensure_reference aged_encode_or_rollback aged_trans [OF aged_idempotent(1) aged_caches(3)])
qed

lemma aged_delete_inner:
  assumes "validate_object (parse_key b key) = Inr ()"
  shows "aged env s (snd (delete_inner env b key rc s))"
proof -
  have var: "aged env u (snd (delete_variants env b (pfx b key) (nam b key) si u))" for si u
    by (auto simp: delete_variants_def delete_passthrough_def delete_delta_def split: storage_info.split
        intro!: aged_and_then aged_primitives aged_dropped [OF sibling_dropped])
  have scan: "aged env u (snd (scan_deltaspace env b (pfx b key) u))" for u
    by (cases "scan_deltaspace env b (pfx b key) u") (auto elim: scan_deltaspace_cases simp: aged_ticked)
  have rec: "aged env u (snd (reclaim_after_scan env b (pfx b key) rc u))" for u
    using scan by (auto simp: reclaim_after_scan_def reclaim_reference_bytes_def
        intro!: aged_and_then aged_primitives aged_idempotent)
  have res: "aged env s (snd (resolve_metadata env b (pfx b key) (parse_key b key) s))"
    by (cases "resolve_metadata env b (pfx b key) (parse_key b key) s") (simp add: aged_ticked resolve_metadata_ticked)
  show ?thesis
    unfolding delete_inner_eq [OF assms]
    by (auto intro!: aged_and_then res var rec aged_trans [OF aged_caches(4) aged_caches(6)] split: option.split)
qed

section \<open>The schedule of faults does not matter for what is stored\<close>

lemma sched_irrelevant [simp]:
  fixes env :: engine_env
  shows "file_meta (env\<lparr>sched := f\<rparr>) = file_meta env"
    and "object_view (env\<lparr>sched := f\<rparr>) = object_view env"
    and "resolve_view (env\<lparr>sched := f\<rparr>) = resolve_view env"
    and "consistent (env\<lparr>sched := f\<rparr>) s = consistent env s"
    and "disk_cache_ok (env\<lparr>sched := f\<rparr>) s = disk_cache_ok env s"
    and "dated (env\<lparr>sched := f\<rparr>) s = dated env s"
    and "fresh_clock (env\<lparr>sched := f\<rparr>) s = fresh_clock env s"
    and "env_ok (env\<lparr>sched := f\<rparr>) = env_ok env"
proof -
  show fm: "file_meta (env\<lparr>sched := f\<rparr>) = file_meta env"
    by (intro ext)
      (simp add: file_meta_def fallback_metadata_from_path_def synthesise_unmanaged_etag_def split: option.split)
  show rv: "resolve_view (env\<lparr>sched := f\<rparr>) = resolve_view env"
    by (intro ext) (simp add: resolve_view_def fm)
  have "codec (env\<lparr>sched := f\<rparr>) = codec env" by simp
  then show "object_view (env\<lparr>sched := f\<rparr>) = object_view env"
    unfolding object_view_def content_of_def rv by metis
  have "disk_ok (env\<lparr>sched := f\<rparr>) D = disk_ok env D" for D
    by (simp add: disk_ok_def reference_ok_def delta_ok_def passthrough_ok_def fm)
  then show dc: "disk_cache_ok (env\<lparr>sched := f\<rparr>) s = disk_cache_ok env s"
    by (simp add: disk_cache_ok_def)
  show "consistent (env\<lparr>sched := f\<rparr>) s = consistent env s"
    by (simp add: consistent_def dc meta_at_def rv)
  show "dated (env\<lparr>sched := f\<rparr>) s = dated env s" "fresh_clock (env\<lparr>sched := f\<rparr>) s = fresh_clock env s"
    by (simp_all add: dated_def fresh_clock_def fm)
  show "env_ok (env\<lparr>sched := f\<rparr>) = env_ok env"
    by (simp add: env_ok_def)
qed

section \<open>What a client of the store relies on\<close>

text \<open>
  The operations of a store of objects: a write runs under circumstances that it has no influence on
  and says whether it was acknowledged; a read returns the body, if there is one.  Different keys can
  name the same object.
\<close>

locale object_store =
  fixes inv :: "'s \<Rightarrow> bool" and valid :: "'k \<Rightarrow> bool" and obj :: "'k \<Rightarrow> 'o"
    and view :: "'s \<Rightarrow> 'k \<Rightarrow> 'd option"
    and put :: "'c \<Rightarrow> 'k \<Rightarrow> 'd \<Rightarrow> 's \<Rightarrow> bool \<times> 's"
    and get :: "'k \<Rightarrow> 's \<Rightarrow> 'd option \<times> 's"
    and del :: "'k \<Rightarrow> 's \<Rightarrow> bool \<times> 's"
  assumes put_inv: "inv s \<Longrightarrow> valid k \<Longrightarrow> inv (snd (put c k d s))"
    and put_view: "inv s \<Longrightarrow> valid k \<Longrightarrow> valid k' \<Longrightarrow>
      view (snd (put c k d s)) k' = (if fst (put c k d s) \<and> obj k' = obj k then Some d else view s k')"
    and get_inv: "inv s \<Longrightarrow> valid k \<Longrightarrow> inv (snd (get k s))"
    and get_view: "inv s \<Longrightarrow> valid k \<Longrightarrow> valid k' \<Longrightarrow> view (snd (get k s)) k' = view s k'"
    and get_result: "inv s \<Longrightarrow> valid k \<Longrightarrow> fst (get k s) = view s k"
    and del_inv: "inv s \<Longrightarrow> valid k \<Longrightarrow> inv (snd (del k s))"
    and del_view: "inv s \<Longrightarrow> valid k \<Longrightarrow> valid k' \<Longrightarrow>
      view (snd (del k s)) k' = (if obj k' = obj k then None else view s k')"
begin

lemma read_own_write:
  assumes "inv s" "valid k" "put c k d s = (True, t)"
  shows "fst (get k t) = Some d"
  using assms put_inv [of s k c d] put_view [of s k k c d] get_result [of t k] by simp

lemma refused_write_is_invisible:
  assumes "inv s" "valid k" "valid k'" "put c k d s = (False, t)"
  shows "fst (get k' t) = fst (get k' s)"
  using assms put_inv [of s k c d] put_view [of s k k' c d] get_result [of t k'] get_result [of s k'] by simp

lemma delete_then_read:
  assumes "inv s" "valid k"
  shows "fst (get k (snd (del k s))) = None"
  using assms del_inv [of s k] del_view [of s k k] get_result [of "snd (del k s)" k] by simp

lemma operations_on_others:
  assumes "inv s" "valid k" "valid k'" "obj k' \<noteq> obj k"
  shows "fst (get k' (snd (put c k d s))) = fst (get k' s)"
    and "fst (get k' (snd (del k s))) = fst (get k' s)"
  using assms put_inv [of s k c d] put_view [of s k k' c d] del_inv [of s k] del_view [of s k k'] get_result
  by simp_all

end

section \<open>The engine as an object store\<close>

definition put_request ::
  "engine_env \<Rightarrow> (nat \<Rightarrow> fault option) \<Rightarrow> string \<Rightarrow> string \<Rightarrow> bytes \<Rightarrow> string option
     \<Rightarrow> (string \<rightharpoonup> string) \<Rightarrow> store_result op" where
  "put_request env f b key d ct um s = store (env\<lparr>sched := f\<rparr>) b key d ct um (later s)"

definition get_request :: "engine_env \<Rightarrow> string \<Rightarrow> string \<Rightarrow> (bytes \<times> file_metadata) op" where
  "get_request env b key s = retrieve (env\<lparr>sched := \<lambda>_. None\<rparr>) b key s"

definition delete_request :: "engine_env \<Rightarrow> string \<Rightarrow> string \<Rightarrow> file_metadata op" where
  "delete_request env b key s = delete_object (env\<lparr>sched := \<lambda>_. None\<rparr>) b key s"

definition engine_inv :: "engine_env \<Rightarrow> engine \<Rightarrow> bool" where
  "engine_inv env s \<longleftrightarrow> env_ok env \<and> cli_available (codec env) \<and> consistent env s \<and> dated env s"

definition valid_key :: "string \<times> string \<Rightarrow> bool" where
  "valid_key k \<longleftrightarrow> slashless (fst k) \<and> validate_object (parse_key (fst k) (snd k)) = Inr ()"

definition object_named :: "string \<times> string \<Rightarrow> string \<times> object_key" where
  "object_named k = (fst k, parse_key (fst k) (snd k))"

definition body_view :: "engine_env \<Rightarrow> engine \<Rightarrow> string \<times> string \<Rightarrow> bytes option" where
  "body_view env s k = map_option fst (object_view env (lookup_file s) (fst k) (parse_key (fst k) (snd k)))"

lemma calm_none [simp]: "calm (env\<lparr>sched := \<lambda>_. None\<rparr>) s"
  by (simp add: calm_def)

lemma consistent_later [simp]: "consistent env (later s) = consistent env s"
  by (simp add: consistent_def disk_cache_ok_def cache_at_def meta_at_def)

lemma record_store_keeps:
  "lookup_file (record_store env b r s) = lookup_file s" "clock (record_store env b r s) = clock s"
  "consistent env (record_store e b r s) = consistent env s" "dated env (record_store e b r s) = dated env s"
  by (simp_all add: consistent_def disk_cache_ok_def cache_at_def meta_at_def dated_def)

text \<open>A write, whatever faults it meets: the guarantee of the store, with the counter recorded.\<close>

lemma put_request_guarantee:
  assumes s: "engine_inv env s" and b: "slashless b"
    and op: "put_request env f b key d ct um s = (r, t)"
  shows "store_guarantee env s b key d r t" and "engine_inv env t"
    and "\<And>res. r = Inr res \<Longrightarrow> validate_object (parse_key b key) = Inr ()"
proof -
  let ?env = "env\<lparr>sched := f\<rparr>"
  obtain r' u where op': "store_inner ?env b key d ct um None (later s) = (r', u)" by fastforce
  have "store_guarantee ?env (later s) b key d r' u"
    using s b dated_fresh [of env s] by (intro store_inner_guarantee [OF _ _ _ _ op']) (simp_all add: engine_inv_def)
  then have g: "store_guarantee env s b key d r' u" by (cases r') (simp_all add: store_guarantee_def)
  have "aged ?env (later s) u" using aged_store_inner [of ?env "later s" b key d ct um None] op' by simp
  then have du: "dated env u" using s by (simp add: aged_def engine_inv_def dated_later)
  have rt: "r = r'" "lookup_file t = lookup_file u" "consistent env t = consistent env u" "dated env t = dated env u"
    using op op' by (auto simp: put_request_def store_def and_then_def record_store_keeps split: sum.splits)
  then show "store_guarantee env s b key d r t" "engine_inv env t"
    using g du s by (cases r'; simp add: store_guarantee_def engine_inv_def)+
  show "validate_object (parse_key b key) = Inr ()" if "r = Inr res" for res
    using that rt(1) op' validate_ingest_object [of "parse_key b key"]
    by (auto simp: store_inner_def validated_key_ingest_def Let_def split: sum.splits if_splits)
qed

lemma get_request_result:
  assumes s: "engine_inv env s" and k: "valid_key (b, key)"
  shows "\<exists>t. get_request env b key s = ((case object_view env (lookup_file s) b (parse_key b key) of
        Some x \<Rightarrow> Inr x | None \<Rightarrow> Inl (ENotFound (full_key (parse_key b key)))), t)
    \<and> engine_inv env t \<and> lookup_file t = lookup_file s"
  using retrieve_calm [of "env\<lparr>sched := \<lambda>_. None\<rparr>" s b key] s k
  by (auto simp: get_request_def engine_inv_def valid_key_def dated_def)

lemma delete_request_result:
  assumes s: "engine_inv env s" and k: "valid_key (b, key)"
  shows "\<exists>t. delete_request env b key s = ((case object_view env (lookup_file s) b (parse_key b key) of
        Some (d, m) \<Rightarrow> Inr m | None \<Rightarrow> Inl (ENotFound (full_key (parse_key b key)))), t)
    \<and> engine_inv env t
    \<and> (\<forall>k'. valid_key k' \<longrightarrow>
          body_view env t k' = (if object_named k' = object_named (b, key) then None else body_view env s k'))"
proof -
  let ?env = "env\<lparr>sched := \<lambda>_. None\<rparr>" and ?k = "parse_key b key"
  have v: "validate_object ?k = Inr ()" and b: "slashless b" using k by (simp_all add: valid_key_def)
  have cs: "consistent ?env s" using s by (simp add: engine_inv_def)
  obtain t where t: "delete_inner ?env b key True s = ((case object_view env (lookup_file s) b ?k of
        Some (d, m) \<Rightarrow> Inr m | None \<Rightarrow> Inl (ENotFound (full_key ?k))), t)"
      "object_view env (lookup_file t) b ?k = None"
    using delete_inner_calm [OF cs calm_none v, of True] by auto
  note g = delete_inner_guarantee [OF cs b t(1)]
  have "consistent env t"
  proof (cases "object_view env (lookup_file s) b ?k")
    case (Some x)
    with g(2) show ?thesis by (cases x) simp
  next
    case None
    have "resolve_view env (lookup_file s) b ?k = None"
      using None resolve_view_cases [of ?env "lookup_file s" ?k b] valid_plain [OF v] cs
      by (cases "resolve_view env (lookup_file s) b ?k") (force simp: consistent_def disk_cache_ok_def)+
    then have "t = next_tick (next_tick s)"
      using t(1) None resolve_metadata_calm [of ?env s ?k b] parse_key_no_slash [of b key]
      by (simp add: delete_inner_eq [OF v])
    with s show ?thesis by (simp add: engine_inv_def consistent_def disk_cache_ok_def cache_at_def meta_at_def)
  qed
  moreover have "dated env t"
    using aged_delete_inner [OF v, of ?env s True] t(1) s by (simp add: aged_def engine_inv_def)
  moreover have "body_view env t k' = (if object_named k' = object_named (b, key) then None else body_view env s k')"
    if "valid_key k'" for k'
    using g(3) [of "fst k'" "snd k'"] that t(2) by (auto simp: body_view_def object_named_def valid_key_def)
  ultimately show ?thesis
    using t(1) s by (simp add: delete_request_def delete_object_def engine_inv_def)
qed

definition put_body ::
  "engine_env \<Rightarrow> (nat \<Rightarrow> fault option) \<times> string option \<times> (string \<rightharpoonup> string) \<Rightarrow> string \<times> string
     \<Rightarrow> bytes \<Rightarrow> engine \<Rightarrow> bool \<times> engine" where
  "put_body env c k d s = (case put_request env (fst c) (fst k) (snd k) d (fst (snd c)) (snd (snd c)) s of
     (Inl _, t) \<Rightarrow> (False, t) | (Inr _, t) \<Rightarrow> (True, t))"

definition get_body :: "engine_env \<Rightarrow> string \<times> string \<Rightarrow> engine \<Rightarrow> bytes option \<times> engine" where
  "get_body env k s = (case get_request env (fst k) (snd k) s of
     (Inl _, t) \<Rightarrow> (None, t) | (Inr (d, _), t) \<Rightarrow> (Some d, t))"

definition delete_body :: "engine_env \<Rightarrow> string \<times> string \<Rightarrow> engine \<Rightarrow> bool \<times> engine" where
  "delete_body env k s = (case delete_request env (fst k) (snd k) s of
     (Inl _, t) \<Rightarrow> (False, t) | (Inr _, t) \<Rightarrow> (True, t))"

interpretation es: object_store "engine_inv env" valid_key object_named "body_view env"
  "put_body env" "get_body env" "delete_body env" for env
proof
  fix s k k' c d
  assume s: "engine_inv env s" and k: "valid_key k"
  obtain b key where bk: "k = (b, key)" by fastforce
  with k have b: "slashless b" by (simp add: valid_key_def)
  obtain r t where p: "put_request env (fst c) b key d (fst (snd c)) (snd (snd c)) s = (r, t)" by fastforce
  note g = put_request_guarantee [OF s b p]
  have pb: "put_body env c k d s = (\<exists>x. r = Inr x, t)" using p bk by (cases r) (auto simp: put_body_def)
  show "engine_inv env (snd (put_body env c k d s))" using g(2) pb by simp
  obtain u where u: "get_request env b key s = ((case object_view env (lookup_file s) b (parse_key b key) of
        Some x \<Rightarrow> Inr x | None \<Rightarrow> Inl (ENotFound (full_key (parse_key b key)))), u)"
    "engine_inv env u" "lookup_file u = lookup_file s"
    using get_request_result [of env s b key] s k bk by blast
  have gb: "get_body env k s = (body_view env s k, u)"
    using u(1) bk by (auto simp: get_body_def body_view_def split: option.splits)
  show "engine_inv env (snd (get_body env k s))" using u(2) gb by simp
  show "fst (get_body env k s) = body_view env s k" using gb by simp
  obtain w where w: "delete_request env b key s = ((case object_view env (lookup_file s) b (parse_key b key) of
        Some (d, m) \<Rightarrow> Inr m | None \<Rightarrow> Inl (ENotFound (full_key (parse_key b key)))), w)" "engine_inv env w"
    "\<forall>k'. valid_key k' \<longrightarrow> body_view env w k' = (if object_named k' = object_named k then None else body_view env s k')"
    using delete_request_result [of env s b key] s k bk by blast
  have db: "snd (delete_body env k s) = w" using w(1) bk by (auto simp: delete_body_def split: option.splits)
  show "engine_inv env (snd (delete_body env k s))" using w(2) db by simp
  assume k': "valid_key k'"
  show "body_view env (snd (put_body env c k d s)) k' =
      (if fst (put_body env c k d s) \<and> object_named k' = object_named k then Some d else body_view env s k')"
    using g(1) k' bk pb
    by (cases r; cases k'; cases "object_named k' = object_named k")
      (auto simp: store_guarantee_def body_view_def object_named_def valid_key_def)
  show "body_view env (snd (get_body env k s)) k' = body_view env s k'" using gb u(3) by (simp add: body_view_def)
  show "body_view env (snd (delete_body env k s)) k' = (if object_named k' = object_named k then None else body_view env s k')"
    unfolding db using w(3) k' by blast
qed

section \<open>Histories\<close>

text \<open>
  The states that requests lead to, each with the map that the acknowledged requests describe.  A
  write can meet any faults; the caches can drop any entry at any time.
\<close>

inductive served :: "engine_env \<Rightarrow> (string \<times> object_key \<rightharpoonup> bytes) \<Rightarrow> engine \<Rightarrow> bool" for env where
  start: "data_files s = [] \<Longrightarrow> meta_cache s = Map.empty \<Longrightarrow> served env Map.empty s"
| stored: "served env M s \<Longrightarrow> valid_key (b, key) \<Longrightarrow> put_request env f b key d ct um s = (Inr r, t)
    \<Longrightarrow> served env (M(object_named (b, key) \<mapsto> d)) t"
| refused: "served env M s \<Longrightarrow> valid_key (b, key) \<Longrightarrow> put_request env f b key d ct um s = (Inl e, t)
    \<Longrightarrow> served env M t"
| was_read: "served env M s \<Longrightarrow> valid_key (b, key) \<Longrightarrow> get_request env b key s = (x, t) \<Longrightarrow> served env M t"
| deleted: "served env M s \<Longrightarrow> valid_key (b, key) \<Longrightarrow> delete_request env b key s = (y, t)
    \<Longrightarrow> served env (M(object_named (b, key) := None)) t"
| evicted: "served env M s \<Longrightarrow> served env M (cache_invalidate c s)"
| meta_evicted: "served env M s \<Longrightarrow> served env M (s\<lparr>meta_cache := (meta_cache s)(c := None)\<rparr>)"

lemma lookup_caches [simp]:
  "lookup_file (s\<lparr>meta_cache := x\<rparr>) = lookup_file s" "lookup_file (s\<lparr>ref_cache := y\<rparr>) = lookup_file s"
  by (simp_all add: lookup_file_def fun_eq_iff)

lemma evict_consistent:
  assumes "consistent env s"
  shows "consistent env (cache_invalidate c s)" "consistent env (s\<lparr>meta_cache := (meta_cache s)(c := None)\<rparr>)"
  using assms
  by (auto simp: consistent_def disk_cache_ok_def cache_at_def meta_at_def cache_invalidate_def
      split: if_splits)

lemma served_sound:
  assumes "served env M s" and env: "env_ok env" "cli_available (codec env)"
  shows "engine_inv env s \<and> (\<forall>k. valid_key k \<longrightarrow> body_view env s k = M (object_named k))"
  using assms(1)
proof induction
  case (start s)
  have "lookup_file s = Map.empty" using start(1) by (simp add: lookup_file_def fun_eq_iff)
  with start(2) env show ?case
    by (simp add: engine_inv_def consistent_def disk_cache_ok_def disk_ok_def reference_ok_def delta_ok_def
        passthrough_ok_def cache_at_def meta_at_def dated_def body_view_def object_view_def resolve_view_def newest_def)
next
  case (stored M s b key f d ct um r t)
  then have "put_body env (f, ct, um) (b, key) d s = (True, t)" by (simp add: put_body_def)
  with stored es.put_inv [of env s "(b, key)" "(f, ct, um)" d] es.put_view [of env s "(b, key)" _ "(f, ct, um)" d]
  show ?case by auto
next
  case (refused M s b key f d ct um e t)
  then have "put_body env (f, ct, um) (b, key) d s = (False, t)" by (simp add: put_body_def)
  with refused es.put_inv [of env s "(b, key)" "(f, ct, um)" d] es.put_view [of env s "(b, key)" _ "(f, ct, um)" d]
  show ?case by auto
next
  case (was_read M s b key x t)
  then have "snd (get_body env (b, key) s) = t" by (auto simp: get_body_def split: sum.splits)
  with was_read es.get_inv [of env s "(b, key)"] es.get_view [of env s "(b, key)"] show ?case by auto
next
  case (deleted M s b key y t)
  then have "snd (delete_body env (b, key) s) = t" by (auto simp: delete_body_def split: sum.splits)
  with deleted es.del_inv [of env s "(b, key)"] es.del_view [of env s "(b, key)"] show ?case by auto
next
  case (evicted M s c)
  then show ?case by (simp add: engine_inv_def evict_consistent dated_def body_view_def)
next
  case (meta_evicted M s c)
  then show ?case by (simp add: engine_inv_def evict_consistent dated_def body_view_def lookup_file_def)
qed

end
