(* ===== verification/EngineProps.thy ===== *)
theory EngineProps
  imports History
begin

text \<open>
  The properties of the engine: what a history of requests shows to a reader, what a store and a
  delete guarantee when the storage fails, and what the integrity check of a reconstruction gives.
  The first section is a concrete engine on which they are evaluated.
\<close>

section \<open>A concrete engine\<close>

definition sample_digest :: "char \<Rightarrow> bytes \<Rightarrow> string" where
  "sample_digest c d = c # map (\<lambda>w. char_of (unat w)) d"

definition sample_env :: engine_env where
  "sample_env = \<lparr>sched = (\<lambda>_. None), unmanaged_digest = (\<lambda>_ _. ''u''), dir_stat = (\<lambda>_. (0, 0)),
     codec = toy_codec, sha256_hex = sample_digest CHR ''s'', md5_hex = sample_digest CHR ''m'',
     max_object_size = 100, max_passthrough_object_size = 1000, spool_threshold = 2,
     bucket_policies = \<lparr>policies = Map.empty, default_compression = True, default_max_delta_ratio = 3 / 4,
       replication_target_real_names = {}\<rparr>, usage_attached = True, reference_lock_attached = False\<rparr>"

definition sample_state :: engine where
  "sample_state = \<lparr>data_files = [], bucket_dirs = [''b''], tick = 0, clock = 0,
     ref_cache = Map.empty, meta_cache = Map.empty, usage = Map.empty\<rparr>"

lemma sample_env_ok: "env_ok sample_env" "cli_available (codec sample_env)"
  using toy_codec_lossless by (simp_all add: env_ok_def sample_env_def sample_digest_def toy_codec_def)

lemma sample_consistent: "engine_inv sample_env sample_state"
  using served_sound [OF served.start sample_env_ok, of sample_state] by (simp add: sample_state_def)

definition sample_stored :: engine where
  "sample_stored = snd (put_request sample_env (\<lambda>_. None) ''b'' ''d/a.zip'' [1, 2, 3] None Map.empty sample_state)"

lemma sample_put:
  "\<exists>r. put_request sample_env (\<lambda>_. None) ''b'' ''d/a.zip'' [1, 2, 3] None Map.empty sample_state = (Inr r, sample_stored)"
proof -
  have "case put_request sample_env (\<lambda>_. None) ''b'' ''d/a.zip'' [1, 2, 3] None Map.empty sample_state of
      (Inr r, t) \<Rightarrow> True | _ \<Rightarrow> False" by code_simp
  then show ?thesis by (auto simp: sample_stored_def split: prod.splits sum.splits)
qed

lemma sample_key: "valid_key (''b'', ''d/a.zip'')"
  unfolding valid_key_def slashless_def by code_simp

lemma sample_stored_inv: "engine_inv sample_env sample_stored"
  using put_request_guarantee(2) [OF sample_consistent, of "''b''"] sample_put by (auto simp: slashless_def)

section \<open>Histories\<close>



section \<open>Writes\<close>


definition sample_faults :: "nat \<Rightarrow> fault option" where
  "sample_faults n = (if n = 12 then Some (FaultBefore (Io ''disk'')) else None)"


section \<open>Deletes\<close>


definition sample_two :: engine where
  "sample_two = snd (put_request sample_env (\<lambda>_. None) ''b'' ''d/c.zip'' [1, 2, 3] None Map.empty sample_stored)"

lemma sample_two_inv: "engine_inv sample_env sample_two"
  using put_request_guarantee(2) [OF sample_stored_inv _ prod.collapse [symmetric]]
  by (simp add: sample_two_def slashless_def)




section \<open>Reads\<close>

lemma load_reference_ticked: "load_reference env b ds s = (r, t) \<Longrightarrow> ticked s t"
  by (auto elim: load_reference_cases)

lemma mismatch_not_cached:
  assumes "get_reference_cached env b ds s = (Inl e, t)"
  shows "ref_cache t (cache_key b ds) = None"
proof (cases "ref_cache s (cache_key b ds)")
  case None
  with assms have "load_reference env b ds s = (Inl e, t)"
    by (auto simp: get_reference_cached_def elim: and_then_cases)
  from ticked_engine(1) [OF load_reference_ticked [OF this]] None show ?thesis by simp
qed (use assms in \<open>simp add: get_reference_cached_def\<close>)

lemma get_object_file_ticked: "get_object_file env path l s = (r, t) \<Longrightarrow> ticked s t"
  by (auto elim: get_object_file_cases)

lemma fetch_buffered_mismatch:
  assumes "fetch_buffered env b ds k m s = (Inl (ChecksumMismatch x y z), t)"
  shows "ref_cache t (cache_key b ds) = None"
proof (cases "storage_info m")
  case (Delta a c d e)
  obtain rr s1 where r: "get_reference_cached env b ds s = (rr, s1)" by fastforce
  obtain dr s2 where d: "get_delta env b ds (ok_filename k) s1 = (dr, s2)" by fastforce
  have t2: "ticked s1 s2" using d get_object_file_ticked unfolding get_delta_def by blast
  have "rr = Inl (ChecksumMismatch x y z) \<and> t = s2"
    using assms Delta r d
    by (auto simp: fetch_buffered_def reference_or_fallback_def acquire_codec_timeout_def and_then_def
        split: sum.splits prod.splits engine_error.splits if_splits option.splits fault.splits)
  with mismatch_not_cached r ticked_engine(1) [OF t2] show ?thesis by auto
qed (use assms in \<open>auto simp: fetch_buffered_def map_err_def and_then_def split: sum.splits prod.splits\<close>)

lemma retrieve_buffered_checked:
  assumes "retrieve_buffered env b ds k m s = (r, t)"
  shows "case r of Inr (d, h) \<Rightarrow> sha256_hex env d = file_sha256 m
    | Inl (ChecksumMismatch _ _ _) \<Rightarrow> ref_cache t (cache_key b ds) = None | Inl _ \<Rightarrow> True"
  using assms fetch_buffered_mismatch [of env b ds k m s]
  by (auto simp: retrieve_buffered_def and_then_def cache_invalidate_def
      split: sum.splits prod.splits if_splits engine_error.splits)

lemma reconstruct_spool_checked:
  assumes "reconstruct_delta_to_spool env b ds k m s = (r, t)"
  shows "case r of Inr d \<Rightarrow> sha256_hex env d = file_sha256 m
    | Inl (ChecksumMismatch _ _ _) \<Rightarrow> ref_cache t (cache_key b ds) = None | Inl _ \<Rightarrow> True"
  using assms
  by (auto simp: reconstruct_delta_to_spool_def and_then_def map_err_def Let_def spool_acquire_pair_def
      spool_acquire_def acquire_codec_timeout_def cache_invalidate_def
      split: sum.splits prod.splits if_splits engine_error.splits option.splits fault.splits)

text \<open>C5. Whatever is on disk, in the cache and in the metadata, and whatever fails on the way: bytes
  that a retrieve has reconstructed from a delta or read as a reference are returned only when their
  checksum is the one recorded for the object, and a checksum mismatch leaves no entry for the
  deltaspace in the reference cache.\<close>

theorem reconstruction_is_checked:
  assumes "retrieve_with_metadata env b ds k m s = (r, t)" "storage_info m \<noteq> Passthrough"
  shows "case r of
      Inr resp \<Rightarrow> sha256_hex env (resp_data resp) = file_sha256 m \<and> resp_metadata resp = m
    | Inl (ChecksumMismatch _ _ _) \<Rightarrow> ref_cache t (cache_key b ds) = None
    | Inl _ \<Rightarrow> True"
proof (cases "is_delta m \<and> file_size m > spool_threshold env")
  case True
  obtain r' u where "reconstruct_delta_to_spool env b ds k m s = (r', u)" by fastforce
  with reconstruct_spool_checked [OF this] True assms show ?thesis
    by (cases r') (auto simp: retrieve_with_metadata_def retrieve_delta_spooled_def)
next
  case False
  obtain r' u where "retrieve_buffered env b ds k m s = (r', u)" by fastforce
  with retrieve_buffered_checked [OF this] False assms show ?thesis
    by (cases r') (auto simp: retrieve_with_metadata_def)
qed

theorem reconstruction_is_checked_witness:
  "\<exists>e t. retrieve_with_metadata sample_env ''b'' ''d'' (parse_key ''b'' ''d/a.zip'')
      (new_delta 0 ''a.zip'' ''wrong'' ''m'' 3 ''reference.bin'' ''s'' 1 None) sample_stored = (Inl e, t)
    \<and> ref_cache t (cache_key ''b'' ''d'') = None"
proof -
  let ?m = "new_delta 0 ''a.zip'' ''wrong'' ''m'' 3 ''reference.bin'' ''s'' 1 None"
  have "case retrieve_with_metadata sample_env ''b'' ''d'' (parse_key ''b'' ''d/a.zip'') ?m sample_stored of
      (Inl (ChecksumMismatch _ _ _), t) \<Rightarrow> True | _ \<Rightarrow> False" by code_simp
  then obtain x y z t where
    op: "retrieve_with_metadata sample_env ''b'' ''d'' (parse_key ''b'' ''d/a.zip'') ?m sample_stored = (Inl (ChecksumMismatch x y z), t)"
    by (auto split: prod.splits sum.splits engine_error.splits)
  from reconstruction_is_checked [OF op] op show ?thesis by (simp add: new_delta_def)
qed

section \<open>Ranges\<close>

text \<open>The metadata that a range request works with is what a fresh resolution gives.\<close>

lemma range_metadata:
  assumes s: "engine_inv env s" and k: "valid_key (b, key)" and calm: "calm env s"
  shows "\<exists>h u. (case meta_get b key s of
           None \<Rightarrow> and_then (resolve_metadata_with_migration env b (pfx b key) (parse_key b key) s) (\<lambda>r s. (Inr (r, False), s))
         | Some cached \<Rightarrow> (Inr (Some cached, True), s))
       = (Inr (resolve_view env (lookup_file s) b (parse_key b key), h), u)
     \<and> lookup_file u = lookup_file s \<and> calm env u"
proof (cases "meta_get b key s")
  case None
  then show ?thesis
    using resolve_calm [OF calm parse_key_no_slash, of b b key] calm by auto
next
  case (Some m)
  with s k have "resolve_view env (lookup_file s) b (parse_key b key) = Some m"
    by (auto simp: engine_inv_def consistent_def meta_at_def meta_get_def valid_key_def)
  with Some calm show ?thesis by auto
qed

lemma range_passthrough_slice:
  assumes "calm env s" "lookup_file s (passthrough_path b p (original_name m)) = Some f"
    and "start \<le> e" "e - start < u64_max"
  shows "\<exists>t. range_passthrough env b p m start e s =
    (Inr (Some (take (e + 1 - start) (drop start (fdata f)), e + 1 - start, m)), t)"
proof -
  have "(int e - int start + 1) mod 2 ^ 64 = int (e + 1 - start)"
    using assms(3,4) by (simp add: u64_max_def of_nat_diff)
  then have "nat ((int e - int start + 1) mod 2 ^ 64) = e + 1 - start" "nat (int e - int start + 1) = Suc e - start"
    using assms(3) by simp_all
  moreover have "e + 1 - start \<noteq> 0" using assms(3) by simp
  ultimately show ?thesis
    using assms(1,2) calm_now [OF assms(1)]
    by (simp add: range_passthrough_def get_passthrough_stream_range_def storage_op_ok Let_def)
qed

text \<open>C6. On a consistent state without faults, a range that is served is the slice of the stored
  object: the requested bytes, cut at the end of the object, whether they come from a passthrough
  file or from a delta that is reconstructed through a spool file.\<close>

theorem range_is_a_slice:
  assumes "engine_inv env s" "calm env s" "valid_key (b, key)" "max_object_size env \<le> u64_max"
    and "start \<le> e" "e - start < u64_max"
    and op: "retrieve_stream_range env b key start e None s = (Inr (Some (d', len, m)), t)"
  shows "\<exists>d. object_view env (lookup_file s) b (parse_key b key) = Some (d, m)
    \<and> d' = take (e + 1 - start) (drop start d)"
proof -
  let ?k = "parse_key b key"
  have v: "validate_object ?k = Inr ()" and b: "slashless b" using assms(3) by (simp_all add: valid_key_def)
  have D: "disk_ok env (lookup_file s)" and cli: "cli_available (codec env)"
    using assms(1) by (simp_all add: engine_inv_def consistent_def disk_cache_ok_def)
  have key: "validated_key b key = Inr (?k, pfx b key)" using v by (simp add: validated_key_def deltaspace_id_def Let_def)
  obtain h u where u: "(case meta_get b key s of
           None \<Rightarrow> and_then (resolve_metadata_with_migration env b (pfx b key) ?k s) (\<lambda>r s. (Inr (r, False), s))
         | Some cached \<Rightarrow> (Inr (Some cached, True), s))
       = (Inr (resolve_view env (lookup_file s) b ?k, h), u)" "lookup_file u = lookup_file s" "calm env u"
    using range_metadata [OF assms(1,3,2)] by blast
  obtain m' where m': "resolve_view env (lookup_file s) b ?k = Some m'"
    using op by (cases "resolve_view env (lookup_file s) b ?k") (auto simp: retrieve_stream_range_def key u(1))
  let ?u = "meta_insert b key m' u"
  from D valid_plain [OF v] m' show ?thesis
  proof (cases rule: resolve_view_cases)
    case (1 f)
    obtain w where "range_passthrough env b (pfx b key) m' start e ?u =
        (Inr (Some (take (e + 1 - start) (drop start (fdata f)), e + 1 - start, m')), w)"
      using range_passthrough_slice [of env ?u b "pfx b key" m' f start e] u 1 assms(5,6) by auto
    with op 1 m' show ?thesis by (auto simp: retrieve_stream_range_def key u(1) Let_def)
  next
    case (2 f r d)
    have np: "storage_info m' \<noteq> Passthrough" using 2(3) by (auto simp: is_delta_def)
    have "decode_to_writer (codec env) (fdata r) (fdata f) (file_size m') = Inr d"
      using cli 2 by (intro decode_to_writer_ok) simp_all
    then have "\<exists>w. reconstruct_delta_to_spool env b (pfx b key) ?k m' ?u = (Inr d, w)"
      using u 2 by (simp add: reconstruct_delta_to_spool_def get_reference_metadata_def spool_acquire_pair_def
          get_reference_to_file_def get_delta_def calm_reads calm_permits)
    then obtain w where w: "reconstruct_delta_to_spool env b (pfx b key) ?k m' ?u = (Inr d, w)" ..
    have "file_size m' \<le> u64_max" using 2(7) assms(4) by simp
    then have "min (sat_add e 1) (file_size m') - min start (file_size m') = min (e + 1) (length d) - start"
      using 2(6) by (auto simp: sat_add_def)
    moreover have "take (min (e + 1) (length d) - start) (drop (min start (length d)) d) = take (e + 1 - start) (drop start d)"
      by (cases "start \<le> length d") (auto simp: min_def)
    ultimately show ?thesis
      using op w 2 m' np by (auto simp: retrieve_stream_range_def key u(1) Let_def retrieve_delta_range_spooled_def
          split: if_splits)
  qed
qed

theorem range_is_a_slice_witness:
  "\<exists>t m. retrieve_stream_range sample_env ''b'' ''d/a.zip'' 1 9 None sample_stored = (Inr (Some ([2, 3], 2, m)), t)
    \<and> (\<exists>d. object_view sample_env (lookup_file sample_stored) ''b'' (parse_key ''b'' ''d/a.zip'') = Some (d, m)
         \<and> [2, 3] = take 9 (drop 1 d))"
proof -
  have "case retrieve_stream_range sample_env ''b'' ''d/a.zip'' 1 9 None sample_stored of
      (Inr (Some (d, len, m)), t) \<Rightarrow> d = [2, 3] \<and> len = 2 | _ \<Rightarrow> False" by code_simp
  then obtain m t where
    op: "retrieve_stream_range sample_env ''b'' ''d/a.zip'' 1 9 None sample_stored = (Inr (Some ([2, 3], 2, m)), t)"
    by (auto split: prod.splits sum.splits option.splits)
  from range_is_a_slice [OF sample_stored_inv _ sample_key _ _ _ op] op show ?thesis
    by (simp add: calm_def sample_env_def u64_max_def)
qed

end
