(* ===== verification/Incidents.thy ===== *)
theory Incidents
  imports EngineProps
begin

text \<open>
  Runs of the modelled engine that do not do what the code means to: each is a concrete sequence of
  operations, evaluated.  They mark where the guarantees of the other theories end.
\<close>

section \<open>An older body becomes visible again\<close>

text \<open>
  A write replaces a delta by a passthrough copy, and the clean-up of the old delta fails, which the
  write does not report.  A delete then removes the copy; its clean-up of the delta is best effort
  too and fails; the delete is acknowledged, and the old body is back.
\<close>

definition fault_at :: "nat \<Rightarrow> nat \<Rightarrow> fault option" where
  "fault_at k n = (if n = k then Some (FaultBefore (Io ''disk'')) else None)"

definition replaced_state :: engine where
  "replaced_state = snd (put_request sample_env (fault_at 13) ''b'' ''d/a.zip'' [9, 9] None Map.empty sample_stored)"

lemma acknowledged_delete_resurrects:
  "case delete_object (sample_env\<lparr>sched := fault_at 17\<rparr>) ''b'' ''d/a.zip'' replaced_state of (r, t) \<Rightarrow>
     (\<not> isl r) \<and> map_option fst (object_view sample_env (lookup_file replaced_state) ''b'' (parse_key ''b'' ''d/a.zip'')) = Some [9, 9]
     \<and> map_option fst (object_view sample_env (lookup_file t) ''b'' (parse_key ''b'' ''d/a.zip'')) = Some [1, 2, 3]"
  by code_simp

section \<open>A delete that fails after the object is gone\<close>

text \<open>
  The object's files are removed and the scan for other objects fails: the client is told of an error,
  the usage counter still counts the object, and its metadata stays in the cache.
\<close>

lemma failed_delete_keeps_the_count:
  "case delete_object (sample_env\<lparr>sched := fault_at 11\<rparr>) ''b'' ''d/a.zip'' sample_stored of (r, t) \<Rightarrow>
     isl r \<and> object_view sample_env (lookup_file t) ''b'' (parse_key ''b'' ''d/a.zip'') = None
     \<and> meta_get ''b'' ''d/a.zip'' t \<noteq> None \<and> map_option object_count (usage t ''b'') = Some 1"
  by code_simp

section \<open>The usage counter\<close>

text \<open>The first object of a deltaspace compresses badly: the reference is removed again and yet counted.\<close>

lemma removed_reference_is_counted:
  "case put_request sample_env (\<lambda>_. None) ''b'' ''d/a.zip'' [7] None Map.empty sample_state of (r, t) \<Rightarrow>
     \<not> isl r \<and> map (\<lambda>(p, f). (p, length (fdata f))) (data_files t) = [((''b'', ''d'', ''a.zip''), 1)]
     \<and> map_option row_stored_bytes (usage t ''b'') = Some 2"
  by code_simp

text \<open>A spooled store that commits a delta is not counted at all.\<close>

lemma spooled_delta_is_not_counted:
  "case store_spooled_delta sample_env ''b'' ''d/a.zip'' [1, 2, 3] 3 None Map.empty None (later sample_state) of (r, t) \<Rightarrow>
     \<not> isl r \<and> length (data_files t) = 2 \<and> usage t ''b'' = None"
  by code_simp

section \<open>A reference cached too late\<close>

text \<open>
  A read has loaded the reference and not yet published it in the cache.  Meanwhile the last object is
  deleted, which reclaims the reference, and a new object sets a new baseline.  The read then
  publishes the old bytes.  The next write is encoded against them and acknowledged, and its object
  cannot be read back.
\<close>

definition raced_state :: engine where
  "raced_state =
     (let s = snd (load_reference sample_env ''b'' ''d'' (cache_invalidate (cache_key ''b'' ''d'') sample_stored));
          s = snd (delete_request sample_env ''b'' ''d/a.zip'' s);
          s = snd (put_request sample_env (\<lambda>_. None) ''b'' ''d/n.zip'' [4, 4, 4] None Map.empty s)
      in cache_put (cache_key ''b'' ''d'') [1, 2, 3] s)"

lemma stale_reference_loses_a_write:
  "case put_request sample_env (\<lambda>_. None) ''b'' ''d/c.zip'' [1, 2, 3] None Map.empty raced_state of (r, t) \<Rightarrow>
     \<not> isl r \<and>
     (case get_request sample_env ''b'' ''d/c.zip'' (cache_invalidate (cache_key ''b'' ''d'') t) of
        (Inl (ChecksumMismatch _ _ _), _) \<Rightarrow> True | _ \<Rightarrow> False)"
  by code_simp

lemma loaded_before_the_race:
  "fst (load_reference sample_env ''b'' ''d'' (cache_invalidate (cache_key ''b'' ''d'') sample_stored)) = Inr [1, 2, 3]"
  by code_simp

end
