(* ===== verification/Listing.thy ===== *)
theory Listing
  imports Engine "HOL-Library.Multiset"
begin

text \<open>
  Listings: the pagination that every listing goes through, the collapsing of keys into common
  prefixes, the recursive and the single-level listing of the filesystem backend, and the engine's
  \<open>list_objects\<close> (\<open>src/src/deltaglider/engine/mod.rs\<close> and
  \<open>src/src/storage/filesystem.rs\<close>).  Directories are what the files imply.  A prefix that begins
  with a slash makes \<open>Path::join\<close> leave the data directory: what the host's file system holds there
  is a parameter.
\<close>

section \<open>Pages\<close>

record 'o list_page =
  pg_objects :: "(string \<times> 'o) list"
  pg_prefixes :: "string list"
  pg_truncated :: bool
  pg_token :: "string option"

definition after_token :: "string option \<Rightarrow> (string \<times> 'e) list \<Rightarrow> (string \<times> 'e) list" where
  "after_token token items = (case token of None \<Rightarrow> items | Some t \<Rightarrow> filter (\<lambda>e. fst e > t) items)"

definition paginate_sorted ::
  "(string \<times> 'e) list \<Rightarrow> nat \<Rightarrow> string option \<Rightarrow> (string \<times> 'e) list \<times> bool \<times> string option" where
  "paginate_sorted items max_keys token =
     (let items = after_token token items;
          is_truncated = length items > max_keys;
          items = (if is_truncated then take max_keys items else items);
          next_token = (if is_truncated
                        then (if items = [] then None else Some (fst (last items))) else None)
      in (items, is_truncated, next_token))"

datatype 'o entry = Obj 'o | CommonPrefix

definition entry_objects :: "(string \<times> 'o entry) list \<Rightarrow> (string \<times> 'o) list" where
  "entry_objects es = List.map_filter (\<lambda>(k, e). case e of Obj o' \<Rightarrow> Some (k, o') | CommonPrefix \<Rightarrow> None) es"

definition entry_prefixes :: "(string \<times> 'o entry) list \<Rightarrow> string list" where
  "entry_prefixes es = List.map_filter (\<lambda>(k, e). case e of Obj _ \<Rightarrow> None | CommonPrefix \<Rightarrow> Some k) es"

definition interleave :: "(string \<times> 'o) list \<Rightarrow> string list \<Rightarrow> (string \<times> 'o entry) list" where
  "interleave objects common_prefixes =
     sort_key fst (map (\<lambda>(k, o'). (k, Obj o')) objects @ map (\<lambda>p. (p, CommonPrefix)) common_prefixes)"

definition interleave_and_paginate ::
  "(string \<times> 'o) list \<Rightarrow> string list \<Rightarrow> nat \<Rightarrow> string option \<Rightarrow> 'o list_page" where
  "interleave_and_paginate objects common_prefixes max_keys token =
     (case paginate_sorted (interleave objects common_prefixes) max_keys token of
        (entries, is_truncated, next_token) \<Rightarrow>
          \<lparr>pg_objects = entry_objects entries, pg_prefixes = entry_prefixes entries,
           pg_truncated = is_truncated, pg_token = next_token\<rparr>)"

section \<open>The generic listing\<close>

definition collapse_step ::
  "string \<Rightarrow> string \<Rightarrow> string \<times> 'o \<Rightarrow> (string \<times> 'o) + string" where
  "collapse_step prfx delim item =
     (case split_once_str delim (drop (length prfx) (fst item)) of
        Some (before, _) \<Rightarrow> Inr (prfx @ before @ delim)
      | None \<Rightarrow> Inl item)"

definition collapsed_objects :: "string \<Rightarrow> string \<Rightarrow> (string \<times> 'o) list \<Rightarrow> (string \<times> 'o) list" where
  "collapsed_objects prfx delim items =
     List.map_filter (\<lambda>i. case collapse_step prfx delim i of Inl x \<Rightarrow> Some x | Inr _ \<Rightarrow> None) items"

definition collapsed_prefixes :: "string \<Rightarrow> string \<Rightarrow> (string \<times> 'o) list \<Rightarrow> string list" where
  "collapsed_prefixes prfx delim items =
     sort (remdups (List.map_filter (\<lambda>i. case collapse_step prfx delim i of Inl _ \<Rightarrow> None | Inr p \<Rightarrow> Some p) items))"

definition bulk_page ::
  "(string \<times> file_metadata) list \<Rightarrow> string \<Rightarrow> string option \<Rightarrow> nat \<Rightarrow> string option
     \<Rightarrow> file_metadata list_page" where
  "bulk_page bulk prfx delimiter max_keys token =
     (let items = dedup_keep_latest bulk;
          items = (if prfx = [] then items else filter (\<lambda>i. starts_with (fst i) prfx) items)
      in case delimiter of
           Some delim \<Rightarrow>
             interleave_and_paginate (collapsed_objects prfx delim items) (collapsed_prefixes prfx delim items)
               max_keys token
         | None \<Rightarrow>
             (case paginate_sorted items max_keys token of (objs, is_truncated, next_token) \<Rightarrow>
                \<lparr>pg_objects = objs, pg_prefixes = [], pg_truncated = is_truncated, pg_token = next_token\<rparr>))"

text \<open>A client asks for page after page until there is no continuation token.\<close>

partial_function (option) list_all_pages ::
  "(string option \<Rightarrow> 'o list_page) \<Rightarrow> string option \<Rightarrow> 'o list_page list option" where
  "list_all_pages fetch token =
     (case pg_token (fetch token) of
        None \<Rightarrow> Some [fetch token]
      | Some t \<Rightarrow> Option.bind (list_all_pages fetch (Some t)) (\<lambda>ps. Some (fetch token # ps)))"

section \<open>The filesystem backend's listings\<close>

text \<open>What lies outside the data directory: the files below an absolute path, and its direct entries.\<close>

record host =
  host_walk :: "string \<Rightarrow> (string \<times> file_metadata) list"
  host_entries :: "string \<Rightarrow> (string \<times> data_file option) list"

definition hidden_file :: "string \<Rightarrow> bool" where
  "hidden_file name \<longleftrightarrow> starts_with name ''.'' \<or> name = ''reference.bin''"

definition below :: "string \<Rightarrow> string \<Rightarrow> bool" where
  "below p q \<longleftrightarrow> p = [] \<or> q = p \<or> starts_with q (p @ ''/'')"

definition bucket_files :: "('s storage_scheme) \<Rightarrow> string \<Rightarrow> (string \<times> string \<times> data_file) list" where
  "bucket_files s b = List.map_filter (\<lambda>((b', q, name), f). if b' = b then Some (q, name, f) else None) (data_files s)"

definition dir_has_visible_data :: "('s storage_scheme) \<Rightarrow> string \<Rightarrow> string \<Rightarrow> bool" where
  "dir_has_visible_data s b p = list_ex (\<lambda>(q, name, _). below p q \<and> \<not> hidden_file name) (bucket_files s b)"

definition is_file :: "('s storage_scheme) \<Rightarrow> string \<Rightarrow> string \<Rightarrow> bool" where
  "is_file s b path = (case rsplit_once (CHR ''/'') path of
     None \<Rightarrow> lookup_file s (b, [], path) \<noteq> None
   | Some (q, name) \<Rightarrow> lookup_file s (b, q, name) \<noteq> None)"

definition join_key :: "string \<Rightarrow> string \<Rightarrow> string" where
  "join_key q name = (if q = [] then name else q @ ''/'' @ name)"

definition bulk_walk ::
  "('e storage_env_scheme) \<Rightarrow> ('s storage_scheme) \<Rightarrow> string \<Rightarrow> string \<Rightarrow> (string \<times> file_metadata) list" where
  "bulk_walk env s b top_dir = List.map_filter (\<lambda>(q, name, f).
     if below top_dir q \<and> \<not> hidden_file name \<and> \<not> is_reference (file_meta env name f)
     then Some (join_key q (original_name (file_meta env name f)), file_meta env name f) else None) (bucket_files s b)"

definition bulk_list_objects ::
  "host \<Rightarrow> ('e storage_env_scheme) \<Rightarrow> string \<Rightarrow> string \<Rightarrow> ('s storage_scheme)
     \<Rightarrow> (storage_error, (string \<times> file_metadata) list) result \<times> ('s storage_scheme)" where
  "bulk_list_objects host env b prfx = storage_op env (\<lambda>s.
     (if starts_with prfx ''/'' then Inr (host_walk host prfx)
      else if prfx \<noteq> [] \<and> is_file s b prfx then Inl (Io ''Not a directory'')
      else Inr (bulk_walk env s b (trim_end_matches (CHR ''/'') prfx)), s))"

definition user_filename :: "string \<Rightarrow> string" where
  "user_filename name = (if ends_with name ''.delta'' then take (length name - 6) name else name)"

definition dir_entries ::
  "host \<Rightarrow> ('s storage_scheme) \<Rightarrow> string \<Rightarrow> string \<Rightarrow> (string \<times> data_file option) list" where
  "dir_entries host s b dir_part =
     (if starts_with dir_part ''/'' then host_entries host dir_part
      else map (\<lambda>name. (name, None))
             (filter (\<lambda>name. dir_has_visible_data s b (join_key dir_part name)) (subdirs s b dir_part))
           @ List.map_filter (\<lambda>(q, name, f). if q = dir_part then Some (name, Some f) else None) (bucket_files s b))"

definition object_map_step ::
  "string \<Rightarrow> string \<Rightarrow> (string \<times> (string \<times> data_file) \<times> bool) list \<Rightarrow> string \<times> data_file
     \<Rightarrow> (string \<times> (string \<times> data_file) \<times> bool) list" where
  "object_map_step dir_part name_filter object_map nf =
     (case nf of (name, f) \<Rightarrow>
        let user_name = user_filename name; is_delta_file = ends_with name ''.delta'';
            user_key = join_key dir_part user_name
        in if hidden_file name \<or> \<not> starts_with user_name name_filter then object_map
           else case map_of object_map user_key of
             Some (_, existing_is_delta) \<Rightarrow>
               if is_delta_file \<and> \<not> existing_is_delta
               then AList.update user_key ((name, f), True) object_map else object_map
           | None \<Rightarrow> AList.update user_key ((name, f), is_delta_file) object_map)"

definition list_objects_delegated ::
  "host \<Rightarrow> ('e storage_env_scheme) \<Rightarrow> string \<Rightarrow> string \<Rightarrow> string option \<Rightarrow> nat \<Rightarrow> string option
     \<Rightarrow> ('s storage_scheme)
     \<Rightarrow> (storage_error, file_metadata list_page option) result \<times> ('s storage_scheme)" where
  "list_objects_delegated host env b prfx delimiter max_keys token s =
     (if delimiter \<noteq> Some ''/'' then (Inr None, s)
      else storage_op env (\<lambda>s.
        let (dir_part, name_filter) =
              (case rsplit_once (CHR ''/'') prfx of None \<Rightarrow> ([], prfx) | Some (d, n) \<Rightarrow> (d, n))
        in if dir_part \<noteq> [] \<and> \<not> starts_with dir_part ''/'' \<and> is_file s b dir_part
           then (Inl (Io ''Not a directory''), s)
           else
             let entries = dir_entries host s b dir_part;
                 common_prefixes = sort (remdups (List.map_filter (\<lambda>(name, fo).
                   if fo = None \<and> name \<noteq> ''.dg'' \<and> starts_with name name_filter
                   then Some (join_key dir_part name @ ''/'') else None) entries));
                 object_map = foldl (object_map_step dir_part name_filter) []
                   (List.map_filter (\<lambda>(name, fo). map_option (Pair name) fo) entries);
                 page = interleave_and_paginate (sort_key fst (map (\<lambda>(k, (nf, _)). (k, nf)) object_map))
                          common_prefixes max_keys token;
                 final_objects = filter (\<lambda>(_, m). \<not> is_reference m)
                   (map (\<lambda>(k, (name, f)). (k, file_meta env name f)) (pg_objects page))
             in (Inr (Some \<lparr>pg_objects = final_objects, pg_prefixes = pg_prefixes page,
                       pg_truncated = pg_truncated page, pg_token = pg_token page\<rparr>), s)) s)"

definition list_deltaspaces ::
  "('e storage_env_scheme) \<Rightarrow> string \<Rightarrow> ('s storage_scheme)
     \<Rightarrow> (storage_error, string list) result \<times> ('s storage_scheme)" where
  "list_deltaspaces env b = storage_op env (\<lambda>s.
     (Inr (remdups (List.map_filter (\<lambda>(q, name, _). if is_data_file name then Some q else None) (bucket_files s b))), s))"

definition list_buckets ::
  "('e storage_env_scheme) \<Rightarrow> ('s storage_scheme) \<Rightarrow> (storage_error, string list) result \<times> ('s storage_scheme)" where
  "list_buckets env = storage_op env (\<lambda>s. (Inr (sort (remdups (bucket_dirs s))), s))"

definition delete_bucket ::
  "('e storage_env_scheme) \<Rightarrow> string \<Rightarrow> ('s storage_scheme)
     \<Rightarrow> (storage_error, unit) result \<times> ('s storage_scheme)" where
  "delete_bucket env b = storage_op env (\<lambda>s.
     if b \<notin> set (bucket_dirs s) then (Inl (BucketNotFound b), s)
     else if dir_has_visible_data s b [] then (Inl (BucketNotEmpty b), s)
     else (Inr (), s\<lparr>data_files := filter (\<lambda>((b', _, _), _). b' \<noteq> b) (data_files s),
                     bucket_dirs := filter (\<lambda>b'. b' \<noteq> b) (bucket_dirs s)\<rparr>))"

section \<open>The engine's listings\<close>

definition list_entry_needs_head :: "string \<Rightarrow> file_metadata \<Rightarrow> bool" where
  "list_entry_needs_head key m \<longleftrightarrow> is_delta m \<or> is_delta_eligible (last_segment key)"

definition is_unresolved_delta_stub :: "file_metadata \<Rightarrow> bool" where
  "is_unresolved_delta_stub m = (case storage_info m of Delta _ rs _ _ \<Rightarrow> rs = [] | _ \<Rightarrow> False)"

definition list_objects_bulk ::
  "host \<Rightarrow> engine_env \<Rightarrow> string \<Rightarrow> string \<Rightarrow> string option \<Rightarrow> nat \<Rightarrow> string option
     \<Rightarrow> file_metadata list_page op" where
  "list_objects_bulk host env bucket prfx delimiter max_keys token s =
     and_then (map_err EStorage (bulk_list_objects host env bucket prfx s)) (\<lambda>bulk s.
     (Inr (bulk_page bulk prfx delimiter max_keys token), s))"

definition correct_sizes ::
  "string \<Rightarrow> engine \<Rightarrow> (string \<times> file_metadata) list \<Rightarrow> (string \<times> file_metadata) list" where
  "correct_sizes bucket s objs = map (\<lambda>(key, m). (key, case meta_get bucket key s of
     Some cached \<Rightarrow> m\<lparr>file_size := file_size cached\<rparr> | None \<Rightarrow> m)) objs"

text \<open>The filesystem backend has nothing to add to the metadata of a listed object.\<close>

definition enrich_page ::
  "string \<Rightarrow> (string \<times> file_metadata) list \<Rightarrow> engine \<Rightarrow> (string \<times> file_metadata) list \<times> engine" where
  "enrich_page bucket objs s =
     (let miss = (\<lambda>(key, m). meta_get bucket key s = None \<and> list_entry_needs_head key m);
          hits = map (\<lambda>(key, m). (key, case meta_get bucket key s of Some c \<Rightarrow> c | None \<Rightarrow> m))
                   (filter (\<lambda>i. \<not> miss i) objs);
          enriched = filter miss objs;
          s = foldl (\<lambda>s (key, m). if is_unresolved_delta_stub m then s else meta_insert bucket key m s) s enriched
      in (sort_key fst (hits @ enriched), s))"

definition list_objects ::
  "host \<Rightarrow> engine_env \<Rightarrow> string \<Rightarrow> string \<Rightarrow> string option \<Rightarrow> nat \<Rightarrow> string option \<Rightarrow> bool
     \<Rightarrow> file_metadata list_page op" where
  "list_objects host env bucket prfx delimiter max_keys_raw token with_metadata s =
     (let max_keys = max max_keys_raw 1
      in case validate_prefix prfx of Inl e \<Rightarrow> (Inl (InvalidArgument (BadKey e)), s) | Inr _ \<Rightarrow>
      and_then (map_err EStorage (list_objects_delegated host env bucket prfx delimiter max_keys token s)) (\<lambda>dl s.
      and_then (case dl of Some page \<Rightarrow> (Inr page, s)
                | None \<Rightarrow> list_objects_bulk host env bucket prfx delimiter max_keys token s) (\<lambda>page s.
      if with_metadata
      then (case enrich_page bucket (pg_objects page) s of (objs, s) \<Rightarrow> (Inr (page\<lparr>pg_objects := objs\<rparr>), s))
      else (Inr (page\<lparr>pg_objects := correct_sizes bucket s (pg_objects page)\<rparr>), s))))"

fun scan_references ::
  "engine_env \<Rightarrow> string \<Rightarrow> nat option \<Rightarrow> string list \<Rightarrow> file_metadata list \<Rightarrow> engine
     \<Rightarrow> (file_metadata list \<times> bool) \<times> engine" where
  "scan_references env bucket limit [] refs s = ((refs, False), s)"
| "scan_references env bucket limit (p # ps) refs s =
     (if (case limit of Some n \<Rightarrow> length refs \<ge> n | None \<Rightarrow> False) then ((refs, True), s)
      else case get_reference_metadata env bucket p s of
        (Inr m, s) \<Rightarrow> scan_references env bucket limit ps (refs @ [m]) s
      | (Inl _, s) \<Rightarrow> scan_references env bucket limit ps refs s)"

definition list_deltaspace_references ::
  "engine_env \<Rightarrow> string \<Rightarrow> string \<Rightarrow> nat option \<Rightarrow> (file_metadata list \<times> bool) op" where
  "list_deltaspace_references env bucket scope_prefix limit s =
     and_then (map_err EStorage (list_deltaspaces env bucket s)) (\<lambda>all s.
     let scope = trim_end_matches (CHR ''/'') scope_prefix
     in case scan_references env bucket limit (filter (\<lambda>p. below scope p) all) [] s of
          (r, s) \<Rightarrow> (Inr r, s))"

section \<open>Pagination enumerates every entry once\<close>

lemma after_last:
  fixes E :: "('k :: linorder \<times> 'e) list"
  assumes "sorted_wrt (<) (map fst E)" "n < length E" "0 < n"
  shows "filter (\<lambda>e. fst e > fst (last (take n E))) E = drop n E"
proof -
  let ?l = "fst (last (take n E))"
  have l: "last (take n E) = E ! (n - 1)" using assms(2,3) by (subst last_conv_nth) auto
  have s: "fst (E ! i) < fst (E ! j)" if "i < j" "j < length E" for i j
    using assms(1) that by (simp add: sorted_wrt_iff_nth_less)
  have "\<not> ?l < fst e" if "e \<in> set (take n E)" for e
  proof -
    obtain i where i: "i < n" "e = E ! i" using \<open>e \<in> set (take n E)\<close> assms(2) by (auto simp: in_set_conv_nth)
    show ?thesis
    proof (cases "i = n - 1")
      case False
      with i assms(2) have "fst e < ?l" unfolding l using s [of i "n - 1"] by simp
      then show ?thesis by simp
    qed (simp add: l i)
  qed
  then have "filter (\<lambda>e. ?l < fst e) (take n E) = []" by (simp add: filter_empty_conv)
  moreover have "?l < fst e" if e: "e \<in> set (drop n E)" for e
  proof -
    from e obtain i where i: "i < length E - n" "e = E ! (n + i)" by (auto simp: in_set_conv_nth)
    then show ?thesis unfolding l using s [of "n - 1" "n + i"] assms(3) by simp
  qed
  then have "filter (\<lambda>e. ?l < fst e) (drop n E) = drop n E" by (simp add: filter_id_conv)
  ultimately have "filter (\<lambda>e. ?l < fst e) (take n E @ drop n E) = drop n E" unfolding filter_append by simp
  then show ?thesis by simp
qed

lemma after_token_drop:
  assumes "sorted_wrt (<) (map fst E)" "0 < n" "n < length (after_token token E)"
  shows "after_token (Some (fst (last (take n (after_token token E))))) E = drop n (after_token token E)"
proof -
  let ?A = "after_token token E"
  have sA: "sorted_wrt (<) (map fst ?A)"
    using assms(1) by (auto simp: after_token_def sorted_wrt_map sorted_wrt_filter split: option.split)
  have "take n ?A \<noteq> []" using assms(2,3) by auto
  then have "last (take n ?A) \<in> set ?A" by (meson in_set_takeD last_in_set)
  then have "\<forall>t. token = Some t \<longrightarrow> t < fst (last (take n ?A))" by (auto simp: after_token_def)
  then have "after_token (Some (fst (last (take n ?A)))) E = filter (\<lambda>e. fst e > fst (last (take n ?A))) ?A"
    by (auto simp: after_token_def intro!: filter_cong split: option.split)
  with after_last [OF sA assms(3,2)] show ?thesis by simp
qed

lemma paginate_sorted_cases:
  assumes "0 < max_keys"
  shows "paginate_sorted E max_keys token =
    (take max_keys (after_token token E), length (after_token token E) > max_keys,
     if length (after_token token E) > max_keys
     then Some (fst (last (take max_keys (after_token token E)))) else None)"
  using assms by (auto simp: paginate_sorted_def Let_def)

text \<open>The pages of a client, for any way of laying out the entries of a page.\<close>

lemma list_all_pages_enumerates:
  fixes fetch :: "string option \<Rightarrow> 'o list_page" and E :: "(string \<times> 'e) list"
  assumes E: "sorted_wrt (<) (map fst E)" and m: "0 < max_keys"
    and fetch: "\<And>t. fetch t = lay (take max_keys (after_token t E))
      (if length (after_token t E) > max_keys then Some (fst (last (take max_keys (after_token t E)))) else None)"
    and lay: "\<And>es tok. pg_token (lay es tok) = tok"
  shows "\<exists>chunks. list_all_pages fetch token = Some (map (\<lambda>(es, tok). lay es tok) chunks)
    \<and> concat (map fst chunks) = after_token token E \<and> (\<forall>c\<in>set chunks. length (fst c) \<le> max_keys)"
proof (induction "length (after_token token E)" arbitrary: token rule: less_induct)
  case less
  let ?A = "after_token token E"
  show ?case
  proof (cases "length ?A > max_keys")
    case False
    then have "list_all_pages fetch token = Some [lay ?A None]"
      by (subst list_all_pages.simps) (simp add: fetch lay)
    with False show ?thesis by (intro exI [of _ "[(?A, None)]"]) simp
  next
    case True
    let ?t = "Some (fst (last (take max_keys ?A)))"
    have d: "after_token ?t E = drop max_keys ?A" using after_token_drop [OF E m True] .
    with True m have "length (after_token ?t E) < length ?A" by simp
    from less [OF this] obtain chunks where
      c: "list_all_pages fetch ?t = Some (map (\<lambda>(es, tok). lay es tok) chunks)"
        "concat (map fst chunks) = after_token ?t E" "\<forall>c\<in>set chunks. length (fst c) \<le> max_keys" by blast
    have "list_all_pages fetch token = Some (lay (take max_keys ?A) ?t # map (\<lambda>(es, tok). lay es tok) chunks)"
      using True c(1) by (subst list_all_pages.simps) (simp add: fetch lay)
    with c(2,3) d show ?thesis
      by (intro exI [of _ "(take max_keys ?A, ?t) # chunks"]) simp
  qed
qed

section \<open>The entries of a listing\<close>

lemma entry_simps [simp]:
  "entry_objects [] = []" "entry_prefixes [] = []"
  "entry_objects ((k, Obj x) # es) = (k, x) # entry_objects es"
  "entry_objects ((k, CommonPrefix) # es) = entry_objects es"
  "entry_prefixes ((k, Obj x) # es) = entry_prefixes es"
  "entry_prefixes ((k, CommonPrefix) # es) = k # entry_prefixes es"
  by (simp_all add: entry_objects_def entry_prefixes_def List.map_filter_simps)

lemma entry_induct [case_names Nil Obj CommonPrefix]:
  assumes "P []" "\<And>k x es. P es \<Longrightarrow> P ((k, Obj x) # es)" "\<And>k es. P es \<Longrightarrow> P ((k, CommonPrefix) # es)"
  shows "P es"
proof (induction es)
  case (Cons a es)
  obtain k e where "a = (k, e)" by fastforce
  with Cons assms(2,3) show ?case by (cases e) simp_all
qed (rule assms(1))

lemma entry_append [simp]:
  "entry_objects (xs @ ys) = entry_objects xs @ entry_objects ys"
  "entry_prefixes (xs @ ys) = entry_prefixes xs @ entry_prefixes ys"
  by (induction xs rule: entry_induct) simp_all

lemma entry_concat:
  "entry_objects (concat xss) = concat (map entry_objects xss)"
  "entry_prefixes (concat xss) = concat (map entry_prefixes xss)"
  by (induction xss) simp_all

lemma length_entries: "length (entry_objects es) + length (entry_prefixes es) = length es"
  by (induction es rule: entry_induct) simp_all

lemma set_entry:
  "set (entry_objects es) = {(k, x). (k, Obj x) \<in> set es}" "set (entry_prefixes es) = {k. (k, CommonPrefix) \<in> set es}"
  by (induction es rule: entry_induct) auto

lemma sorted_entry:
  assumes "sorted_wrt (<) (map fst es)"
  shows "sorted_wrt (<) (map fst (entry_objects es))" "sorted_wrt (<) (entry_prefixes es)"
  using assms
proof (induction es rule: entry_induct)
  case (Obj k x es)
  { case 1 then show ?case using Obj by (fastforce simp: set_entry) }
  { case 2 then show ?case using Obj by simp }
next
  case (CommonPrefix k es)
  { case 1 then show ?case using CommonPrefix by simp }
  { case 2 then show ?case using CommonPrefix by (fastforce simp: set_entry) }
qed simp_all

lemma interleave_keys:
  assumes "distinct (map fst objects @ common_prefixes)"
  shows "sorted_wrt (<) (map fst (interleave objects common_prefixes))"
proof -
  let ?es = "map (\<lambda>(k, o'). (k, Obj o')) objects @ map (\<lambda>p. (p, CommonPrefix)) common_prefixes"
  have k: "map fst ?es = map fst objects @ common_prefixes" by (auto simp: comp_def)
  have "mset (map fst (sort_key fst ?es)) = mset (map fst objects @ common_prefixes)"
    unfolding k [symmetric] by (simp only: mset_map mset_sort)
  from mset_eq_imp_distinct_iff [OF this] assms have "distinct (map fst (interleave objects common_prefixes))"
    by (simp add: interleave_def)
  then show ?thesis by (simp add: strict_sorted_iff interleave_def)
qed

lemma strict_sorted_fst_eq:
  fixes xs ys :: "('k :: linorder \<times> 'e) list"
  assumes "sorted_wrt (<) (map fst xs)" "sorted_wrt (<) (map fst ys)" "set xs = set ys"
  shows "xs = ys"
  using assms by (intro map_sorted_distinct_set_unique [where f = fst]) (auto simp: strict_sorted_iff distinct_map)

lemma interleave_split:
  assumes "distinct (map fst objects @ common_prefixes)"
  shows "entry_objects (interleave objects common_prefixes) = sort_key fst objects"
    and "entry_prefixes (interleave objects common_prefixes) = sort common_prefixes"
proof -
  note s = sorted_entry [OF interleave_keys [OF assms]]
  have sets: "set (entry_objects (interleave objects common_prefixes)) = set (sort_key fst objects)"
    "set (entry_prefixes (interleave objects common_prefixes)) = set (sort common_prefixes)"
    by (auto simp: set_entry interleave_def)
  have "sorted_wrt (<) (sort common_prefixes)" using assms by (simp add: strict_sorted_iff)
  with s(2) sets(2) show "entry_prefixes (interleave objects common_prefixes) = sort common_prefixes"
    by (intro sorted_distinct_set_unique) (simp_all add: strict_sorted_iff)
  have "mset (map fst (sort_key fst objects)) = mset (map fst objects)" by (simp only: mset_map mset_sort)
  from mset_eq_imp_distinct_iff [OF this] assms have "sorted_wrt (<) (map fst (sort_key fst objects))"
    by (simp add: strict_sorted_iff)
  with s(1) sets(1) show "entry_objects (interleave objects common_prefixes) = sort_key fst objects"
    by (intro strict_sorted_fst_eq)
qed

definition lay_page :: "(string \<times> 'o entry) list \<Rightarrow> string option \<Rightarrow> 'o list_page" where
  "lay_page es tok = \<lparr>pg_objects = entry_objects es, pg_prefixes = entry_prefixes es,
     pg_truncated = (tok \<noteq> None), pg_token = tok\<rparr>"

lemma lay_page_simps [simp]:
  "pg_objects (lay_page es tok) = entry_objects es" "pg_prefixes (lay_page es tok) = entry_prefixes es"
  "pg_token (lay_page es tok) = tok" "pg_truncated (lay_page es tok) = (tok \<noteq> None)"
  by (simp_all add: lay_page_def)

lemma pages_of_entries:
  assumes "0 < max_keys" "distinct (map fst objects @ common_prefixes)"
  shows "\<exists>ps. list_all_pages (interleave_and_paginate objects common_prefixes max_keys) None = Some ps
    \<and> concat (map pg_objects ps) = sort_key fst objects \<and> concat (map pg_prefixes ps) = sort common_prefixes
    \<and> (\<forall>p\<in>set ps. length (pg_objects p) + length (pg_prefixes p) \<le> max_keys)"
proof -
  let ?E = "interleave objects common_prefixes"
  have "interleave_and_paginate objects common_prefixes max_keys t = lay_page (take max_keys (after_token t ?E))
      (if length (after_token t ?E) > max_keys then Some (fst (last (take max_keys (after_token t ?E)))) else None)" for t
    by (simp add: interleave_and_paginate_def paginate_sorted_cases [OF assms(1)] lay_page_def)
  from list_all_pages_enumerates [where lay = lay_page and token = None, OF interleave_keys [OF assms(2)] assms(1) this]
  obtain chunks where c: "list_all_pages (interleave_and_paginate objects common_prefixes max_keys) None
      = Some (map (\<lambda>(es, tok). lay_page es tok) chunks)"
    "concat (map fst chunks) = ?E" "\<forall>c\<in>set chunks. length (fst c) \<le> max_keys"
    by (auto simp: after_token_def)
  have "concat (map pg_objects (map (\<lambda>(es, tok). lay_page es tok) chunks)) = entry_objects (concat (map fst chunks))"
    "concat (map pg_prefixes (map (\<lambda>(es, tok). lay_page es tok) chunks)) = entry_prefixes (concat (map fst chunks))"
    by (simp_all add: entry_concat comp_def case_prod_unfold)
  with c interleave_split [OF assms(2)] show ?thesis
    by (auto simp: length_entries case_prod_unfold)
qed

lemma pages_of_items:
  assumes "0 < max_keys" "sorted_wrt (<) (map fst items)"
    and fetch: "\<And>t. fetch t = (case paginate_sorted items max_keys t of (objs, tr, tok) \<Rightarrow>
      \<lparr>pg_objects = objs, pg_prefixes = [], pg_truncated = tr, pg_token = tok\<rparr>)"
  shows "\<exists>ps. list_all_pages fetch None = Some ps
    \<and> concat (map pg_objects ps) = items \<and> concat (map pg_prefixes ps) = []
    \<and> (\<forall>p\<in>set ps. length (pg_objects p) + length (pg_prefixes p) \<le> max_keys)"
proof -
  define lay :: "(string \<times> 'a) list \<Rightarrow> string option \<Rightarrow> 'a list_page" where
    "lay es tok = \<lparr>pg_objects = es, pg_prefixes = [], pg_truncated = (tok \<noteq> None), pg_token = tok\<rparr>" for es tok
  have "fetch t = lay (take max_keys (after_token t items))
      (if length (after_token t items) > max_keys then Some (fst (last (take max_keys (after_token t items)))) else None)" for t
    by (simp add: fetch paginate_sorted_cases [OF assms(1)] lay_def)
  from list_all_pages_enumerates [where lay = lay and token = None, OF assms(2,1) this]
  obtain chunks where c: "list_all_pages fetch None = Some (map (\<lambda>(es, tok). lay es tok) chunks)"
    "concat (map fst chunks) = items" "\<forall>c\<in>set chunks. length (fst c) \<le> max_keys"
    by (auto simp: after_token_def lay_def)
  have "concat (map pg_objects (map (\<lambda>(es, tok). lay es tok) chunks)) = items"
    "concat (map pg_prefixes (map (\<lambda>(es, tok). lay es tok) chunks)) = []"
    using c(2) by (simp_all add: comp_def case_prod_unfold lay_def)
  with c show ?thesis by (auto simp: case_prod_unfold lay_def)
qed

section \<open>What a listing shows\<close>

lemma split_once_str_None: "split_once_str p s = None \<longleftrightarrow> \<not> contains_str s p"
  by (induction s) (auto simp: starts_with_def)

lemma collapse_cases:
  "collapsed_objects prfx d items = filter (\<lambda>i. \<not> contains_str (drop (length prfx) (fst i)) d) items"
  "set (collapsed_prefixes prfx d items) =
     {prfx @ a @ d | a b k. k \<in> fst ` set items \<and> split_once_str d (drop (length prfx) k) = Some (a, b)}"
proof -
  show "collapsed_objects prfx d items = filter (\<lambda>i. \<not> contains_str (drop (length prfx) (fst i)) d) items"
    by (induction items)
      (auto simp: collapsed_objects_def List.map_filter_simps collapse_step_def split_once_str_None [symmetric]
        split: option.splits)
  show "set (collapsed_prefixes prfx d items) =
     {prfx @ a @ d | a b k. k \<in> fst ` set items \<and> split_once_str d (drop (length prfx) k) = Some (a, b)}"
    by (force simp: collapsed_prefixes_def List.map_filter_def collapse_step_def split: option.splits)
qed

lemma contains_str_end: "contains_str (a @ d) d"
  unfolding contains_str_iff by (metis append_Nil2)

lemma collapsed_disjoint:
  assumes "distinct (map fst items)"
  shows "distinct (map fst (collapsed_objects prfx d items) @ collapsed_prefixes prfx d items)"
proof -
  have "k \<notin> set (collapsed_prefixes prfx d items)" if "k \<in> fst ` set (collapsed_objects prfx d items)" for k
    using that contains_str_end by (auto simp: collapse_cases)
  moreover have "distinct (collapsed_prefixes prfx d items)" by (simp add: collapsed_prefixes_def)
  ultimately show ?thesis using assms by (auto simp: collapse_cases(1) distinct_map_filter)
qed

lemma dedup_sorted:
  "sorted_wrt (<) (map fst (dedup_keep_latest bulk))" "fst ` set (dedup_keep_latest bulk) = fst ` set bulk"
  using map_fst_dedup [of bulk] by (simp_all add: strict_sorted_iff) (metis list.set_map set_remdups set_sort)

lemma sorted_wrt_map_filter: "sorted_wrt P (map f xs) \<Longrightarrow> sorted_wrt P (map f (filter Q xs))"
  by (simp add: sorted_wrt_map sorted_wrt_filter)

definition listed_directly :: "string \<Rightarrow> string option \<Rightarrow> string \<Rightarrow> bool" where
  "listed_directly prfx delimiter k \<longleftrightarrow> starts_with k prfx \<and>
     (case delimiter of None \<Rightarrow> True | Some d \<Rightarrow> \<not> contains_str (drop (length prfx) k) d)"

definition listed_prefixes :: "string \<Rightarrow> string option \<Rightarrow> string set \<Rightarrow> string set" where
  "listed_prefixes prfx delimiter keys = (case delimiter of None \<Rightarrow> {} | Some d \<Rightarrow>
     {prfx @ a @ d | a b k. k \<in> keys \<and> starts_with k prfx \<and> split_once_str d (drop (length prfx) k) = Some (a, b)})"

definition listing_complete ::
  "(string \<times> file_metadata) list \<Rightarrow> string \<Rightarrow> string option \<Rightarrow> nat \<Rightarrow> file_metadata list_page list \<Rightarrow> bool" where
  "listing_complete bulk prfx delimiter max_keys ps \<longleftrightarrow>
      concat (map pg_objects ps) = filter (\<lambda>i. listed_directly prfx delimiter (fst i)) (dedup_keep_latest bulk)
    \<and> sorted (concat (map pg_prefixes ps)) \<and> distinct (concat (map pg_prefixes ps))
    \<and> set (concat (map pg_prefixes ps)) = listed_prefixes prfx delimiter (fst ` set bulk)
    \<and> (\<forall>p\<in>set ps. length (pg_objects p) + length (pg_prefixes p) \<le> max_keys)"

lemma prefix_filter:
  "(if prfx = [] then items else filter (\<lambda>i. starts_with (fst i) prfx) items) = filter (\<lambda>i. starts_with (fst i) prfx) items"
  by simp

lemma sorted_with_prefix: "sorted_wrt (<) (map fst (filter P (dedup_keep_latest bulk)))"
  using dedup_sorted(1) by (rule sorted_wrt_map_filter)

lemma flat_listing:
  assumes "0 < max_keys"
  shows "\<exists>ps. list_all_pages (bulk_page bulk prfx None max_keys) None = Some ps \<and> listing_complete bulk prfx None max_keys ps"
proof -
  let ?items = "filter (\<lambda>i. starts_with (fst i) prfx) (dedup_keep_latest bulk)"
  have "bulk_page bulk prfx None max_keys t = (case paginate_sorted ?items max_keys t of (objs, tr, tok) \<Rightarrow>
      \<lparr>pg_objects = objs, pg_prefixes = [], pg_truncated = tr, pg_token = tok\<rparr>)" for t
    unfolding bulk_page_def Let_def prefix_filter by simp
  from pages_of_items [OF assms sorted_with_prefix this] obtain ps where ps:
    "list_all_pages (bulk_page bulk prfx None max_keys) None = Some ps"
    "concat (map pg_objects ps) = ?items" "concat (map pg_prefixes ps) = []"
    "\<forall>p\<in>set ps. length (pg_objects p) + length (pg_prefixes p) \<le> max_keys" by blast
  have "listing_complete bulk prfx None max_keys ps"
    unfolding listing_complete_def ps(2,3) using ps(4) by (simp add: listed_directly_def listed_prefixes_def)
  with ps(1) show ?thesis by blast
qed

lemma delimited_listing:
  assumes "0 < max_keys"
  shows "\<exists>ps. list_all_pages (bulk_page bulk prfx (Some d) max_keys) None = Some ps
    \<and> listing_complete bulk prfx (Some d) max_keys ps"
proof -
  let ?items = "filter (\<lambda>i. starts_with (fst i) prfx) (dedup_keep_latest bulk)"
  let ?o = "collapsed_objects prfx d ?items" and ?p = "collapsed_prefixes prfx d ?items"
  have b: "bulk_page bulk prfx (Some d) max_keys = interleave_and_paginate ?o ?p max_keys"
    unfolding bulk_page_def Let_def prefix_filter by (simp add: fun_eq_iff)
  have "distinct (map fst ?o @ ?p)"
    using sorted_with_prefix by (intro collapsed_disjoint) (simp add: strict_sorted_iff)
  from pages_of_entries [OF assms this] obtain ps where ps: "list_all_pages (interleave_and_paginate ?o ?p max_keys) None = Some ps"
    "concat (map pg_objects ps) = sort_key fst ?o" "concat (map pg_prefixes ps) = sort ?p"
    "\<forall>p\<in>set ps. length (pg_objects p) + length (pg_prefixes p) \<le> max_keys" by blast
  have "sorted_wrt (<) (map fst ?o)" unfolding collapse_cases using sorted_with_prefix by (rule sorted_wrt_map_filter)
  then have "sort_key fst ?o = ?o" by (intro sort_key_id_if_sorted) (simp add: strict_sorted_iff)
  moreover have "?o = filter (\<lambda>i. listed_directly prfx (Some d) (fst i)) (dedup_keep_latest bulk)"
    by (simp add: collapse_cases(1) listed_directly_def conj_commute)
  moreover have "fst ` set ?items = {k \<in> fst ` set bulk. starts_with k prfx}"
    unfolding dedup_sorted(2) [of bulk, symmetric] by auto
  then have "set ?p = listed_prefixes prfx (Some d) (fst ` set bulk)"
    unfolding collapse_cases listed_prefixes_def option.case by simp
  moreover have "distinct ?p" by (simp add: collapsed_prefixes_def)
  ultimately have "listing_complete bulk prfx (Some d) max_keys ps"
    unfolding listing_complete_def ps(2,3) using ps(4) by simp
  with ps(1) b show ?thesis by (intro exI [of _ ps]) simp
qed


definition sample_bulk :: "(string \<times> file_metadata) list" where
  "sample_bulk = map (\<lambda>(k, t). (k, new_passthrough t k [] [] 0 None)) [(''b'', 2), (''a/y'', 1), (''a/x'', 1), (''b'', 3)]"


end
