(* ===== verification/ListingCorrect.thy ===== *)
theory ListingCorrect
  imports Listing
begin

text \<open>
  The single-level listing of the filesystem backend, which reads one directory, shows the same pages
  as the generic listing, which walks the whole tree below the prefix and collapses keys in memory.
\<close>

section \<open>Pages do not depend on what the entries carry\<close>

lemma insort_key_map: "insort_key f (g x) (map g xs) = map g (insort_key (f \<circ> g) x xs)"
  by (induction xs) simp_all

lemma sort_key_map: "sort_key f (map g xs) = map g (sort_key (f \<circ> g) xs)"
  by (induction xs) (simp_all add: insort_key_map comp_def)

lemma interleave_map:
  "interleave (map (\<lambda>(k, x). (k, h x)) objs) cps = map (\<lambda>(k, e). (k, map_entry h e)) (interleave objs cps)"
proof -
  have "map (\<lambda>(k, x). (k, Obj x)) (map (\<lambda>(k, x). (k, h x)) objs) @ map (\<lambda>p. (p, CommonPrefix)) cps
      = map (\<lambda>(k, e). (k, map_entry h e)) (map (\<lambda>(k, x). (k, Obj x)) objs @ map (\<lambda>p. (p, CommonPrefix)) cps)"
    by auto
  moreover have "fst \<circ> (\<lambda>(k :: string, e). (k, map_entry h e)) = fst" by auto
  ultimately show ?thesis unfolding interleave_def by (simp only: sort_key_map)
qed

lemma entry_map:
  "entry_objects (map (\<lambda>(k, e). (k, map_entry h e)) es) = map (\<lambda>(k, x). (k, h x)) (entry_objects es)"
  "entry_prefixes (map (\<lambda>(k, e). (k, map_entry h e)) es) = entry_prefixes es"
  by (induction es rule: entry_induct) simp_all

lemma paginate_sorted_map:
  assumes "\<And>e. fst (g e) = fst e"
  shows "paginate_sorted (map g es) n tok = (case paginate_sorted es n tok of (xs, tr, t) \<Rightarrow> (map g xs, tr, t))"
proof -
  have "after_token tok (map g es) = map g (after_token tok es)"
    by (cases tok) (simp_all add: after_token_def filter_map comp_def assms)
  then show ?thesis by (auto simp: paginate_sorted_def Let_def take_map last_map assms)
qed

lemma page_map:
  "interleave_and_paginate (map (\<lambda>(k, x). (k, h x)) objs) cps n tok =
    (let p = interleave_and_paginate objs cps n tok in
     \<lparr>pg_objects = map (\<lambda>(k, x). (k, h x)) (pg_objects p), pg_prefixes = pg_prefixes p,
      pg_truncated = pg_truncated p, pg_token = pg_token p\<rparr>)"
  unfolding interleave_and_paginate_def interleave_map
  by (subst paginate_sorted_map) (auto simp: entry_map Let_def split: prod.split)

section \<open>De-duplication of distinct keys\<close>

lemma dedup_subset: "set (dedup_keep_latest items) \<subseteq> set items"
proof
  fix x assume x: "x \<in> set (dedup_keep_latest items)"
  let ?L = "foldl keep_latest_step Map.empty items"
  have L: "latest_of ?L (set items)" by (rule latest_of_fold)
  from x obtain k where k: "x = (k, the (?L k))" "k \<in> fst ` set items"
    by (auto simp: dedup_keep_latest_def Let_def)
  moreover from L have "dom ?L = fst ` set items" by (simp add: latest_of_def)
  ultimately obtain m where "?L k = Some m" by blast
  with L k(1) show "x \<in> set items" by (auto simp: latest_of_def)
qed

lemma dedup_distinct:
  assumes "distinct (map fst items)"
  shows "set (dedup_keep_latest items) = set items"
proof -
  have "x \<in> set (dedup_keep_latest items)" if x: "x \<in> set items" for x
  proof -
    obtain y where y: "y \<in> set (dedup_keep_latest items)" "fst y = fst x"
      using dedup_sorted(2) [of items] x by (metis imageE imageI)
    with dedup_subset [of items] assms x have "y = x" by (metis (no_types) eq_key_imp_eq_value prod.collapse subsetD)
    with y show ?thesis by simp
  qed
  with dedup_subset [of items] show ?thesis by blast
qed

section \<open>Trees without surprises\<close>

text \<open>
  Every visible file is recorded under the name that its file name shows, no object has two variants,
  nothing is recorded as a reference outside \<open>reference.bin\<close>, and no directory of a user prefix is
  called \<open>.dg\<close> or has an empty name.
\<close>

definition plain_tree :: "('e storage_env_scheme) \<Rightarrow> ('s storage_scheme) \<Rightarrow> string \<Rightarrow> bool" where
  "plain_tree env s b \<longleftrightarrow> distinct (map fst (data_files s)) \<and>
     (\<forall>(q, n, f) \<in> set (bucket_files s b). q = [] \<or> [] \<notin> set (split_on (CHR ''/'') q)) \<and>
     (\<forall>(q, n, f) \<in> set (bucket_files s b). \<not> hidden_file n \<longrightarrow>
        n \<noteq> [] \<and> CHR ''/'' \<notin> set n \<and> original_name (file_meta env n f) = user_filename n
        \<and> \<not> is_reference (file_meta env n f) \<and> (q = [] \<or> ''.dg'' \<notin> set (split_on (CHR ''/'') q))
        \<and> (\<forall>(q', n', f') \<in> set (bucket_files s b). \<not> hidden_file n' \<longrightarrow> q' = q \<longrightarrow>
             user_filename n' = user_filename n \<longrightarrow> n' = n))"

definition visible :: "('s storage_scheme) \<Rightarrow> string \<Rightarrow> (string \<times> string \<times> data_file) list" where
  "visible s b = filter (\<lambda>(q, n, f). \<not> hidden_file n) (bucket_files s b)"

lemma set_map_filter: "set (List.map_filter g xs) = {y. \<exists>x\<in>set xs. g x = Some y}"
  by (force simp: List.map_filter_def)

lemma map_filter_if: "List.map_filter (\<lambda>x. if P x then Some (g x) else None) xs = map g (filter P xs)"
  by (induction xs) (simp_all add: List.map_filter_simps)

lemma bucket_files_unique:
  assumes "distinct (map fst (data_files s))" "(q, n, f) \<in> set (bucket_files s b)" "(q, n, f') \<in> set (bucket_files s b)"
  shows "f = f'"
proof -
  have "((b, q, n), f) \<in> set (data_files s)" "((b, q, n), f') \<in> set (data_files s)"
    using assms(2,3) by (auto simp: bucket_files_def set_map_filter split: if_splits)
  with assms(1) show ?thesis by (rule eq_key_imp_eq_value)
qed

lemma bucket_files_map:
  "bucket_files s b = map (\<lambda>((b', q, n), f). (q, n, f)) (filter (\<lambda>((b', q, n), f). b' = b) (data_files s))"
proof -
  have "List.map_filter (\<lambda>((b', q, n), f). if b' = b then Some (q, n, f) else None) ds
      = map (\<lambda>((b', q, n), f). (q, n, f)) (filter (\<lambda>((b', q, n), f). b' = b) ds)" for ds :: "(fpath \<times> data_file) list"
    by (induction ds) (auto simp: List.map_filter_simps)
  then show ?thesis by (simp add: bucket_files_def)
qed

lemma bucket_files_distinct:
  assumes "distinct (map fst (data_files s))"
  shows "distinct (map (\<lambda>(q, n, f). (q, n)) (bucket_files s b))"
proof -
  note bucket_files_map [of s b]
  moreover have "distinct (map fst (filter (\<lambda>((b', q, n), f). b' = b) (data_files s)))"
    using assms by (rule distinct_map_filter)
  ultimately show ?thesis
    by (auto simp: distinct_map inj_on_def case_prod_unfold)
qed

text \<open>The key of a file, and what its place says about a listing of the directory \<open>p\<close>.\<close>

lemma join_key_inj:
  assumes "CHR ''/'' \<notin> set n" "CHR ''/'' \<notin> set n'" "join_key q n = join_key q' n'"
  shows "q = q' \<and> n = n'"
proof -
  have "rsplit_once (CHR ''/'') (join_key q n) = (if q = [] then None else Some (q, n))"
    "rsplit_once (CHR ''/'') (join_key q' n') = (if q' = [] then None else Some (q', n'))"
    using assms(1,2) by (auto simp: join_key_def rsplit_once_None rsplit_once_Some)
  with assms(3) show ?thesis by (auto simp: join_key_def split: if_splits)
qed

lemma user_filename_no_slash: "CHR ''/'' \<notin> set n \<Longrightarrow> CHR ''/'' \<notin> set (user_filename n)"
  by (auto simp: user_filename_def dest: in_set_takeD)

definition dir_prefix :: "string \<Rightarrow> string" where
  "dir_prefix p = (if p = [] then [] else p @ ''/'')"

lemma split_slash_None: "split_once_str ''/'' s = None \<longleftrightarrow> CHR ''/'' \<notin> set s"
  unfolding split_once_str_None contains_str_iff using split_list [of "CHR ''/''" s] by auto

lemma split_slash_first: "CHR ''/'' \<notin> set a \<Longrightarrow> split_once_str ''/'' (a @ CHR ''/'' # r) = Some (a, r)"
  by (induction a) (auto simp: starts_with_def)

lemma split_on_first: "hd (split_on c r) = takeWhile (\<lambda>x. x \<noteq> c) r"
  by (induction r) (auto split: list.splits)

lemma split_once_takeWhile:
  "split_once_str ''/'' s = (if CHR ''/'' \<in> set s
     then Some (takeWhile (\<lambda>x. x \<noteq> CHR ''/'') s, tl (dropWhile (\<lambda>x. x \<noteq> CHR ''/'') s)) else None)"
proof (cases "CHR ''/'' \<in> set s")
  case True
  then obtain a r where s: "s = a @ CHR ''/'' # r" "CHR ''/'' \<notin> set a" by (auto dest: split_list_first)
  then have "takeWhile (\<lambda>x. x \<noteq> CHR ''/'') s = a" "dropWhile (\<lambda>x. x \<noteq> CHR ''/'') s = CHR ''/'' # r"
    by (auto simp: takeWhile_append dropWhile_append)
  with s True show ?thesis by (simp add: split_slash_first)
qed (simp add: split_slash_None)

lemma takeWhile_slash: "takeWhile (\<lambda>x. x \<noteq> c) (r @ c # t) = takeWhile (\<lambda>x. x \<noteq> c) r"
  by (induction r) simp_all

lemma key_in_dir:
  assumes "CHR ''/'' \<notin> set u"
  shows "starts_with (join_key q u) (dir_prefix p) \<longleftrightarrow> q = p \<or> child_dir p q \<noteq> None"
proof (cases "p = []")
  case True
  then show ?thesis by (auto simp: dir_prefix_def child_dir_def)
next
  case False
  have "q = p \<or> starts_with q (p @ ''/'')" if s: "starts_with (q @ ''/'' @ u) (p @ ''/'')" "q \<noteq> []"
  proof -
    from s(1) obtain t where t: "q @ CHR ''/'' # u = p @ CHR ''/'' # t" by (auto simp: starts_with_iff)
    then consider a where "q = p @ a" "a @ CHR ''/'' # u = CHR ''/'' # t"
      | a where "p = q @ a" "CHR ''/'' # u = a @ CHR ''/'' # t"
      by (auto simp: append_eq_append_conv2)
    then show ?thesis
    proof cases
      case (1 a)
      then show ?thesis by (cases a) (auto simp: starts_with_iff)
    next
      case (2 a)
      then show ?thesis using assms by (cases a) auto
    qed
  qed
  moreover have "starts_with (q @ ''/'' @ u) (p @ ''/'')" if "starts_with q (p @ ''/'')"
    using that by (auto simp: starts_with_iff)
  moreover have "\<not> starts_with u (p @ ''/'')" using assms by (auto simp: starts_with_iff)
  moreover have "\<not> starts_with [] (p @ ''/'')" by (simp add: starts_with_def)
  moreover have "starts_with (p @ CHR ''/'' # u) (p @ ''/'')" by (auto simp: starts_with_iff)
  ultimately show ?thesis
    using False by (auto simp: join_key_def dir_prefix_def child_dir_def strip_prefix_def)
qed

lemma key_rest:
  assumes u: "CHR ''/'' \<notin> set u"
  shows "q = p \<Longrightarrow> split_once_str ''/'' (drop (length (dir_prefix p)) (join_key q u)) = None"
    and "child_dir p q = Some c \<Longrightarrow>
      \<exists>r. split_once_str ''/'' (drop (length (dir_prefix p)) (join_key q u)) = Some (c, r)"
    and "child_dir p q = Some c \<Longrightarrow> q \<noteq> p"
proof -
  show "split_once_str ''/'' (drop (length (dir_prefix p)) (join_key q u)) = None" if "q = p"
    using that u by (simp add: dir_prefix_def join_key_def split_slash_None)
  have "\<exists>r. drop (length (dir_prefix p)) (join_key q u) = r @ CHR ''/'' # u \<and> hd (split_on (CHR ''/'') r) = c \<and> q \<noteq> p"
    if c: "child_dir p q = Some c"
  proof (cases "p = []")
    case True
    with c show ?thesis by (auto simp: child_dir_def join_key_def dir_prefix_def split: if_splits)
  next
    case False
    with c obtain r where "q = p @ CHR ''/'' # r" "hd (split_on (CHR ''/'') r) = c"
      by (auto simp: child_dir_def strip_prefix_def starts_with_iff split: if_splits)
    with False show ?thesis by (auto simp: join_key_def dir_prefix_def)
  qed
  then show "child_dir p q = Some c \<Longrightarrow>
      \<exists>r. split_once_str ''/'' (drop (length (dir_prefix p)) (join_key q u)) = Some (c, r)"
    "child_dir p q = Some c \<Longrightarrow> q \<noteq> p"
    by (auto simp: split_once_takeWhile split_on_first takeWhile_slash)
qed

lemma child_dir_segment: "child_dir p q = Some c \<Longrightarrow> q \<noteq> [] \<and> c \<in> set (split_on (CHR ''/'') q)"
  by (auto simp: child_dir_def strip_prefix_def starts_with_iff split_on_append split: if_splits)

lemma below_child:
  assumes "child_dir p q = Some c" shows "below (join_key p c) q"
proof -
  have r: "\<exists>t. r = takeWhile (\<lambda>x. x \<noteq> CHR ''/'') r @ t \<and> (t = [] \<or> (\<exists>u. t = CHR ''/'' # u))" for r
    by (induction r) auto
  have "\<exists>t. q = join_key p c @ t \<and> (t = [] \<or> (\<exists>u. t = CHR ''/'' # u))"
  proof (cases "p = []")
    case True
    with assms have "c = takeWhile (\<lambda>x. x \<noteq> CHR ''/'') q" by (auto simp: child_dir_def split_on_first split: if_splits)
    from r [of q, folded this] True show ?thesis by (simp add: join_key_def)
  next
    case False
    with assms obtain r' where r': "q = p @ CHR ''/'' # r'" "c = takeWhile (\<lambda>x. x \<noteq> CHR ''/'') r'"
      by (auto simp: child_dir_def strip_prefix_def starts_with_iff split_on_first split: if_splits)
    from r [of r', folded r'(2)] obtain t where "r' = c @ t" "t = [] \<or> (\<exists>u. t = CHR ''/'' # u)" by blast
    with False r'(1) show ?thesis by (simp add: join_key_def)
  qed
  then show ?thesis by (auto simp: below_def starts_with_iff)
qed

lemma child_below:
  assumes "below (join_key p c) q" "c \<noteq> []" "CHR ''/'' \<notin> set c"
  shows "child_dir p q = Some c"
proof -
  have c: "takeWhile (\<lambda>x. x \<noteq> CHR ''/'') c = c" "takeWhile (\<lambda>x. x \<noteq> CHR ''/'') (c @ CHR ''/'' # r) = c" for r
    using assms(3) unfolding takeWhile_slash by (induction c) auto
  have "join_key p c \<noteq> []" using assms(2) by (simp add: join_key_def)
  with assms(1) obtain r where r: "q = join_key p c @ r" "r = [] \<or> (\<exists>u. r = CHR ''/'' # u)"
    unfolding below_def starts_with_iff by force
  from r(2) have h: "hd (split_on (CHR ''/'') (c @ r)) = c" unfolding split_on_first by (elim disjE exE) (simp_all only: c append_Nil2)
  show ?thesis
  proof (cases "p = []")
    case True
    with r(1) h assms(2) show ?thesis by (simp add: child_dir_def join_key_def)
  next
    case False
    with r(1) h show ?thesis by (simp add: child_dir_def join_key_def strip_prefix_def starts_with_def)
  qed
qed

section \<open>The two listings show the same page\<close>

lemma update_new: "k \<notin> fst ` set al \<Longrightarrow> AList.update k v al = al @ [(k, v)]"
  by (induction al) auto

definition file_entry :: "string \<Rightarrow> string \<times> data_file \<Rightarrow> string \<times> (string \<times> data_file) \<times> bool" where
  "file_entry p nf = (join_key p (user_filename (fst nf)), (nf, ends_with (fst nf) ''.delta''))"

lemma object_map_distinct:
  assumes "distinct (map (fst \<circ> file_entry p) (filter (\<lambda>nf. \<not> hidden_file (fst nf)) fs))"
    "\<forall>nf\<in>set (filter (\<lambda>nf. \<not> hidden_file (fst nf)) fs). fst (file_entry p nf) \<notin> fst ` set acc"
  shows "foldl (object_map_step p []) acc fs = acc @ map (file_entry p) (filter (\<lambda>nf. \<not> hidden_file (fst nf)) fs)"
  using assms
proof (induction fs arbitrary: acc)
  case (Cons nf fs)
  show ?case
  proof (cases "hidden_file (fst nf)")
    case True
    then have "object_map_step p [] acc nf = acc" by (simp add: object_map_step_def case_prod_unfold)
    with True Cons show ?thesis by simp
  next
    case False
    from Cons.prems(2) False have "fst (file_entry p nf) \<notin> fst ` set acc" by simp
    then have "map_of acc (fst (file_entry p nf)) = None" "fst (file_entry p nf) \<notin> fst ` set acc"
      by (simp_all add: map_of_eq_None_iff)
    with False have "object_map_step p [] acc nf = acc @ [file_entry p nf]"
      by (simp add: object_map_step_def case_prod_unfold file_entry_def starts_with_def update_new Let_def)
    moreover have "\<forall>nf'\<in>set (filter (\<lambda>nf. \<not> hidden_file (fst nf)) fs).
        fst (file_entry p nf') \<notin> fst ` set (acc @ [file_entry p nf])"
      using Cons.prems False by (simp add: image_iff) metis
    ultimately show ?thesis using Cons.IH [of "acc @ [file_entry p nf]"] Cons.prems(1) False by simp
  qed
qed simp

lemma page_objects_subset: "set (pg_objects (interleave_and_paginate objs cps n tok)) \<subseteq> set objs"
proof -
  have "set (fst (paginate_sorted es n tok)) \<subseteq> set es" for es :: "(string \<times> 'a entry) list"
    by (auto simp: paginate_sorted_def Let_def after_token_def dest: in_set_takeD split: option.splits)
  from this [of "interleave objs cps"] have
    "set (entry_objects (fst (paginate_sorted (interleave objs cps) n tok))) \<subseteq> set (entry_objects (interleave objs cps))"
    by (auto simp: set_entry)
  also have "\<dots> \<subseteq> set objs" by (auto simp: set_entry interleave_def)
  finally show ?thesis by (simp add: interleave_and_paginate_def case_prod_unfold)
qed

lemma plain_treeD:
  assumes "plain_tree env s b" "(q, n, f) \<in> set (visible s b)"
  shows "n \<noteq> []" "CHR ''/'' \<notin> set n" "original_name (file_meta env n f) = user_filename n"
    "\<not> is_reference (file_meta env n f)" "child_dir p q \<noteq> Some []" "child_dir p q \<noteq> Some ''.dg''"
  using assms child_dir_segment [of p q] unfolding plain_tree_def visible_def by auto

lemma plain_tree_unique:
  assumes "plain_tree env s b" "(q, n, f) \<in> set (visible s b)" "(q, n', f') \<in> set (visible s b)"
    "user_filename n = user_filename n'"
  shows "n = n' \<and> f = f'"
proof -
  have "n = n'" using assms unfolding plain_tree_def visible_def by fastforce
  with assms bucket_files_unique [of s q n f b f'] show ?thesis by (auto simp: plain_tree_def visible_def)
qed

definition shown :: "('e storage_env_scheme) \<Rightarrow> string \<times> string \<times> data_file \<Rightarrow> string \<times> file_metadata" where
  "shown env x = (case x of (q, n, f) \<Rightarrow> (join_key q (user_filename n), file_meta env n f))"

lemma shown_distinct:
  assumes "plain_tree env s b"
  shows "distinct (map (fst \<circ> shown env) (visible s b))"
proof -
  have "distinct (map (\<lambda>(q, n, f). (q, n)) (bucket_files s b))"
    using assms by (intro bucket_files_distinct) (simp add: plain_tree_def)
  then have "distinct (visible s b)" by (auto simp: visible_def distinct_map)
  moreover have "inj_on (fst \<circ> shown env) (set (visible s b))"
  proof (rule inj_onI)
    fix x y assume xy: "x \<in> set (visible s b)" "y \<in> set (visible s b)" "(fst \<circ> shown env) x = (fst \<circ> shown env) y"
    obtain q n f q' n' f' where e: "x = (q, n, f)" "y = (q', n', f')" by (metis prod_cases3)
    have "CHR ''/'' \<notin> set (user_filename n)" "CHR ''/'' \<notin> set (user_filename n')"
      using plain_treeD(2) [OF assms, of q n f] plain_treeD(2) [OF assms, of q' n' f'] xy(1,2) e
      by (simp_all add: user_filename_no_slash)
    then have "q = q' \<and> user_filename n = user_filename n'"
      using xy(3) e by (intro join_key_inj) (simp_all add: shown_def)
    with plain_tree_unique [OF assms] xy(1,2) e show "x = y" by blast
  qed
  ultimately show ?thesis by (simp add: distinct_map)
qed

lemma bulk_walk_plain:
  assumes "plain_tree env s b"
  shows "bulk_walk env s b p = map (shown env) (filter (\<lambda>x. below p (fst x)) (visible s b))"
proof -
  have "List.map_filter (\<lambda>(q, name, f).
       if below p q \<and> \<not> hidden_file name \<and> \<not> is_reference (file_meta env name f)
       then Some (join_key q (original_name (file_meta env name f)), file_meta env name f) else None) ds
    = map (shown env) (filter (\<lambda>x. below p (fst x)) (filter (\<lambda>(q, n, f). \<not> hidden_file n) ds))"
    if "\<forall>(q, n, f)\<in>set ds. \<not> hidden_file n \<longrightarrow>
        original_name (file_meta env n f) = user_filename n \<and> \<not> is_reference (file_meta env n f)" for ds
    using that by (induction ds) (auto simp: List.map_filter_simps shown_def)
  moreover have "\<forall>(q, n, f)\<in>set (bucket_files s b). \<not> hidden_file n \<longrightarrow>
        original_name (file_meta env n f) = user_filename n \<and> \<not> is_reference (file_meta env n f)"
    using assms unfolding plain_tree_def by fastforce
  ultimately show ?thesis unfolding bulk_walk_def visible_def by blast
qed

text \<open>What the generic listing of a directory shows.\<close>

lemma in_dir:
  assumes "plain_tree env s b" "x \<in> set (visible s b)"
  shows "starts_with (fst (shown env x)) (dir_prefix p) \<longleftrightarrow> fst x = p \<or> child_dir p (fst x) \<noteq> None"
    and "fst x = p \<Longrightarrow> split_once_str ''/'' (drop (length (dir_prefix p)) (fst (shown env x))) = None"
    and "child_dir p (fst x) = Some c \<Longrightarrow>
      \<exists>r. split_once_str ''/'' (drop (length (dir_prefix p)) (fst (shown env x))) = Some (c, r)"
    and "child_dir p (fst x) = Some c \<Longrightarrow> fst x \<noteq> p"
proof -
  obtain q n f where x: "x = (q, n, f)" by (metis prod_cases3)
  with plain_treeD(2) [OF assms(1), of q n f] assms(2) have u: "CHR ''/'' \<notin> set (user_filename n)"
    by (simp add: user_filename_no_slash)
  from key_in_dir [OF this] key_rest [OF u]
  show "starts_with (fst (shown env x)) (dir_prefix p) \<longleftrightarrow> fst x = p \<or> child_dir p (fst x) \<noteq> None"
    "fst x = p \<Longrightarrow> split_once_str ''/'' (drop (length (dir_prefix p)) (fst (shown env x))) = None"
    "child_dir p (fst x) = Some c \<Longrightarrow>
      \<exists>r. split_once_str ''/'' (drop (length (dir_prefix p)) (fst (shown env x))) = Some (c, r)"
    "child_dir p (fst x) = Some c \<Longrightarrow> fst x \<noteq> p"
    by (simp_all add: x shown_def)
qed

lemma below_of_dir: "below p q \<longleftrightarrow> q = p \<or> child_dir p q \<noteq> None"
  by (auto simp: below_def child_dir_def strip_prefix_def)

definition dir_items ::
  "('e storage_env_scheme) \<Rightarrow> ('s storage_scheme) \<Rightarrow> string \<Rightarrow> string \<Rightarrow> (string \<times> file_metadata) list" where
  "dir_items env s b p = filter (\<lambda>i. starts_with (fst i) (dir_prefix p)) (dedup_keep_latest (bulk_walk env s b p))"

lemma set_dir_items:
  assumes "plain_tree env s b"
  shows "set (dir_items env s b p) = shown env ` {x \<in> set (visible s b). fst x = p \<or> child_dir p (fst x) \<noteq> None}"
proof -
  have "distinct (map fst (bulk_walk env s b p))"
    using shown_distinct [OF assms] unfolding bulk_walk_plain [OF assms] map_map by (rule distinct_map_filter)
  then have "set (dir_items env s b p) = {i \<in> set (bulk_walk env s b p). starts_with (fst i) (dir_prefix p)}"
    by (simp add: dir_items_def dedup_distinct)
  also have "\<dots> = shown env ` {x \<in> set (visible s b). below p (fst x) \<and> starts_with (fst (shown env x)) (dir_prefix p)}"
    unfolding bulk_walk_plain [OF assms] by auto
  also have "\<dots> = shown env ` {x \<in> set (visible s b). fst x = p \<or> child_dir p (fst x) \<noteq> None}"
    using in_dir(1) [OF assms] below_of_dir [of p] by (intro arg_cong [of _ _ "(`) (shown env)"]) blast
  finally show ?thesis .
qed

lemma generic_objects:
  assumes "plain_tree env s b"
  shows "set (collapsed_objects (dir_prefix p) ''/'' (dir_items env s b p))
      = shown env ` {x \<in> set (visible s b). fst x = p}"
    and "set (collapsed_prefixes (dir_prefix p) ''/'' (dir_items env s b p))
      = {join_key p c @ ''/'' | c x. x \<in> set (visible s b) \<and> child_dir p (fst x) = Some c}"
proof -
  let ?rest = "\<lambda>x. split_once_str ''/'' (drop (length (dir_prefix p)) (fst (shown env x)))"
  have r: "?rest x = None \<longleftrightarrow> fst x = p" if "x \<in> set (visible s b)" "fst x = p \<or> child_dir p (fst x) \<noteq> None" for x
  proof (cases "child_dir p (fst x)")
    case None
    with that in_dir(2) [OF assms, of x p] show ?thesis by simp
  next
    case (Some c)
    with that in_dir(3,4) [OF assms that(1), of p c] show ?thesis by auto
  qed
  let ?X = "{x \<in> set (visible s b). fst x = p \<or> child_dir p (fst x) \<noteq> None}"
  have i: "{i \<in> shown env ` A. P i} = shown env ` {x \<in> A. P (shown env x)}" for A P by blast
  have "x \<in> ?X \<and> ?rest x = None \<longleftrightarrow> x \<in> set (visible s b) \<and> fst x = p" for x
    using r [of x] by (cases "x \<in> ?X") auto
  then have "{x \<in> ?X. ?rest x = None} = {x \<in> set (visible s b). fst x = p}" by (intro Collect_cong)
  then show "set (collapsed_objects (dir_prefix p) ''/'' (dir_items env s b p))
      = shown env ` {x \<in> set (visible s b). fst x = p}"
    unfolding collapse_cases set_filter set_dir_items [OF assms] split_once_str_None [symmetric] i by simp
  have j: "dir_prefix p @ c @ ''/'' = join_key p c @ ''/''" for c by (simp add: dir_prefix_def join_key_def)
  have h: "(\<exists>d. ?rest x = Some (c, d)) \<longleftrightarrow> child_dir p (fst x) = Some c" if "x \<in> ?X" for x c
  proof (cases "child_dir p (fst x)")
    case None
    with that in_dir(2) [OF assms, of x p] show ?thesis by simp
  next
    case (Some c')
    with that in_dir(3) [OF assms, of x p c'] show ?thesis by auto
  qed
  have hx: "x \<in> ?X \<and> (\<exists>d. ?rest x = Some (c, d)) \<longleftrightarrow> x \<in> set (visible s b) \<and> child_dir p (fst x) = Some c" for x c
    using h [of x c] by (cases "x \<in> ?X") auto
  have "set (collapsed_prefixes (dir_prefix p) ''/'' (dir_items env s b p))
      = {join_key p c @ ''/'' | c d k. k \<in> (\<lambda>x. fst (shown env x)) ` ?X
          \<and> split_once_str ''/'' (drop (length (dir_prefix p)) k) = Some (c, d)}"
    unfolding collapse_cases set_dir_items [OF assms] image_image j ..
  also have "\<dots> = {join_key p c @ ''/'' | c x. x \<in> ?X \<and> (\<exists>d. ?rest x = Some (c, d))}" by blast
  also have "\<dots> = {join_key p c @ ''/'' | c x. x \<in> set (visible s b) \<and> child_dir p (fst x) = Some c}"
    by (simp only: hx)
  finally show "set (collapsed_prefixes (dir_prefix p) ''/'' (dir_items env s b p))
      = {join_key p c @ ''/'' | c x. x \<in> set (visible s b) \<and> child_dir p (fst x) = Some c}" .
qed

text \<open>What the single-level listing reads.\<close>

lemma dir_entries_files:
  assumes "\<not> starts_with p ''/''"
  shows "List.map_filter (\<lambda>(name, fo). map_option (Pair name) fo) (dir_entries host s b p)
    = map (\<lambda>(q, n, f). (n, f)) (filter (\<lambda>x. fst x = p) (bucket_files s b))"
proof -
  have "List.map_filter (\<lambda>(name, fo). map_option (Pair name) fo)
      (map (\<lambda>n. (n, None)) ds @ List.map_filter (\<lambda>(q, name, f). if q = p then Some (name, Some f) else None) xs)
    = map (\<lambda>(q, n, f). (n, f)) (filter (\<lambda>x. fst x = p) xs)" for ds and xs :: "(string \<times> string \<times> data_file) list"
  proof (induction ds)
    case Nil
    show ?case by (induction xs) (auto simp: List.map_filter_simps)
  qed (simp add: List.map_filter_simps)
  with assms show ?thesis by (simp add: dir_entries_def)
qed

lemma delegated_object_map:
  assumes "plain_tree env s b" "\<not> starts_with p ''/''"
  shows "foldl (object_map_step p []) [] (List.map_filter (\<lambda>(name, fo). map_option (Pair name) fo) (dir_entries host s b p))
    = map (\<lambda>(q, n, f). file_entry p (n, f)) (filter (\<lambda>x. fst x = p) (visible s b))"
proof -
  let ?vs = "filter (\<lambda>x. fst x = p) (visible s b)"
  let ?fs = "map (\<lambda>(q, n, f). (n, f)) (filter (\<lambda>x. fst x = p) (bucket_files s b))"
  have v: "filter (\<lambda>nf. \<not> hidden_file (fst nf)) ?fs = map (\<lambda>(q, n, f). (n, f)) ?vs"
    by (simp add: filter_map comp_def case_prod_unfold visible_def conj_commute)
  have "map (fst \<circ> shown env) ?vs = map (fst \<circ> file_entry p) (map (\<lambda>(q, n, f). (n, f)) ?vs)"
    by (auto simp: shown_def file_entry_def)
  moreover have "distinct (map (fst \<circ> shown env) ?vs)"
    using shown_distinct [OF assms(1)] by (rule distinct_map_filter)
  ultimately have "distinct (map (fst \<circ> file_entry p) (filter (\<lambda>nf. \<not> hidden_file (fst nf)) ?fs))"
    unfolding v by (simp only:)
  from object_map_distinct [OF this, of "[]"] show ?thesis
    unfolding dir_entries_files [OF assms(2)] v by (simp add: comp_def case_prod_unfold)
qed

lemma delegated_objects:
  assumes "plain_tree env s b"
  shows "map (\<lambda>(k, (n, f)). (k, file_meta env n f))
      (map (\<lambda>(k, (nf, _)). (k, nf)) (map (\<lambda>(q, n, f). file_entry p (n, f)) (filter (\<lambda>x. fst x = p) (visible s b))))
    = map (shown env) (filter (\<lambda>x. fst x = p) (visible s b))"
  by (auto simp: shown_def file_entry_def)

lemma subdirs_bucket_files: "c \<in> set (subdirs s b p) \<longleftrightarrow> (\<exists>(q, n, f)\<in>set (bucket_files s b). child_dir p q = Some c)"
proof -
  have "c \<in> set (List.map_filter (\<lambda>((b', q, _), _). if b' = b then child_dir p q else None) ds) \<longleftrightarrow>
    (\<exists>x\<in>set (map (\<lambda>((b', q, n), f). (q, n, f)) (filter (\<lambda>((b', q, n), f). b' = b) ds)). child_dir p (fst x) = Some c)"
    for ds :: "(fpath \<times> data_file) list"
    by (induction ds) (auto simp: List.map_filter_simps split: option.splits)
  then show ?thesis unfolding subdirs_def bucket_files_map set_remdups by (simp only: case_prod_unfold)
qed

lemma delegated_prefixes:
  assumes "plain_tree env s b" "\<not> starts_with p ''/''"
  shows "set (List.map_filter (\<lambda>(name, fo). if fo = None \<and> name \<noteq> ''.dg'' \<and> starts_with name []
      then Some (join_key p name @ ''/'') else None) (dir_entries host s b p))
    = {join_key p c @ ''/'' | c x. x \<in> set (visible s b) \<and> child_dir p (fst x) = Some c}"
proof -
  have c: "c \<in> set (subdirs s b p) \<and> dir_has_visible_data s b (join_key p c) \<and> c \<noteq> ''.dg''
      \<longleftrightarrow> (\<exists>x\<in>set (visible s b). child_dir p (fst x) = Some c)" for c
  proof (intro iffI; elim conjE bexE)
    assume s: "c \<in> set (subdirs s b p)" and "dir_has_visible_data s b (join_key p c)" "c \<noteq> ''.dg''"
    then obtain x where x: "x \<in> set (visible s b)" "below (join_key p c) (fst x)"
      by (auto simp: dir_has_visible_data_def visible_def list_ex_iff)
    from s obtain q n f where "(q, n, f) \<in> set (bucket_files s b)" "child_dir p q = Some c"
      by (auto simp: subdirs_bucket_files)
    then have "c \<noteq> []" "CHR ''/'' \<notin> set c"
      using assms(1) child_dir_segment [of p q c] split_on_no_sep [of c] unfolding plain_tree_def by fastforce+
    with x show "\<exists>x\<in>set (visible s b). child_dir p (fst x) = Some c" by (blast intro: child_below)
  next
    fix x assume x: "x \<in> set (visible s b)" "child_dir p (fst x) = Some c"
    obtain q n f where e: "x = (q, n, f)" by (metis prod_cases3)
    with x have q: "(q, n, f) \<in> set (visible s b)" "child_dir p q = Some c" by simp_all
    from q(1) have v: "(q, n, f) \<in> set (bucket_files s b)" "\<not> hidden_file n" by (simp_all add: visible_def)
    with q(2) have "c \<in> set (subdirs s b p)" by (auto simp: subdirs_bucket_files)
    moreover have "dir_has_visible_data s b (join_key p c)"
      using v below_child [OF q(2)] unfolding dir_has_visible_data_def list_ex_iff by blast
    moreover have "c \<noteq> ''.dg''" using plain_treeD(6) [OF assms(1) q(1), of p] q(2) by auto
    ultimately show "c \<in> set (subdirs s b p) \<and> dir_has_visible_data s b (join_key p c) \<and> c \<noteq> ''.dg''" by blast
  qed
  have "set (List.map_filter (\<lambda>(name, fo). if fo = None \<and> name \<noteq> ''.dg'' \<and> starts_with name []
      then Some (join_key p name @ ''/'') else None) (dir_entries host s b p))
    = {join_key p c @ ''/'' | c. c \<in> set (subdirs s b p) \<and> dir_has_visible_data s b (join_key p c) \<and> c \<noteq> ''.dg''}"
    using assms(2) by (force simp: set_map_filter dir_entries_def starts_with_def split: if_splits)
  then show ?thesis unfolding c by blast
qed

lemma collapsed_dir_items:
  assumes "plain_tree env s b"
  shows "collapsed_objects (dir_prefix p) ''/'' (dir_items env s b p)
      = sort_key fst (map (shown env) (filter (\<lambda>x. fst x = p) (visible s b)))"
    and "set xs = {join_key p c @ ''/'' | c x. x \<in> set (visible s b) \<and> child_dir p (fst x) = Some c}
      \<Longrightarrow> collapsed_prefixes (dir_prefix p) ''/'' (dir_items env s b p) = sort (remdups xs)"
proof -
  let ?o = "map (shown env) (filter (\<lambda>x. fst x = p) (visible s b))"
  have d: "distinct (map fst ?o)"
    using shown_distinct [OF assms] unfolding map_map by (rule distinct_map_filter)
  have "mset (map fst (sort_key fst ?o)) = mset (map fst ?o)" by (simp only: mset_map mset_sort)
  from mset_eq_imp_distinct_iff [OF this] d have "sorted_wrt (<) (map fst (sort_key fst ?o))"
    by (simp add: strict_sorted_iff)
  moreover have "sorted_wrt (<) (map fst (collapsed_objects (dir_prefix p) ''/'' (dir_items env s b p)))"
    unfolding collapse_cases dir_items_def by (intro sorted_wrt_map_filter dedup_sorted(1))
  ultimately show "collapsed_objects (dir_prefix p) ''/'' (dir_items env s b p) = sort_key fst ?o"
    by (intro strict_sorted_fst_eq) (simp_all add: generic_objects(1) [OF assms])
  show "collapsed_prefixes (dir_prefix p) ''/'' (dir_items env s b p) = sort (remdups xs)"
    if "set xs = {join_key p c @ ''/'' | c x. x \<in> set (visible s b) \<and> child_dir p (fst x) = Some c}"
    using generic_objects(2) [OF assms, of p] that
    by (intro sorted_distinct_set_unique) (simp_all add: collapsed_prefixes_def)
qed

lemma sort_key_shown:
  fixes h :: "'a \<Rightarrow> 'b" and xs :: "(string \<times> 'a) list"
  shows "sort_key fst (map (\<lambda>(k, x). (k, h x)) xs) = map (\<lambda>(k, x). (k, h x)) (sort_key fst xs)"
proof -
  have "fst \<circ> (\<lambda>(k :: string, x). (k, h x)) = fst" by auto
  then show ?thesis by (simp only: sort_key_map)
qed

lemma trim_end_dir: "\<not> ends_with p ''/'' \<Longrightarrow> trim_end_matches (CHR ''/'') (p @ ''/'') = p \<and> trim_end_matches (CHR ''/'') p = p"
  by (cases p rule: rev_cases) (auto simp: trim_end_matches_def ends_with_iff)

lemma no_file_named_prefix:
  assumes "plain_tree env s b" "p \<noteq> []"
  shows "\<not> is_file s b (p @ ''/'')"
proof
  assume "is_file s b (p @ ''/'')"
  moreover have "rsplit_once (CHR ''/'') (p @ ''/'') = Some (p, [])" by (simp add: rsplit_once_Some)
  ultimately obtain f where "((b, p, []), f) \<in> set (data_files s)"
    by (auto simp: is_file_def lookup_file_def dest: map_of_SomeD)
  then have "(p, [], f) \<in> set (visible s b)"
    unfolding visible_def bucket_files_map by (simp add: hidden_file_def starts_with_def image_iff)
  with plain_treeD(1) [OF assms(1)] show False by blast
qed

lemma delegated_page:
  assumes "plain_tree env s b" "\<not> starts_with p ''/''" "\<not> is_file s b p" "sched env (tick s) = None"
  shows "list_objects_delegated host env b (dir_prefix p) (Some ''/'') max_keys token s
    = (Inr (Some (bulk_page (bulk_walk env s b p) (dir_prefix p) (Some ''/'') max_keys token)), next_tick s)"
proof -
  let ?split = "case rsplit_once (CHR ''/'') (dir_prefix p) of None \<Rightarrow> ([], dir_prefix p) | Some (d, n) \<Rightarrow> (d, n)"
  have "rsplit_once (CHR ''/'') (p @ ''/'') = Some (p, [])" by (simp add: rsplit_once_Some)
  then have split: "?split = (p, [])"
    by (cases "p = []") (simp_all add: dir_prefix_def rsplit_once_None [THEN iffD2])
  have s: "data_files (next_tick s) = data_files s" by (simp add: next_tick_def)
  then have n: "dir_entries host (next_tick s) b p = dir_entries host s b p" "is_file (next_tick s) b p = is_file s b p"
    by (simp_all add: dir_entries_def subdirs_def bucket_files_def dir_has_visible_data_def is_file_def lookup_file_def
        split: option.split)
  define cps where "cps = sort (remdups (List.map_filter (\<lambda>(name, fo).
     if fo = None \<and> name \<noteq> ''.dg'' \<and> starts_with name [] then Some (join_key p name @ ''/'') else None)
       (dir_entries host s b p)))"
  define objs where "objs = sort_key fst (map (\<lambda>(k, (nf, _)). (k, nf))
     (map (\<lambda>(q, n, f). file_entry p (n, f)) (filter (\<lambda>x. fst x = p) (visible s b))))"
  define h where "h nf = file_meta env (fst nf) (snd nf)" for nf
  have o: "map (\<lambda>(k, x). (k, h x)) objs = collapsed_objects (dir_prefix p) ''/'' (dir_items env s b p)"
    unfolding objs_def sort_key_shown [symmetric] collapsed_dir_items(1) [OF assms(1)]
      delegated_objects [OF assms(1), symmetric]
    by (simp only: h_def case_prod_unfold)
  have c: "cps = collapsed_prefixes (dir_prefix p) ''/'' (dir_items env s b p)"
    unfolding cps_def by (rule collapsed_dir_items(2) [OF assms(1) delegated_prefixes [OF assms(1,2)], symmetric])
  have g: "bulk_page (bulk_walk env s b p) (dir_prefix p) (Some ''/'') max_keys token
    = interleave_and_paginate (map (\<lambda>(k, x). (k, h x)) objs) cps max_keys token"
    unfolding o c by (simp add: bulk_page_def dir_items_def Let_def)
  let ?page = "interleave_and_paginate objs cps max_keys token"
  have "\<not> is_reference (h nf)" if "(k, nf) \<in> set (pg_objects ?page)" for k nf
  proof -
    from that page_objects_subset [of objs cps max_keys token] have "(k, nf) \<in> set objs" by blast
    then have "(p, fst nf, snd nf) \<in> set (visible s b)"
      by (auto simp: objs_def file_entry_def)
    from plain_treeD(4) [OF assms(1) this] show ?thesis by (simp add: h_def)
  qed
  then have "filter (\<lambda>(_, m). \<not> is_reference m) (map (\<lambda>(k, (name, f)). (k, file_meta env name f)) (pg_objects ?page))
      = map (\<lambda>(k, x). (k, h x)) (pg_objects ?page)"
    by (auto simp: filter_id_conv h_def case_prod_unfold)
  with assms(2-4) show ?thesis
    unfolding g page_map by (simp add: list_objects_delegated_def storage_op_def split n Let_def
        delegated_object_map [OF assms(1,2)] objs_def cps_def)
qed


text \<open>Two objects of one directory, one below it and a temporary file.\<close>

definition listed_env :: engine_env where
  "listed_env = \<lparr>sched = (\<lambda>_. None), unmanaged_digest = (\<lambda>_ _. ''u''), dir_stat = (\<lambda>_. (0, 0)),
     codec = toy_codec, sha256_hex = (\<lambda>_. ''s''), md5_hex = (\<lambda>_. ''m''),
     max_object_size = 100, max_passthrough_object_size = 1000, spool_threshold = 2,
     bucket_policies = \<lparr>policies = Map.empty, default_compression = True, default_max_delta_ratio = 3 / 4,
       replication_target_real_names = {}\<rparr>, usage_attached = False, reference_lock_attached = False\<rparr>"

definition listed_state :: engine where
  "listed_state = \<lparr>data_files = map (\<lambda>(q, n, orig). ((''b'', q, n),
       \<lparr>fdata = [1], fxattr = Some (new_passthrough 0 orig [] [] 1 None), fmtime = 0\<rparr>))
       [(''d'', ''x'', ''x''), (''d/e'', ''y'', ''y''), (''d'', ''.tmp'', ''t''), (''d'', ''a'', ''a''), ([], ''r'', ''r'')],
     bucket_dirs = [''b''], tick = 0, clock = 0, ref_cache = Map.empty, meta_cache = Map.empty, usage = Map.empty\<rparr>"


section \<open>Where the listings part\<close>

text \<open>An object stored as a delta and, later, as it is: a GET serves the newer variant, the single-level
  listing shows the older one.\<close>

definition two_variants :: engine where
  "two_variants = listed_state\<lparr>data_files :=
     [((''b'', [], ''x.zip.delta''), \<lparr>fdata = [1], fxattr = Some (new_delta 1 ''x.zip'' [] [] 7 ''r'' ''s'' 1 None), fmtime = 1\<rparr>),
      ((''b'', [], ''x.zip''), \<lparr>fdata = [1, 2], fxattr = Some (new_passthrough 2 ''x.zip'' [] [] 2 None), fmtime = 2\<rparr>)]\<rparr>"

lemma delegated_shows_the_older_variant:
  "map (\<lambda>(k, m). (k, file_size m)) (dedup_keep_latest (bulk_walk listed_env two_variants ''b'' [])) = [(''x.zip'', 2)]"
  "case list_objects_delegated \<lparr>host_walk = (\<lambda>_. []), host_entries = (\<lambda>_. [])\<rparr> listed_env ''b'' [] (Some ''/'') 10 None two_variants of
     (Inr (Some page), _) \<Rightarrow> map (\<lambda>(k, m). (k, file_size m)) (pg_objects page) = [(''x.zip'', 7)] | _ \<Rightarrow> False"
  by code_simp+

lemma absolute_prefix_lists_the_host:
  "validate_prefix ''/etc/'' = Inr ()"
  "case list_objects_delegated \<lparr>host_walk = (\<lambda>_. []), host_entries = (\<lambda>_. [(''shadow'', Some \<lparr>fdata = [], fxattr = None, fmtime = 0\<rparr>)])\<rparr>
       listed_env ''b'' ''/etc/'' (Some ''/'') 10 None listed_state of
     (Inr (Some page), _) \<Rightarrow> map fst (pg_objects page) = [''/etc/shadow''] | _ \<Rightarrow> False"
  by code_simp+

lemma dot_objects_are_erased:
  "case put_passthrough listed_env ''b'' [] ''.profile'' [1, 2] (new_passthrough 1 ''.profile'' [] [] 2 None)
       (listed_state\<lparr>data_files := []\<rparr>) of (r, s) \<Rightarrow>
     r = Inr () \<and> fst (get_passthrough listed_env ''b'' [] ''.profile'' s) = Inr [1, 2]
     \<and> fst (delete_bucket listed_env ''b'' s) = Inr ()"
  by code_simp

section \<open>Removing a bucket\<close>

lemma delete_bucket_cases:
  "delete_bucket env b s = (case sched env (tick s) of
     Some (FaultBefore e) \<Rightarrow> (Inl e, next_tick s) | Some (FaultAfter e) \<Rightarrow> (Inl e, next_tick s)
   | None \<Rightarrow> if b \<notin> set (bucket_dirs s) then (Inl (BucketNotFound b), next_tick s)
       else if dir_has_visible_data s b [] then (Inl (BucketNotEmpty b), next_tick s)
       else (Inr (), (next_tick s)\<lparr>data_files := filter (\<lambda>((b', _, _), _). b' \<noteq> b) (data_files s),
                                   bucket_dirs := filter (\<lambda>b'. b' \<noteq> b) (bucket_dirs s)\<rparr>))"
  by (auto simp: delete_bucket_def storage_op_def next_tick_def dir_has_visible_data_def bucket_files_def
      split: option.split fault.split)



end
