(* ===== verification/Leases.thy ===== *)
theory Leases
  imports Prelude
begin

text \<open>
  Leader leases: the rows of the job tables (\<open>src/src/config_db/job_store.rs\<close>) behind
  \<open>LocalLease\<close>, and the lease object in the coordination bucket (\<open>src/src/coordination/s3_lease.rs\<close>)
  behind \<open>S3Lease\<close>.  The S3 service is a parameter: what it answers to a read, a conditional write and
  a conditional delete.  Entity tags are opaque, so their type is a parameter as well.
\<close>

section \<open>Expiry\<close>

definition lease_expiry :: "int \<Rightarrow> int \<Rightarrow> int" where
  "lease_expiry now ttl_secs = sat_i64 (now + max ttl_secs 1)"

lemma lease_expiry_mono: "now \<le> now' \<Longrightarrow> lease_expiry now ttl \<le> lease_expiry now' ttl"
  by (auto simp: lease_expiry_def sat_i64_def)

section \<open>Rows of a job table\<close>

record lease_row =
  leader_instance_id :: "string option"
  leader_expires_at :: "int option"

type_synonym ('k, 'r) lease_table = "'k \<Rightarrow> ('r lease_row_scheme) option"

definition try_acquire_leader_lease ::
  "'k \<Rightarrow> string \<Rightarrow> int \<Rightarrow> int \<Rightarrow> ('k, 'r) lease_table \<Rightarrow> bool \<times> ('k, 'r) lease_table" where
  "try_acquire_leader_lease key owner now ttl_secs t =
     (case t key of
        None \<Rightarrow> (False, t)
      | Some row \<Rightarrow>
          if leader_instance_id row = None \<or> leader_expires_at row = None \<or> the (leader_expires_at row) < now
          then (True, t(key \<mapsto> row\<lparr>leader_instance_id := Some owner,
                                 leader_expires_at := Some (lease_expiry now ttl_secs)\<rparr>))
          else (False, t))"

definition renew_leader_lease ::
  "'k \<Rightarrow> string \<Rightarrow> int \<Rightarrow> int \<Rightarrow> ('k, 'r) lease_table \<Rightarrow> bool \<times> ('k, 'r) lease_table" where
  "renew_leader_lease key owner now ttl_secs t =
     (case t key of
        None \<Rightarrow> (False, t)
      | Some row \<Rightarrow>
          if leader_instance_id row = Some owner
             \<and> (leader_expires_at row = None \<or> the (leader_expires_at row) \<ge> now)
          then (True, t(key \<mapsto> row\<lparr>leader_expires_at := Some (lease_expiry now ttl_secs)\<rparr>))
          else (False, t))"

definition release_leader_lease :: "'k \<Rightarrow> string \<Rightarrow> ('k, 'r) lease_table \<Rightarrow> bool \<times> ('k, 'r) lease_table" where
  "release_leader_lease key owner t =
     (case t key of
        None \<Rightarrow> (False, t)
      | Some row \<Rightarrow>
          if leader_instance_id row = Some owner
          then (True, t(key \<mapsto> row\<lparr>leader_instance_id := None, leader_expires_at := None\<rparr>))
          else (False, t))"

definition lease_is_held :: "'k \<Rightarrow> int \<Rightarrow> ('k, 'r) lease_table \<Rightarrow> bool" where
  "lease_is_held key now t =
     (case t key of
        None \<Rightarrow> False
      | Some row \<Rightarrow> leader_instance_id row \<noteq> None
          \<and> (case leader_expires_at row of None \<Rightarrow> False | Some e \<Rightarrow> e \<ge> now))"

definition clear_stale_leases :: "int \<Rightarrow> ('k, 'r) lease_table \<Rightarrow> ('k, 'r) lease_table" where
  "clear_stale_leases now t = (\<lambda>key. map_option (\<lambda>row.
     case leader_expires_at row of
       Some e \<Rightarrow> if e < now then row\<lparr>leader_instance_id := None, leader_expires_at := None\<rparr> else row
     | None \<Rightarrow> row) (t key))"

definition lapse_all_leases :: "('k, 'r) lease_table \<Rightarrow> ('k, 'r) lease_table" where
  "lapse_all_leases t = (\<lambda>key. map_option (\<lambda>row.
     if leader_expires_at row \<noteq> None then row\<lparr>leader_expires_at := Some 0\<rparr> else row) (t key))"

section \<open>The lease object\<close>

record lease =
  owner :: string
  node_id :: string
  epoch :: nat
  expires_at :: int

datatype 'e acquire_action = Create | Steal 'e nat | Blocked

definition plan_acquire :: "(lease \<times> 'e) option \<Rightarrow> int \<Rightarrow> string \<Rightarrow> 'e acquire_action" where
  "plan_acquire current now my_node_id =
     (case current of
        None \<Rightarrow> Create
      | Some (l, etag) \<Rightarrow>
          if expires_at l < now \<or> node_id l = my_node_id
          then Steal etag (sat_add (epoch l) 1) else Blocked)"

datatype 'e renew_action = Renew 'e nat | Lost

definition plan_renew :: "(lease \<times> 'e) option \<Rightarrow> int \<Rightarrow> string \<Rightarrow> 'e renew_action" where
  "plan_renew current now ownr =
     (case current of
        Some (l, etag) \<Rightarrow> if owner l = ownr \<and> expires_at l \<ge> now then Renew etag (epoch l) else Lost
      | None \<Rightarrow> Lost)"

text \<open>
  The service: what the bucket holds at a key (a document that is not a lease has no lease in it), and
  the answers to a GET, a PUT with \<open>If-Match\<close> or \<open>If-None-Match: *\<close> (412 is \<open>Inr False\<close>) and a DELETE
  with \<open>If-Match\<close>.
\<close>

record ('w, 'e) cas_service =
  svc_view :: "'w \<Rightarrow> string \<Rightarrow> (lease option \<times> 'e) option"
  svc_get :: "string \<Rightarrow> 'w \<Rightarrow> (string, (lease option \<times> 'e) option) result \<times> 'w"
  svc_put :: "string \<Rightarrow> lease \<Rightarrow> 'e option \<Rightarrow> 'w \<Rightarrow> (string, bool) result \<times> 'w"
  svc_delete :: "string \<Rightarrow> 'e \<Rightarrow> 'w \<Rightarrow> (string, unit) result \<times> 'w"

definition precondition_holds :: "('w, 'e) cas_service \<Rightarrow> string \<Rightarrow> 'e option \<Rightarrow> 'w \<Rightarrow> bool" where
  "precondition_holds svc k pre w =
     (case pre of None \<Rightarrow> svc_view svc w k = None | Some e \<Rightarrow> \<exists>b. svc_view svc w k = Some (b, e))"

text \<open>
  What S3 documents of conditional requests.  A write or delete that reports an error may or may not
  have been applied; applied, it met its precondition.  An entity tag names the content.
\<close>

definition cas_service_ok :: "('w, 'e) cas_service \<Rightarrow> bool" where
  "cas_service_ok svc \<longleftrightarrow>
     (\<forall>k w r w'. svc_get svc k w = (r, w') \<longrightarrow>
        svc_view svc w' = svc_view svc w \<and> (\<forall>x. r = Inr x \<longrightarrow> x = svc_view svc w k))
   \<and> (\<forall>k l pre w r w'. svc_put svc k l pre w = (r, w') \<longrightarrow>
        (\<exists>e. precondition_holds svc k pre w \<and> svc_view svc w' = (svc_view svc w)(k \<mapsto> (Some l, e)) \<and> r \<noteq> Inr False)
        \<or> svc_view svc w' = svc_view svc w \<and> r \<noteq> Inr True)
   \<and> (\<forall>k e w r w'. svc_delete svc k e w = (r, w') \<longrightarrow>
        precondition_holds svc k (Some e) w \<and> svc_view svc w' = (svc_view svc w)(k := None)
        \<or> svc_view svc w' = svc_view svc w)
   \<and> (\<forall>k w w' b b' e. svc_view svc w k = Some (b, e) \<longrightarrow> svc_view svc w' k = Some (b', e) \<longrightarrow> b = b')"

definition read_lease ::
  "('w, 'e) cas_service \<Rightarrow> string \<Rightarrow> 'w \<Rightarrow> (string, (lease \<times> 'e) option) result \<times> 'w" where
  "read_lease svc k w =
     (case svc_get svc k w of
        (Inl e, w) \<Rightarrow> (Inl e, w)
      | (Inr (Some (Some l, etag)), w) \<Rightarrow> (Inr (Some (l, etag)), w)
      | (Inr (Some (None, _)), w) \<Rightarrow> (Inr None, w)
      | (Inr None, w) \<Rightarrow> (Inr None, w))"

definition body_for :: "string \<Rightarrow> string \<Rightarrow> nat \<Rightarrow> int \<Rightarrow> lease" where
  "body_for node ownr ep exp_at = \<lparr>owner = ownr, node_id = node, epoch = ep, expires_at = exp_at\<rparr>"

definition perform_acquire ::
  "('w, 'e) cas_service \<Rightarrow> string \<Rightarrow> string \<Rightarrow> string \<Rightarrow> int \<Rightarrow> 'e acquire_action \<Rightarrow> 'w
     \<Rightarrow> (string, bool) result \<times> 'w" where
  "perform_acquire svc node k ownr exp_at act w =
     (case act of
        Blocked \<Rightarrow> (Inr False, w)
      | Create \<Rightarrow> svc_put svc k (body_for node ownr 1 exp_at) None w
      | Steal etag next_epoch \<Rightarrow> svc_put svc k (body_for node ownr next_epoch exp_at) (Some etag) w)"

definition s3_try_acquire ::
  "('w, 'e) cas_service \<Rightarrow> string \<Rightarrow> string \<Rightarrow> string \<Rightarrow> int \<Rightarrow> int \<Rightarrow> 'w \<Rightarrow> (string, bool) result \<times> 'w" where
  "s3_try_acquire svc node k ownr now ttl_secs w =
     and_then (read_lease svc k w) (\<lambda>current w.
       perform_acquire svc node k ownr (lease_expiry now ttl_secs) (plan_acquire current now node) w)"

definition RENEW_MAX_ATTEMPTS :: nat where "RENEW_MAX_ATTEMPTS = 3"

text \<open>The attempts of a renewal; \<open>elapsed\<close> is the whole seconds measured at the start of each.\<close>

fun renew_attempts ::
  "('w, 'e) cas_service \<Rightarrow> string \<Rightarrow> string \<Rightarrow> string \<Rightarrow> int \<Rightarrow> int \<Rightarrow> (nat \<Rightarrow> int) \<Rightarrow> nat \<Rightarrow> string option \<Rightarrow> 'w
     \<Rightarrow> (string, bool) result \<times> 'w" where
  "renew_attempts svc node k ownr now ttl_secs elapsed 0 last_err w =
     (Inl (case last_err of Some e \<Rightarrow> e | None \<Rightarrow> ''lease renew exhausted retries''), w)"
| "renew_attempts svc node k ownr now ttl_secs elapsed (Suc n) last_err w =
     (let effective_now = sat_i64 (now + elapsed n)
      in case read_lease svc k w of
           (Inl e, w) \<Rightarrow> renew_attempts svc node k ownr now ttl_secs elapsed n (Some e) w
         | (Inr current, w) \<Rightarrow>
             (case plan_renew current effective_now ownr of
                Lost \<Rightarrow> (Inr False, w)
              | Renew etag ep \<Rightarrow>
                  (case svc_put svc k (body_for node ownr ep (lease_expiry effective_now ttl_secs)) (Some etag) w of
                     (Inr True, w) \<Rightarrow> (Inr True, w)
                   | (Inr False, w) \<Rightarrow> renew_attempts svc node k ownr now ttl_secs elapsed n last_err w
                   | (Inl e, w) \<Rightarrow> renew_attempts svc node k ownr now ttl_secs elapsed n (Some e) w)))"

definition s3_renew ::
  "('w, 'e) cas_service \<Rightarrow> string \<Rightarrow> string \<Rightarrow> string \<Rightarrow> int \<Rightarrow> int \<Rightarrow> (nat \<Rightarrow> int) \<Rightarrow> 'w
     \<Rightarrow> (string, bool) result \<times> 'w" where
  "s3_renew svc node k ownr now ttl_secs elapsed w =
     renew_attempts svc node k ownr now ttl_secs elapsed RENEW_MAX_ATTEMPTS None w"

definition release_found ::
  "('w, 'e) cas_service \<Rightarrow> string \<Rightarrow> string \<Rightarrow> (lease \<times> 'e) option \<Rightarrow> 'w \<Rightarrow> (string, unit) result \<times> 'w" where
  "release_found svc k ownr current w =
     (case current of
        Some (l, etag) \<Rightarrow> if owner l = ownr then (Inr (), snd (svc_delete svc k etag w)) else (Inr (), w)
      | None \<Rightarrow> (Inr (), w))"

definition s3_release ::
  "('w, 'e) cas_service \<Rightarrow> string \<Rightarrow> string \<Rightarrow> 'w \<Rightarrow> (string, unit) result \<times> 'w" where
  "s3_release svc k ownr w = and_then (read_lease svc k w) (release_found svc k ownr)"

definition s3_is_held :: "('w, 'e) cas_service \<Rightarrow> string \<Rightarrow> int \<Rightarrow> 'w \<Rightarrow> (string, bool) result \<times> 'w" where
  "s3_is_held svc k now w =
     and_then (read_lease svc k w) (\<lambda>current w.
       (Inr (case current of Some (l, _) \<Rightarrow> expires_at l \<ge> now | None \<Rightarrow> False), w))"

datatype lease_subsystem = Replication | Lifecycle

definition subsystem_slug :: "lease_subsystem \<Rightarrow> string" where
  "subsystem_slug s = (case s of Replication \<Rightarrow> ''replication'' | Lifecycle \<Rightarrow> ''lifecycle'')"

definition lease_object_key :: "lease_subsystem \<Rightarrow> string \<Rightarrow> string" where
  "lease_object_key s rule = ''_dgp/leases/'' @ subsystem_slug s @ ''/'' @ rule @ ''.json''"

section \<open>The contract of a lease\<close>

text \<open>
  The tiling that every implementation promises.  \<open>holder\<close> is who the lease is recorded for and until
  when; \<open>mine\<close> says that the caller may take over a live lease of this holder.
\<close>

locale leader_lease =
  fixes inv :: "'s \<Rightarrow> bool"
    and holder :: "'s \<Rightarrow> (string \<times> int) option"
    and mine :: "'s \<Rightarrow> bool"
    and acquire :: "string \<Rightarrow> int \<Rightarrow> int \<Rightarrow> 's \<Rightarrow> bool \<times> 's"
    and renew :: "string \<Rightarrow> int \<Rightarrow> int \<Rightarrow> 's \<Rightarrow> bool \<times> 's"
    and release :: "string \<Rightarrow> 's \<Rightarrow> 's"
    and held :: "int \<Rightarrow> 's \<Rightarrow> bool"
  assumes acquire_inv: "inv s \<Longrightarrow> inv (snd (acquire ownr now ttl s))"
    and renew_inv: "inv s \<Longrightarrow> inv (snd (renew ownr now ttl s))"
    and release_inv: "inv s \<Longrightarrow> inv (release ownr s)"
    and acquire_iff: "inv s \<Longrightarrow> fst (acquire ownr now ttl s) \<longleftrightarrow>
          (case holder s of None \<Rightarrow> True | Some (_, e) \<Rightarrow> e < now \<or> mine s)"
    and acquire_holder: "inv s \<Longrightarrow> holder (snd (acquire ownr now ttl s)) =
          (if fst (acquire ownr now ttl s) then Some (ownr, lease_expiry now ttl) else holder s)"
    and renew_iff: "inv s \<Longrightarrow> fst (renew ownr now ttl s) \<longleftrightarrow> (\<exists>e. holder s = Some (ownr, e) \<and> now \<le> e)"
    and renew_holder: "inv s \<Longrightarrow> holder (snd (renew ownr now ttl s)) =
          (if fst (renew ownr now ttl s) then Some (ownr, lease_expiry now ttl) else holder s)"
    and release_holder: "inv s \<Longrightarrow> holder (release ownr s) =
          (case holder s of Some (o', e) \<Rightarrow> if o' = ownr then None else Some (o', e) | None \<Rightarrow> None)"
    and held_iff: "inv s \<Longrightarrow> held now s \<longleftrightarrow> (\<exists>o' e. holder s = Some (o', e) \<and> now \<le> e)"
begin

lemma never_renewable_and_stealable:
  assumes "inv s" "fst (renew o1 now ttl s)" "fst (acquire o2 now ttl' s)"
  shows "mine s"
  using assms by (auto simp: renew_iff acquire_iff)

lemma held_iff_blocked:
  assumes "inv s" "\<not> mine s"
  shows "fst (acquire ownr now ttl s) \<longleftrightarrow> \<not> held now s"
  using assms by (auto simp: acquire_iff held_iff split: option.split)

lemma lapsed_owner_cannot_renew:
  assumes "inv s" "fst (acquire o2 now ttl s)" "o1 \<noteq> o2" "inv (snd (acquire o2 now ttl s))"
  shows "\<not> fst (renew o1 now' ttl' (snd (acquire o2 now ttl s)))"
  using assms by (auto simp: renew_iff acquire_holder)

lemma released_lease_is_free:
  assumes "inv s" "fst (acquire ownr now ttl s)"
  shows "fst (acquire o2 now' ttl' (release ownr (snd (acquire ownr now ttl s))))"
  using assms by (simp add: acquire_iff release_holder acquire_holder acquire_inv release_inv)

end

subsection \<open>Histories of calls\<close>

text \<open>
  Workers call the lease one after another.  A worker believes it holds the lease until the expiry of
  its last successful call, and stops believing it when a renewal fails or when it releases.
\<close>

datatype lease_call = CallAcquire string | CallRenew string | CallRelease string

definition call_effect ::
  "(string \<Rightarrow> int \<Rightarrow> int \<Rightarrow> 's \<Rightarrow> bool \<times> 's) \<Rightarrow> (string \<Rightarrow> int \<Rightarrow> int \<Rightarrow> 's \<Rightarrow> bool \<times> 's) \<Rightarrow> (string \<Rightarrow> 's \<Rightarrow> 's) \<Rightarrow> int
     \<Rightarrow> int \<times> lease_call \<Rightarrow> 's \<times> (string \<Rightarrow> int option) \<Rightarrow> 's \<times> (string \<Rightarrow> int option)" where
  "call_effect acquire renew release ttl c sb =
     (case (c, sb) of ((now, call), (s, believed)) \<Rightarrow>
        case call of
          CallAcquire o' \<Rightarrow> (case acquire o' now ttl s of
            (won, s) \<Rightarrow> (s, if won then believed(o' \<mapsto> lease_expiry now ttl) else believed))
        | CallRenew o' \<Rightarrow> (case renew o' now ttl s of
            (won, s) \<Rightarrow> (s, believed(o' := if won then Some (lease_expiry now ttl) else None)))
        | CallRelease o' \<Rightarrow> (release o' s, believed(o' := None)))"

definition run_calls ::
  "(string \<Rightarrow> int \<Rightarrow> int \<Rightarrow> 's \<Rightarrow> bool \<times> 's) \<Rightarrow> (string \<Rightarrow> int \<Rightarrow> int \<Rightarrow> 's \<Rightarrow> bool \<times> 's) \<Rightarrow> (string \<Rightarrow> 's \<Rightarrow> 's) \<Rightarrow> int
     \<Rightarrow> (int \<times> lease_call) list \<Rightarrow> 's \<Rightarrow> 's \<times> (string \<Rightarrow> int option)" where
  "run_calls acquire renew release ttl cs s =
     foldl (\<lambda>sb c. call_effect acquire renew release ttl c sb) (s, \<lambda>_. None) cs"

locale exclusive_lease = leader_lease +
  assumes never_mine: "\<not> mine s"
begin

lemma call_keeps_beliefs:
  assumes "inv s" "\<forall>o' e. believed o' = Some e \<longrightarrow> t \<le> e \<longrightarrow> holder s = Some (o', e)" "t \<le> now"
    and "call_effect acquire renew release ttl (now, call) (s, believed) = (s', believed')"
  shows "inv s' \<and> (\<forall>o' e. believed' o' = Some e \<longrightarrow> now \<le> e \<longrightarrow> holder s' = Some (o', e))"
proof -
  have b: "holder s = Some (o', e)" if "believed o' = Some e" "now \<le> e" for o' e using assms(2,3) that by simp
  show ?thesis
  proof (cases call)
    case (CallAcquire x)
    with assms(4) have s': "s' = snd (acquire x now ttl s)"
      "believed' = (if fst (acquire x now ttl s) then believed(x \<mapsto> lease_expiry now ttl) else believed)"
      by (auto simp: call_effect_def split: prod.splits)
    show ?thesis using b acquire_iff [OF assms(1), of x now ttl] acquire_holder [OF assms(1), of x now ttl] never_mine [of s]
        acquire_inv [OF assms(1)] by (force simp: s' split: if_splits)
  next
    case (CallRenew x)
    with assms(4) have s': "s' = snd (renew x now ttl s)"
      "believed' = believed(x := if fst (renew x now ttl s) then Some (lease_expiry now ttl) else None)"
      by (auto simp: call_effect_def split: prod.splits)
    show ?thesis using b renew_iff [OF assms(1), of x now ttl] renew_holder [OF assms(1), of x now ttl]
        renew_inv [OF assms(1)] by (force simp: s' split: if_splits)
  next
    case (CallRelease x)
    with assms(4) have s': "s' = release x s" "believed' = believed(x := None)"
      by (auto simp: call_effect_def)
    show ?thesis using b release_holder [OF assms(1), of x] release_inv [OF assms(1)]
      by (force simp: s' split: if_splits)
  qed
qed

lemma run_keeps_beliefs:
  assumes "inv s" "sorted (map fst cs)" "\<forall>c\<in>set cs. fst c \<le> t"
  shows "inv (fst (run_calls acquire renew release ttl cs s))
    \<and> (\<forall>o' e. snd (run_calls acquire renew release ttl cs s) o' = Some e \<longrightarrow> t \<le> e
         \<longrightarrow> holder (fst (run_calls acquire renew release ttl cs s)) = Some (o', e))"
  using assms
proof (induction cs arbitrary: t rule: rev_induct)
  case Nil
  then show ?case by (simp add: run_calls_def)
next
  case (snoc c cs)
  obtain now call where c: "c = (now, call)" by fastforce
  let ?r = "run_calls acquire renew release ttl cs s"
  from snoc c have "\<forall>c\<in>set cs. fst c \<le> now" "sorted (map fst cs)" "now \<le> t" by (auto simp: sorted_append)
  with snoc have ih: "inv (fst ?r)" "\<forall>o' e. snd ?r o' = Some e \<longrightarrow> now \<le> e \<longrightarrow> holder (fst ?r) = Some (o', e)"
    by blast+
  have e: "run_calls acquire renew release ttl (cs @ [c]) s = call_effect acquire renew release ttl (now, call) (fst ?r, snd ?r)"
    by (simp add: run_calls_def c)
  obtain s' b' where r: "call_effect acquire renew release ttl (now, call) (fst ?r, snd ?r) = (s', b')" by fastforce
  have "inv s' \<and> (\<forall>o' e. b' o' = Some e \<longrightarrow> now \<le> e \<longrightarrow> holder s' = Some (o', e))"
    by (rule call_keeps_beliefs [OF ih order_refl r])
  with \<open>now \<le> t\<close> show ?case unfolding e r fst_conv snd_conv by (meson order_trans)
qed

lemma at_most_one_believer:
  assumes "inv s" "sorted (map fst cs)" "\<forall>c\<in>set cs. fst c \<le> t"
    and "snd (run_calls acquire renew release ttl cs s) o1 = Some e1" "t \<le> e1"
    and "snd (run_calls acquire renew release ttl cs s) o2 = Some e2" "t \<le> e2"
  shows "o1 = o2"
proof -
  have "holder (fst (run_calls acquire renew release ttl cs s)) = Some (o1, e1)"
    "holder (fst (run_calls acquire renew release ttl cs s)) = Some (o2, e2)"
    using run_keeps_beliefs [OF assms(1-3), of ttl] assms(4-7) by blast+
  then show ?thesis by simp
qed

end

section \<open>The job tables keep the contract\<close>

definition row_holder :: "'k \<Rightarrow> ('k, 'r) lease_table \<Rightarrow> (string \<times> int) option" where
  "row_holder key t = (case t key of
     Some row \<Rightarrow> (case (leader_instance_id row, leader_expires_at row) of (Some o', Some e) \<Rightarrow> Some (o', e) | _ \<Rightarrow> None)
   | None \<Rightarrow> None)"

definition row_ok :: "'k \<Rightarrow> ('k, 'r) lease_table \<Rightarrow> bool" where
  "row_ok key t \<longleftrightarrow> (\<exists>row. t key = Some row \<and> (leader_instance_id row = None \<longleftrightarrow> leader_expires_at row = None))"

lemmas lease_row_defs = row_holder_def row_ok_def try_acquire_leader_lease_def renew_leader_lease_def
  release_leader_lease_def lease_is_held_def

interpretation job_lease: exclusive_lease "row_ok key" "row_holder key" "\<lambda>_. False"
  "try_acquire_leader_lease key" "renew_leader_lease key" "\<lambda>o' t. snd (release_leader_lease key o' t)" "lease_is_held key"
  for key
  by unfold_locales (auto simp: lease_row_defs split: option.splits if_splits)

text \<open>C20. For every sequence of calls that workers make on a job's lease row, at no time do two
  different workers both believe that they hold the lease.\<close>

theorem job_lease_is_exclusive:
  assumes "row_ok key t" "sorted (map fst calls)" "\<forall>c\<in>set calls. fst c \<le> now"
    and "snd (run_calls (try_acquire_leader_lease key) (renew_leader_lease key)
           (\<lambda>o' t. snd (release_leader_lease key o' t)) ttl calls t) o1 = Some e1" "now \<le> e1"
    and "snd (run_calls (try_acquire_leader_lease key) (renew_leader_lease key)
           (\<lambda>o' t. snd (release_leader_lease key o' t)) ttl calls t) o2 = Some e2" "now \<le> e2"
  shows "o1 = o2"
  using assms by (rule job_lease.at_most_one_believer)

definition sample_table :: "(string, unit) lease_table" where
  "sample_table = [''rule'' \<mapsto> \<lparr>leader_instance_id = None, leader_expires_at = None\<rparr>]"

definition sample_calls :: "(int \<times> lease_call) list" where
  "sample_calls = [(100, CallAcquire ''A''), (150, CallAcquire ''B''), (161, CallAcquire ''B''), (161, CallRenew ''A'')]"

definition sample_believed :: "string \<Rightarrow> int option" where
  "sample_believed = snd (run_calls (try_acquire_leader_lease ''rule'') (renew_leader_lease ''rule'')
     (\<lambda>o' t. snd (release_leader_lease ''rule'' o' t)) 60 sample_calls sample_table)"

theorem job_lease_is_exclusive_witness:
  "sample_believed ''B'' = Some 221 \<and> {o1. \<exists>e1. sample_believed o1 = Some e1 \<and> 170 \<le> e1} = {''B''}"
proof -
  have b: "sample_believed ''B'' = Some 221"
    by (simp add: sample_believed_def run_calls_def sample_calls_def sample_table_def call_effect_def
        try_acquire_leader_lease_def renew_leader_lease_def lease_expiry_def sat_i64_def i64_min_def i64_max_def)
  have "row_ok ''rule'' sample_table" "sorted (map fst sample_calls)" "\<forall>c\<in>set sample_calls. fst c \<le> 170"
    by (simp_all add: row_ok_def sample_table_def sample_calls_def)
  note ex = job_lease_is_exclusive [OF this, where ttl = 60, folded sample_believed_def]
  have "o1 = ''B''" if "sample_believed o1 = Some e1" "170 \<le> e1" for o1 e1
    using ex [OF that b] by simp
  then have "{o1. \<exists>e1. sample_believed o1 = Some e1 \<and> 170 \<le> e1} \<subseteq> {''B''}" by blast
  moreover have "\<exists>e1. sample_believed ''B'' = Some e1 \<and> 170 \<le> e1" by (simp add: b)
  ultimately show ?thesis using b by blast
qed

end
