(* ===== verification/LeaseSafety.thy ===== *)
theory LeaseSafety
  imports Leases
begin

text \<open>
  Several nodes compete for one lease object.  A call to the lease is two requests to the coordination
  bucket, a read and a conditional write or delete, and requests of different nodes interleave freely;
  a write may fail with or without effect, nodes crash, and clocks lag behind real time.  A node runs
  one worker per lease, and a worker's owner token belongs to its node.
\<close>

section \<open>The system\<close>

datatype 'e request =
    Acquiring string int "'e acquire_action"
  | Renewing string int "'e renew_action"
  | Releasing string "(lease \<times> 'e) option"

record ('w, 'e) nodes =
  world :: 'w
  wall :: int
  seen :: "string \<Rightarrow> int"
  pending :: "string \<Rightarrow> 'e request option"
  believes :: "string \<Rightarrow> int option"

definition perform_renew ::
  "('w, 'e) cas_service \<Rightarrow> string \<Rightarrow> string \<Rightarrow> string \<Rightarrow> int \<Rightarrow> 'e renew_action \<Rightarrow> 'w \<Rightarrow> (string, bool) result \<times> 'w" where
  "perform_renew svc node k ownr exp_at act w =
     (case act of Lost \<Rightarrow> (Inr False, w)
      | Renew etag ep \<Rightarrow> svc_put svc k (body_for node ownr ep exp_at) (Some etag) w)"

inductive lease_step ::
  "('w, 'e) cas_service \<Rightarrow> string \<Rightarrow> int \<Rightarrow> (string \<Rightarrow> string) \<Rightarrow> ('w, 'e) nodes \<Rightarrow> ('w, 'e) nodes \<Rightarrow> bool"
  for svc k ttl node_of where
  time_passes: "wall s \<le> t \<Longrightarrow> lease_step svc k ttl node_of s (s\<lparr>wall := t\<rparr>)"
| read_fails: "read_lease svc k (world s) = (Inl e, w) \<Longrightarrow> lease_step svc k ttl node_of s (s\<lparr>world := w\<rparr>)"
| acquire_reads:
  "pending s p = None \<Longrightarrow> seen s p \<le> now \<Longrightarrow> now \<le> wall s \<Longrightarrow> node_of ownr = p
   \<Longrightarrow> read_lease svc k (world s) = (Inr current, w)
   \<Longrightarrow> lease_step svc k ttl node_of s (s\<lparr>world := w, seen := (seen s)(p := now),
         pending := (pending s)(p \<mapsto> Acquiring ownr now (plan_acquire current now p))\<rparr>)"
| acquire_writes:
  "pending s p = Some (Acquiring ownr now act)
   \<Longrightarrow> perform_acquire svc p k ownr (lease_expiry now ttl) act (world s) = (r, w)
   \<Longrightarrow> lease_step svc k ttl node_of s (s\<lparr>world := w, pending := (pending s)(p := None),
         believes := (if r = Inr True then (believes s)(p \<mapsto> lease_expiry now ttl) else believes s)\<rparr>)"
| renew_reads:
  "pending s p = None \<Longrightarrow> seen s p \<le> now \<Longrightarrow> now \<le> wall s \<Longrightarrow> node_of ownr = p
   \<Longrightarrow> read_lease svc k (world s) = (Inr current, w)
   \<Longrightarrow> lease_step svc k ttl node_of s (s\<lparr>world := w, seen := (seen s)(p := now),
         pending := (pending s)(p \<mapsto> Renewing ownr now (plan_renew current now ownr))\<rparr>)"
| renew_writes:
  "pending s p = Some (Renewing ownr now act)
   \<Longrightarrow> perform_renew svc p k ownr (lease_expiry now ttl) act (world s) = (r, w)
   \<Longrightarrow> lease_step svc k ttl node_of s (s\<lparr>world := w, pending := (pending s)(p := None),
         believes := (if r = Inr True then (believes s)(p \<mapsto> lease_expiry now ttl) else believes s)\<rparr>)"
| release_reads:
  "pending s p = None \<Longrightarrow> node_of ownr = p
   \<Longrightarrow> read_lease svc k (world s) = (Inr current, w)
   \<Longrightarrow> lease_step svc k ttl node_of s (s\<lparr>world := w,
         pending := (pending s)(p \<mapsto> Releasing ownr current), believes := (believes s)(p := None)\<rparr>)"
| release_deletes:
  "pending s p = Some (Releasing ownr current)
   \<Longrightarrow> release_found svc k ownr current (world s) = (r, w)
   \<Longrightarrow> lease_step svc k ttl node_of s (s\<lparr>world := w, pending := (pending s)(p := None)\<rparr>)"
| stops: "lease_step svc k ttl node_of s
     (s\<lparr>pending := (pending s)(p := None), believes := (believes s)(p := None)\<rparr>)"

text \<open>A renewal of \<open>s3_renew\<close> is one or more pairs of \<open>renew_reads\<close> and \<open>renew_writes\<close>: the loop
  reads again after every failed attempt, with a later time.\<close>

lemma acquire_is_two_steps:
  assumes "pending s p = None" "seen s p \<le> now" "now \<le> wall s" "node_of ownr = p"
    and "s3_try_acquire svc p k ownr now ttl (world s) = (r, w)" "fst (read_lease svc k (world s)) = Inr current"
  shows "(lease_step svc k ttl node_of)\<^sup>*\<^sup>* s (s\<lparr>world := w, seen := (seen s)(p := now),
     believes := (if r = Inr True then (believes s)(p \<mapsto> lease_expiry now ttl) else believes s)\<rparr>)"
proof -
  obtain w' where r: "read_lease svc k (world s) = (Inr current, w')" using assms(6) by (cases "read_lease svc k (world s)") simp
  note a = acquire_reads [of s p now node_of ownr svc k current w' ttl, OF assms(1-4) r]
  let ?s = "s\<lparr>world := w', seen := (seen s)(p := now),
         pending := (pending s)(p \<mapsto> Acquiring ownr now (plan_acquire current now p))\<rparr>"
  let ?t = "s\<lparr>world := w, seen := (seen s)(p := now),
     believes := (if r = Inr True then (believes s)(p \<mapsto> lease_expiry now ttl) else believes s)\<rparr>"
  have "perform_acquire svc p k ownr (lease_expiry now ttl) (plan_acquire current now p) (world ?s) = (r, w)"
    using assms(5) r by (simp add: s3_try_acquire_def)
  moreover have "pending ?s p = Some (Acquiring ownr now (plan_acquire current now p))" by simp
  ultimately have b: "lease_step svc k ttl node_of ?s (?s\<lparr>world := w, pending := (pending ?s)(p := None),
         believes := (if r = Inr True then (believes ?s)(p \<mapsto> lease_expiry now ttl) else believes ?s)\<rparr>)"
    by (intro acquire_writes)
  have "?s\<lparr>world := w, pending := (pending ?s)(p := None),
         believes := (if r = Inr True then (believes ?s)(p \<mapsto> lease_expiry now ttl) else believes ?s)\<rparr> = ?t"
    by (rule nodes.equality) (simp_all add: assms(1) fun_upd_idem)
  with b have "lease_step svc k ttl node_of ?s ?t" by (simp only:)
  with a show ?thesis by (rule rtranclp.rtrancl_into_rtrancl [OF r_into_rtranclp])
qed

section \<open>The invariant\<close>

definition recorded :: "('w, 'e) cas_service \<Rightarrow> string \<Rightarrow> 'w \<Rightarrow> lease \<Rightarrow> bool" where
  "recorded svc k w l \<longleftrightarrow> (\<exists>e. svc_view svc w k = Some (Some l, e))"

definition read_before :: "('w, 'e) cas_service \<Rightarrow> string \<Rightarrow> 'e \<Rightarrow> lease \<Rightarrow> bool" where
  "read_before svc k e l \<longleftrightarrow> (\<exists>w. svc_view svc w k = Some (Some l, e))"

fun request_ok :: "('w, 'e) cas_service \<Rightarrow> string \<Rightarrow> (string \<Rightarrow> string) \<Rightarrow> int \<Rightarrow> int \<Rightarrow> string \<Rightarrow> 'e request \<Rightarrow> bool" where
  "request_ok svc k node_of wall_now seen_at p (Acquiring ownr now act) \<longleftrightarrow>
     node_of ownr = p \<and> now = seen_at \<and> now \<le> wall_now
     \<and> (\<forall>e ep. act = Steal e ep \<longrightarrow> (\<exists>l. read_before svc k e l \<and> (expires_at l < now \<or> node_id l = p)))"
| "request_ok svc k node_of wall_now seen_at p (Renewing ownr now act) \<longleftrightarrow>
     node_of ownr = p \<and> now = seen_at \<and> now \<le> wall_now
     \<and> (\<forall>e ep. act = Renew e ep \<longrightarrow> (\<exists>l. read_before svc k e l \<and> node_id l = p))"
| "request_ok svc k node_of wall_now seen_at p (Releasing ownr current) \<longleftrightarrow>
     (\<forall>l e. current = Some (l, e) \<longrightarrow> owner l = ownr \<longrightarrow> read_before svc k e l \<and> node_id l = p)"

definition nodes_ok :: "('w, 'e) cas_service \<Rightarrow> string \<Rightarrow> int \<Rightarrow> (string \<Rightarrow> string) \<Rightarrow> ('w, 'e) nodes \<Rightarrow> bool" where
  "nodes_ok svc k ttl node_of s \<longleftrightarrow>
     (\<forall>l. recorded svc k (world s) l \<longrightarrow> node_id l = node_of (owner l))
   \<and> (\<forall>p e. believes s p = Some e \<longrightarrow> e \<le> lease_expiry (seen s p) ttl)
   \<and> (\<forall>p e. believes s p = Some e \<longrightarrow> wall s \<le> e
        \<longrightarrow> (\<exists>l. recorded svc k (world s) l \<and> node_id l = p \<and> e \<le> expires_at l))
   \<and> (\<forall>p r. pending s p = Some r \<longrightarrow> request_ok svc k node_of (wall s) (seen s p) p r)
   \<and> (\<forall>p ownr c. pending s p = Some (Releasing ownr c) \<longrightarrow> believes s p = None)"

lemma cas_get:
  assumes "cas_service_ok svc" "svc_get svc k w = (r, w')"
  shows "svc_view svc w' = svc_view svc w \<and> (\<forall>x. r = Inr x \<longrightarrow> x = svc_view svc w k)"
  by (rule assms(1) [unfolded cas_service_ok_def, THEN conjunct1, rule_format, OF assms(2)])

lemma read_lease_get:
  assumes "read_lease svc k w = (r, w')"
  shows "\<exists>g. svc_get svc k w = (g, w') \<and> (\<forall>l e. r = Inr (Some (l, e)) \<longrightarrow> g = Inr (Some (Some l, e)))"
proof -
  obtain g w'' where g: "svc_get svc k w = (g, w'')" by fastforce
  with assms show ?thesis
    by (cases g) (auto simp: read_lease_def split: option.splits prod.splits)
qed

lemma read_lease_ok:
  assumes "cas_service_ok svc" "read_lease svc k w = (r, w')"
  shows "svc_view svc w' = svc_view svc w" "r = Inr (Some (l, e)) \<Longrightarrow> svc_view svc w k = Some (Some l, e)"
proof -
  from read_lease_get [OF assms(2)] obtain g where g: "svc_get svc k w = (g, w')"
    "\<forall>l e. r = Inr (Some (l, e)) \<longrightarrow> g = Inr (Some (Some l, e))" by blast
  note v = cas_get [OF assms(1) g(1)]
  from v show "svc_view svc w' = svc_view svc w" ..
  assume "r = Inr (Some (l, e))"
  with g(2) have "g = Inr (Some (Some l, e))" by simp
  with v show "svc_view svc w k = Some (Some l, e)" by simp
qed

lemma cas_put_cases:
  assumes "cas_service_ok svc" "svc_put svc k l pre w = (r, w')"
  obtains (applied) e where "precondition_holds svc k pre w" "svc_view svc w' = (svc_view svc w)(k \<mapsto> (Some l, e))" "r \<noteq> Inr False"
  | (refused) "svc_view svc w' = svc_view svc w" "r \<noteq> Inr True"
  using assms(1) [unfolded cas_service_ok_def, THEN conjunct2, THEN conjunct1, rule_format, OF assms(2)] by blast

lemma cas_delete_cases:
  assumes "cas_service_ok svc" "svc_delete svc k e w = (r, w')"
  obtains (applied) "precondition_holds svc k (Some e) w" "svc_view svc w' = (svc_view svc w)(k := None)"
  | (refused) "svc_view svc w' = svc_view svc w"
  using assms(1) [unfolded cas_service_ok_def, THEN conjunct2, THEN conjunct2, THEN conjunct1, rule_format, OF assms(2)] by blast

lemma cas_tag:
  assumes "cas_service_ok svc" "svc_view svc w k = Some (b, e)" "svc_view svc w' k = Some (b', e)"
  shows "b = b'"
  by (rule assms(1) [unfolded cas_service_ok_def, THEN conjunct2, THEN conjunct2, THEN conjunct2, rule_format, OF assms(2,3)])

lemma tag_names_content:
  assumes "cas_service_ok svc" "precondition_holds svc k (Some e) w" "read_before svc k e l" "recorded svc k w l'"
  shows "l' = l"
proof -
  from assms(2) obtain b where b: "svc_view svc w k = Some (b, e)" by (auto simp: precondition_holds_def)
  from assms(3) obtain w0 where "svc_view svc w0 k = Some (Some l, e)" by (auto simp: read_before_def)
  from cas_tag [OF assms(1) b this] have "b = Some l" .
  with b assms(4) show ?thesis by (simp add: recorded_def)
qed

lemma nodes_okD:
  assumes "nodes_ok svc k ttl node_of s"
  shows "recorded svc k (world s) l \<Longrightarrow> node_id l = node_of (owner l)"
    and "believes s p = Some e \<Longrightarrow> e \<le> lease_expiry (seen s p) ttl"
    and "believes s p = Some e \<Longrightarrow> wall s \<le> e \<Longrightarrow> \<exists>l. recorded svc k (world s) l \<and> node_id l = p \<and> e \<le> expires_at l"
    and "pending s p = Some r \<Longrightarrow> request_ok svc k node_of (wall s) (seen s p) p r"
    and "pending s p = Some (Releasing ownr c) \<Longrightarrow> believes s p = None"
  using assms unfolding nodes_ok_def by blast+

lemma nodes_okI:
  assumes "\<And>l. recorded svc k (world s) l \<Longrightarrow> node_id l = node_of (owner l)"
    and "\<And>p e. believes s p = Some e \<Longrightarrow> e \<le> lease_expiry (seen s p) ttl"
    and "\<And>p e. believes s p = Some e \<Longrightarrow> wall s \<le> e \<Longrightarrow> \<exists>l. recorded svc k (world s) l \<and> node_id l = p \<and> e \<le> expires_at l"
    and "\<And>p r. pending s p = Some r \<Longrightarrow> request_ok svc k node_of (wall s) (seen s p) p r"
    and "\<And>p ownr c. pending s p = Some (Releasing ownr c) \<Longrightarrow> believes s p = None"
  shows "nodes_ok svc k ttl node_of s"
  using assms unfolding nodes_ok_def by blast

text \<open>A conditional write of node \<open>p\<close> that could only replace a lapsed lease or one of its own.\<close>

lemma put_keeps_nodes_ok:
  assumes ok: "nodes_ok svc k ttl node_of s" and cas: "cas_service_ok svc"
    and put: "svc_put svc k (body_for p ownr ep (lease_expiry now ttl)) pre (world s) = (r, w)"
    and mine: "node_of ownr = p" "now = seen s p"
    and guard: "\<And>l. precondition_holds svc k pre (world s) \<Longrightarrow> recorded svc k (world s) l
       \<Longrightarrow> expires_at l < wall s \<or> node_id l = p"
  shows "nodes_ok svc k ttl node_of (s\<lparr>world := w, pending := (pending s)(p := None),
     believes := (if r = Inr True then (believes s)(p \<mapsto> lease_expiry now ttl) else believes s)\<rparr>)"
  using cas put
proof (cases rule: cas_put_cases)
  case refused
  then have v: "recorded svc k w = recorded svc k (world s)" by (simp add: recorded_def fun_eq_iff)
  show ?thesis
    by (rule nodes_okI) (use refused(2) nodes_okD [OF ok] in \<open>simp_all add: v split: if_splits\<close>)
next
  case (applied e)
  let ?l = "body_for p ownr ep (lease_expiry now ttl)"
  have rec: "recorded svc k w l \<longleftrightarrow> l = ?l" for l
    using applied(2) by (auto simp: recorded_def)
  have l: "node_id ?l = p" "owner ?l = ownr" "expires_at ?l = lease_expiry now ttl" by (simp_all add: body_for_def)
  have old: "q = p" if "believes s q = Some x" "wall s \<le> x" for q x
    using nodes_okD(3) [OF ok that] guard [OF applied(1)] that(2) by fastforce
  have own: "x \<le> lease_expiry now ttl" if "believes s p = Some x" for x
    using nodes_okD(2) [OF ok that] mine(2) by simp
  show ?thesis
  proof (rule nodes_okI)
    fix q x assume "believes (s\<lparr>world := w, pending := (pending s)(p := None),
       believes := (if r = Inr True then (believes s)(p \<mapsto> lease_expiry now ttl) else believes s)\<rparr>) q = Some x"
      and "wall (s\<lparr>world := w, pending := (pending s)(p := None),
       believes := (if r = Inr True then (believes s)(p \<mapsto> lease_expiry now ttl) else believes s)\<rparr>) \<le> x"
    then have "q = p \<and> x \<le> lease_expiry now ttl" using old [of q x] own by (auto split: if_splits)
    then show "\<exists>l. recorded svc k (world (s\<lparr>world := w, pending := (pending s)(p := None),
       believes := (if r = Inr True then (believes s)(p \<mapsto> lease_expiry now ttl) else believes s)\<rparr>)) l
       \<and> node_id l = q \<and> x \<le> expires_at l" by (simp add: rec l)
  qed (use mine l nodes_okD [OF ok] in \<open>auto simp: rec split: if_splits\<close>)
qed

text \<open>Steps that change neither the bucket nor what other nodes believe.\<close>

lemma quiet_step:
  assumes ok: "nodes_ok svc k ttl node_of s" and v: "svc_view svc w = svc_view svc (world s)"
    and b: "b = believes s p \<or> b = None" "\<And>ownr c. q = Some (Releasing ownr c) \<Longrightarrow> b = None"
    and q: "\<And>r. q = Some r \<Longrightarrow> request_ok svc k node_of (wall s) t p r" and t: "seen s p \<le> t"
    and "q = None \<or> pending s p = None"
  shows "nodes_ok svc k ttl node_of (s\<lparr>world := w, seen := (seen s)(p := t),
      pending := (pending s)(p := q), believes := (believes s)(p := b)\<rparr>)"
proof -
  have rec: "recorded svc k w = recorded svc k (world s)" using v by (simp add: recorded_def fun_eq_iff)
  have "e \<le> lease_expiry t ttl" if "believes s p = Some e" for e
    using nodes_okD(2) [OF ok that] lease_expiry_mono [OF t, of ttl] by simp
  then show ?thesis
    by (intro nodes_okI) (use b q nodes_okD [OF ok] in \<open>auto simp: rec split: if_splits\<close>)
qed

lemma planned_acquire_ok:
  assumes "read_lease svc k w = (Inr current, w')" "cas_service_ok svc" "plan_acquire current now p = Steal e ep"
  shows "\<exists>l. read_before svc k e l \<and> (expires_at l < now \<or> node_id l = p)"
proof -
  from assms(3) obtain l where "current = Some (l, e)" "expires_at l < now \<or> node_id l = p"
    by (auto simp: plan_acquire_def split: option.splits if_splits)
  with read_lease_ok(2) [OF assms(2,1), of l e] show ?thesis by (auto simp: read_before_def)
qed

lemma planned_renew_ok:
  assumes "read_lease svc k w = (Inr current, w')" "cas_service_ok svc" "plan_renew current now ownr = Renew e ep"
    and "\<And>l. recorded svc k w l \<Longrightarrow> node_id l = node_of (owner l)" "node_of ownr = p"
  shows "\<exists>l. read_before svc k e l \<and> node_id l = p"
proof -
  from assms(3) obtain l where "current = Some (l, e)" "owner l = ownr"
    by (auto simp: plan_renew_def split: option.splits if_splits)
  with read_lease_ok(2) [OF assms(2,1), of l e] assms(4) [of l] assms(5) show ?thesis
    by (auto simp: read_before_def recorded_def)
qed

lemma acquire_write_ok:
  assumes ok: "nodes_ok svc k ttl node_of s" and cas: "cas_service_ok svc"
    and p: "pending s p = Some (Acquiring ownr now act)"
    and w: "perform_acquire svc p k ownr (lease_expiry now ttl) act (world s) = (r, w)"
  shows "nodes_ok svc k ttl node_of (s\<lparr>world := w, pending := (pending s)(p := None),
     believes := (if r = Inr True then (believes s)(p \<mapsto> lease_expiry now ttl) else believes s)\<rparr>)"
proof (cases act)
  case Create
  with w have "svc_put svc k (body_for p ownr 1 (lease_expiry now ttl)) None (world s) = (r, w)"
    by (simp add: perform_acquire_def)
  from put_keeps_nodes_ok [OF ok cas this] nodes_okD(4) [OF ok p] show ?thesis
    by (simp add: precondition_holds_def recorded_def)
next
  case (Steal e ep)
  with w have put: "svc_put svc k (body_for p ownr ep (lease_expiry now ttl)) (Some e) (world s) = (r, w)"
    by (simp add: perform_acquire_def)
  from nodes_okD(4) [OF ok p] Steal obtain l where l: "node_of ownr = p" "now = seen s p" "now \<le> wall s"
    "read_before svc k e l" "expires_at l < now \<or> node_id l = p" by auto
  show ?thesis
    by (rule put_keeps_nodes_ok [OF ok cas put l(1,2)]) (use l(3-5) tag_names_content [OF cas _ l(4)] in fastforce)
next
  case Blocked
  with w have "r = Inr False" "w = world s" by (simp_all add: perform_acquire_def)
  then show ?thesis using nodes_okD [OF ok] by (intro nodes_okI) (auto split: if_splits)
qed

lemma renew_write_ok:
  assumes ok: "nodes_ok svc k ttl node_of s" and cas: "cas_service_ok svc"
    and p: "pending s p = Some (Renewing ownr now act)"
    and w: "perform_renew svc p k ownr (lease_expiry now ttl) act (world s) = (r, w)"
  shows "nodes_ok svc k ttl node_of (s\<lparr>world := w, pending := (pending s)(p := None),
     believes := (if r = Inr True then (believes s)(p \<mapsto> lease_expiry now ttl) else believes s)\<rparr>)"
proof (cases act)
  case (Renew e ep)
  with w have put: "svc_put svc k (body_for p ownr ep (lease_expiry now ttl)) (Some e) (world s) = (r, w)"
    by (simp add: perform_renew_def)
  from nodes_okD(4) [OF ok p] Renew obtain l where l: "node_of ownr = p" "now = seen s p"
    "read_before svc k e l" "node_id l = p" by auto
  show ?thesis
    by (rule put_keeps_nodes_ok [OF ok cas put l(1,2)]) (use l(4) tag_names_content [OF cas _ l(3)] in fastforce)
next
  case Lost
  with w have "r = Inr False" "w = world s" by (simp_all add: perform_renew_def)
  then show ?thesis using nodes_okD [OF ok] by (intro nodes_okI) (auto split: if_splits)
qed

lemma release_delete_ok:
  assumes ok: "nodes_ok svc k ttl node_of s" and cas: "cas_service_ok svc"
    and p: "pending s p = Some (Releasing ownr current)"
    and w: "release_found svc k ownr current (world s) = (r, w)"
  shows "nodes_ok svc k ttl node_of (s\<lparr>world := w, pending := (pending s)(p := None)\<rparr>)"
proof (cases "svc_view svc w = svc_view svc (world s)")
  case True
  then have "recorded svc k w = recorded svc k (world s)" by (simp add: recorded_def fun_eq_iff)
  with nodes_okD [OF ok] show ?thesis by (intro nodes_okI) (auto split: if_splits)
next
  case False
  with w obtain l e where c: "current = Some (l, e)" "owner l = ownr" "w = snd (svc_delete svc k e (world s))"
    by (auto simp: release_found_def split: option.splits if_splits)
  with False have d: "precondition_holds svc k (Some e) (world s)" "svc_view svc w = (svc_view svc (world s))(k := None)"
    using cas_delete_cases [OF cas, of k e "world s" "fst (svc_delete svc k e (world s))" w] by (auto simp: prod_eq_iff)
  from nodes_okD(4) [OF ok p] c have l: "read_before svc k e l" "node_id l = p" by auto
  have none: "\<not> recorded svc k w l'" for l' using d(2) by (simp add: recorded_def)
  have "q = p" if "believes s q = Some x" "wall s \<le> x" for q x
    using nodes_okD(3) [OF ok that] tag_names_content [OF cas d(1) l(1)] l(2) by blast
  with nodes_okD(5) [OF ok p] have "\<not> wall s \<le> x" if "believes s q = Some x" for q x using that by fastforce
  with none nodes_okD(2,4,5) [OF ok] show ?thesis by (intro nodes_okI) (auto split: if_splits)
qed

lemma nodes_ok_step:
  assumes "lease_step svc k ttl node_of s t" "nodes_ok svc k ttl node_of s" "cas_service_ok svc"
  shows "nodes_ok svc k ttl node_of t"
  using assms
proof (induction rule: lease_step.induct)
  case (time_passes s t)
  then have "request_ok svc k node_of t x p r" if "request_ok svc k node_of (wall s) x p r" for p x r
    using that by (cases r) auto
  with time_passes nodes_okD [OF time_passes(2)] show ?case by (intro nodes_okI) auto
next
  case (read_fails s e w)
  then have "recorded svc k w = recorded svc k (world s)"
    using read_lease_ok(1) [OF read_fails(3,1)] by (simp add: recorded_def fun_eq_iff)
  with nodes_okD [OF read_fails(2)] show ?case by (intro nodes_okI) simp_all
next
  case (acquire_reads s p now ownr current w)
  let ?r = "Acquiring ownr now (plan_acquire current now p)"
  have "request_ok svc k node_of (wall s) now p ?r"
    using acquire_reads planned_acquire_ok [OF acquire_reads(5,7)] by simp
  with quiet_step [OF acquire_reads(6) read_lease_ok(1) [OF acquire_reads(7,5)], of "believes s p" p "Some ?r" now] acquire_reads(1,2)
  show ?case by simp
next
  case (acquire_writes s p ownr now act r w)
  from acquire_write_ok [OF acquire_writes(3,4,1,2)] show ?case .
next
  case (renew_reads s p now ownr current w)
  let ?r = "Renewing ownr now (plan_renew current now ownr)"
  have "request_ok svc k node_of (wall s) now p ?r"
    using renew_reads planned_renew_ok [OF renew_reads(5,7) _ nodes_okD(1) [OF renew_reads(6)] renew_reads(4)] by simp
  with quiet_step [OF renew_reads(6) read_lease_ok(1) [OF renew_reads(7,5)], of "believes s p" p "Some ?r" now] renew_reads(1,2)
  show ?case by simp
next
  case (renew_writes s p ownr now act r w)
  from renew_write_ok [OF renew_writes(3,4,1,2)] show ?case .
next
  case (release_reads s p ownr current w)
  have "read_before svc k e l \<and> node_id l = p" if "current = Some (l, e)" "owner l = ownr" for l e
    using read_lease_ok(2) [OF release_reads(5,3), of l e] that nodes_okD(1) [OF release_reads(4), of l] release_reads(2)
    by (auto simp: read_before_def recorded_def)
  then have "request_ok svc k node_of (wall s) (seen s p) p (Releasing ownr current)" by simp
  with quiet_step [OF release_reads(4) read_lease_ok(1) [OF release_reads(5,3)], of None p "Some (Releasing ownr current)" "seen s p"]
    release_reads(1)
  show ?case by (simp add: fun_upd_idem)
next
  case (release_deletes s p ownr current r w)
  from release_delete_ok [OF release_deletes(3,4,1,2)] show ?case .
next
  case (stops s p)
  then show ?case using quiet_step [OF stops(1) refl, of None p None "seen s p"] by simp
qed

definition start :: "'w \<Rightarrow> int \<Rightarrow> ('w, 'e) nodes" where
  "start w t = \<lparr>world = w, wall = t, seen = (\<lambda>_. i64_min), pending = (\<lambda>_. None), believes = (\<lambda>_. None)\<rparr>"

lemma start_ok:
  "(\<And>l. recorded svc k w l \<Longrightarrow> node_id l = node_of (owner l)) \<Longrightarrow> nodes_ok svc k ttl node_of (start w t)"
  by (simp add: nodes_ok_def start_def)

lemma reachable_ok:
  assumes "(lease_step svc k ttl node_of)\<^sup>*\<^sup>* s t" "nodes_ok svc k ttl node_of s" "cas_service_ok svc"
  shows "nodes_ok svc k ttl node_of t"
  using assms by (induction rule: rtranclp_induct) (auto intro: nodes_ok_step)

text \<open>C7. Whatever the interleaving of the requests of all nodes, whichever requests fail with or
  without effect and whenever nodes crash: two nodes never hold the lease at the same time, that is,
  there is no time at which the expiry of the last successful call of both still lies ahead.\<close>

theorem s3_lease_mutual_exclusion:
  assumes "cas_service_ok svc"
    and "\<And>l. recorded svc k w l \<Longrightarrow> node_id l = node_of (owner l)"
    and "(lease_step svc k ttl node_of)\<^sup>*\<^sup>* (start w t) s"
    and "believes s p = Some e" "wall s \<le> e" "believes s q = Some e'" "wall s \<le> e'"
  shows "p = q"
proof -
  have ok: "nodes_ok svc k ttl node_of s" using reachable_ok [OF assms(3) start_ok [OF assms(2)] assms(1)] .
  obtain l l' where "recorded svc k (world s) l" "node_id l = p" "recorded svc k (world s) l'" "node_id l' = q"
    using nodes_okD(3) [OF ok assms(4,5)] nodes_okD(3) [OF ok assms(6,7)] by blast
  then show ?thesis by (auto simp: recorded_def)
qed

section \<open>A bucket that tags documents with their content\<close>

type_synonym documents = "string \<Rightarrow> lease option option"

definition content_service :: "(documents, lease option) cas_service" where
  "content_service = \<lparr>
     svc_view = (\<lambda>w k. map_option (\<lambda>b. (b, b)) (w k)),
     svc_get = (\<lambda>k w. (Inr (map_option (\<lambda>b. (b, b)) (w k)), w)),
     svc_put = (\<lambda>k l pre w.
       if (case pre of None \<Rightarrow> w k = None | Some e \<Rightarrow> w k = Some e) then (Inr True, w(k \<mapsto> Some l)) else (Inr False, w)),
     svc_delete = (\<lambda>k e w. if w k = Some e then (Inr (), w(k := None)) else (Inr (), w))\<rparr>"

lemma content_service_ok: "cas_service_ok content_service"
  unfolding cas_service_ok_def content_service_def precondition_holds_def
  by (auto simp: fun_eq_iff split: if_splits option.splits)

theorem s3_lease_mutual_exclusion_witness:
  "\<exists>s. (lease_step content_service ''rule'' 60 id)\<^sup>*\<^sup>* (start (\<lambda>_. None) 100) s \<and> believes s ''A'' = Some 160
    \<and> (\<forall>q e. believes s q = Some e \<longrightarrow> wall s \<le> e \<longrightarrow> q = ''A'')"
proof -
  let ?init = "start (\<lambda>_. None) 100 :: (documents, lease option) nodes"
  obtain r w where r: "s3_try_acquire content_service ''A'' ''rule'' ''A'' 100 60 (world ?init) = (r, w)" by fastforce
  then have "r = Inr True"
    by (simp add: s3_try_acquire_def read_lease_def content_service_def start_def plan_acquire_def perform_acquire_def)
  let ?s = "?init\<lparr>world := w, seen := (seen ?init)(''A'' := 100),
     believes := (if r = Inr True then (believes ?init)(''A'' \<mapsto> lease_expiry 100 60) else believes ?init)\<rparr>"
  have steps: "(lease_step content_service ''rule'' 60 id)\<^sup>*\<^sup>* ?init ?s"
    by (rule acquire_is_two_steps [OF _ _ _ _ r])
      (simp_all add: start_def i64_min_def read_lease_def content_service_def)
  have b: "believes ?s ''A'' = Some 160" "wall ?s \<le> 160"
    by (simp_all add: \<open>r = Inr True\<close> start_def lease_expiry_def sat_i64_def i64_min_def i64_max_def)
  have "q = ''A''" if "believes ?s q = Some e" "wall ?s \<le> e" for q e
    using s3_lease_mutual_exclusion [OF content_service_ok _ steps that b] by (simp add: recorded_def content_service_def)
  with steps b(1) show ?thesis by blast
qed

section \<open>Failover\<close>

text \<open>A service that answers: no read fails and a conditional request reports whether it was applied.\<close>

definition service_answers :: "('w, 'e) cas_service \<Rightarrow> bool" where
  "service_answers svc \<longleftrightarrow> (\<forall>k w. is_ok (fst (svc_get svc k w)))
     \<and> (\<forall>k l pre w. fst (svc_put svc k l pre w) = Inr (precondition_holds svc k pre w))"

lemma read_answers:
  assumes "cas_service_ok svc" "service_answers svc"
  obtains w' where "svc_view svc w' = svc_view svc w" "read_lease svc k w =
    (Inr (case svc_view svc w k of Some (Some l, e) \<Rightarrow> Some (l, e) | _ \<Rightarrow> None), w')"
proof -
  obtain g w' where g: "svc_get svc k w = (g, w')" by fastforce
  from assms(2) have "is_ok (fst (svc_get svc k w))" by (simp add: service_answers_def)
  with g obtain x where x: "g = Inr x" by (cases g) simp_all
  with cas_get [OF assms(1) g] have v: "svc_view svc w' = svc_view svc w" "g = Inr (svc_view svc w k)" by simp_all
  have "read_lease svc k w = (Inr (case svc_view svc w k of Some (Some l, e) \<Rightarrow> Some (l, e) | _ \<Rightarrow> None), w')"
    unfolding read_lease_def g v(2) by (simp split: option.split)
  with v(1) show ?thesis by (rule that)
qed

text \<open>C19. When the lease lies free or its expiry has passed, the next node that asks gets it, whoever
  held it before, and the bucket then names that node as the holder.\<close>

theorem dead_leader_is_replaced:
  assumes "cas_service_ok svc" "service_answers svc"
    and "svc_view svc w k = None \<or> (\<exists>l e. svc_view svc w k = Some (Some l, e) \<and> expires_at l < now)"
  shows "\<exists>w' l. s3_try_acquire svc node k ownr now ttl w = (Inr True, w') \<and> recorded svc k w' l
    \<and> owner l = ownr \<and> node_id l = node \<and> expires_at l = lease_expiry now ttl"
proof -
  obtain w1 where w1: "svc_view svc w1 = svc_view svc w" "read_lease svc k w =
    (Inr (case svc_view svc w k of Some (Some l, e) \<Rightarrow> Some (l, e) | _ \<Rightarrow> None), w1)"
    using read_answers [OF assms(1,2)] by blast
  then obtain ep pre where a: "s3_try_acquire svc node k ownr now ttl w
      = svc_put svc k (body_for node ownr ep (lease_expiry now ttl)) pre w1" and pre: "precondition_holds svc k pre w1"
    using assms(3) by (fastforce simp: s3_try_acquire_def plan_acquire_def perform_acquire_def precondition_holds_def)
  obtain r w' where put: "svc_put svc k (body_for node ownr ep (lease_expiry now ttl)) pre w1 = (r, w')" by fastforce
  from assms(2) pre put have "r = Inr True"
    unfolding service_answers_def by (metis fst_conv)
  with assms(1) put obtain e where "svc_view svc w' = (svc_view svc w1)(k \<mapsto> (Some (body_for node ownr ep (lease_expiry now ttl)), e))"
    by (cases rule: cas_put_cases) auto
  with a put \<open>r = Inr True\<close> show ?thesis
    by (intro exI [of _ w'] exI [of _ "body_for node ownr ep (lease_expiry now ttl)"]) (simp add: recorded_def body_for_def)
qed

definition dead_leader :: documents where
  "dead_leader = [''rule'' \<mapsto> Some \<lparr>owner = ''A'', node_id = ''nodeA'', epoch = 5, expires_at = 90\<rparr>]"

lemma content_service_answers: "service_answers content_service"
  unfolding service_answers_def content_service_def precondition_holds_def
  by (auto split: option.split)

theorem dead_leader_is_replaced_witness:
  "\<exists>w' l. s3_try_acquire content_service ''nodeB'' ''rule'' ''B'' 100 60 dead_leader = (Inr True, w')
    \<and> recorded content_service ''rule'' w' l \<and> owner l = ''B'' \<and> node_id l = ''nodeB'' \<and> expires_at l = 160"
proof -
  have e: "lease_expiry 100 60 = 160" by (simp add: lease_expiry_def sat_i64_def i64_min_def i64_max_def)
  have "\<exists>l e. svc_view content_service dead_leader ''rule'' = Some (Some l, e) \<and> expires_at l < 100"
    by (simp add: content_service_def dead_leader_def)
  from dead_leader_is_replaced [OF content_service_ok content_service_answers disjI2 [OF this], of "''nodeB''" "''B''" 60, unfolded e]
  show ?thesis .
qed

lemma acquired_is_recorded:
  assumes "cas_service_ok svc" "s3_try_acquire svc node k ownr now ttl w = (Inr True, w')"
  shows "\<exists>l. recorded svc k w' l \<and> owner l = ownr \<and> node_id l = node"
proof -
  from assms(2) obtain current w1 where
    "perform_acquire svc node k ownr (lease_expiry now ttl) (plan_acquire current now node) w1 = (Inr True, w')"
    unfolding s3_try_acquire_def by (auto elim: and_then_InrE)
  then obtain ep pre where "svc_put svc k (body_for node ownr ep (lease_expiry now ttl)) pre w1 = (Inr True, w')"
    by (auto simp: perform_acquire_def split: acquire_action.splits)
  with assms(1) show ?thesis
    by (cases rule: cas_put_cases) (auto simp: recorded_def body_for_def)
qed

section \<open>A lease document that cannot be read\<close>

text \<open>C22. A document at the key of a lease that is not a lease is read as an absent lease, but the
  write that follows requires that no object exists: no node ever acquires that lease and the document
  stays, so the rule never runs again.\<close>

theorem unreadable_lease_is_never_acquired:
  assumes "cas_service_ok svc" "svc_view svc w k = Some (None, e)"
    and "s3_try_acquire svc node k ownr now ttl w = (r, w')"
  shows "r \<noteq> Inr True \<and> svc_view svc w' k = Some (None, e)"
proof -
  obtain r1 w1 where r1: "read_lease svc k w = (r1, w1)" by fastforce
  note v = read_lease_ok [OF assms(1) r1]
  show ?thesis
  proof (cases r1)
    case (Inl x)
    with assms r1 v(1) show ?thesis by (auto simp: s3_try_acquire_def)
  next
    case (Inr c)
    with v(2) assms(2) have "c = None" by (cases c) auto
    with Inr r1 assms(3) have "svc_put svc k (body_for node ownr 1 (lease_expiry now ttl)) None w1 = (r, w')"
      by (simp add: s3_try_acquire_def plan_acquire_def perform_acquire_def)
    with assms(1) show ?thesis
      by (cases rule: cas_put_cases) (use v(1) assms(2) in \<open>auto simp: precondition_holds_def\<close>)
  qed
qed

theorem unreadable_lease_is_never_acquired_witness:
  "fst (s3_try_acquire content_service ''nodeB'' ''rule'' ''B'' 100 60 [''rule'' \<mapsto> None]) \<noteq> Inr True"
  using unreadable_lease_is_never_acquired [OF content_service_ok _ prod.collapse [symmetric],
      of "[''rule'' \<mapsto> None]" "''rule''" None "''nodeB''" "''B''" 100 60]
  by (simp add: content_service_def)

end
