(* ===== verification/ReferenceLock.thy ===== *)
theory ReferenceLock
  imports LeaseSafety
begin

text \<open>
  The lock that serialises writers of one deltaspace across nodes
  (\<open>src/src/coordination/reference_lock.rs\<close>): an object in the coordination bucket with the shape and
  the conditional writes of a lease, taken in a polling loop with a deadline.
\<close>

definition DEFAULT_LOCK_TTL_SECS :: int where "DEFAULT_LOCK_TTL_SECS = 120"
definition DEFAULT_ACQUIRE_TIMEOUT_SECS :: nat where "DEFAULT_ACQUIRE_TIMEOUT_SECS = 30"
definition ACQUIRE_POLL_INTERVAL :: nat where "ACQUIRE_POLL_INTERVAL = 100"

type_synonym ref_lock = lease

datatype 'e lock_action = LockCreate | LockSteal 'e nat | LockBlocked

definition plan_lock_acquire :: "(ref_lock \<times> 'e) option \<Rightarrow> int \<Rightarrow> string \<Rightarrow> 'e lock_action" where
  "plan_lock_acquire current now my_node_id =
     (case current of
        None \<Rightarrow> LockCreate
      | Some (l, etag) \<Rightarrow>
          if expires_at l < now \<or> node_id l = my_node_id
          then LockSteal etag (sat_add (epoch l) 1) else LockBlocked)"

text \<open>The digest is a parameter: \<open>sha256_hex\<close> of the bucket, a zero byte and the deltaspace.\<close>

definition lock_object_key :: "(string \<Rightarrow> string) \<Rightarrow> string \<Rightarrow> string \<Rightarrow> string" where
  "lock_object_key sha bucket deltaspace =
     ''_dgp/locks/reference/'' @ sha (bucket @ CHR 0x00 # deltaspace) @ ''.json''"

record lock_config =
  lock_node :: string
  lock_ttl :: int
  lock_timeout :: nat

definition new_lock_config :: "string \<Rightarrow> lock_config" where
  "new_lock_config node = \<lparr>lock_node = node, lock_ttl = DEFAULT_LOCK_TTL_SECS,
     lock_timeout = DEFAULT_ACQUIRE_TIMEOUT_SECS\<rparr>"

definition with_tunables :: "int \<Rightarrow> nat \<Rightarrow> lock_config \<Rightarrow> lock_config" where
  "with_tunables ttl_secs acquire_timeout_secs c =
     c\<lparr>lock_ttl := max ttl_secs 1, lock_timeout := max acquire_timeout_secs 1\<rparr>"

definition lock_try_acquire ::
  "('w, 'e) cas_service \<Rightarrow> lock_config \<Rightarrow> string \<Rightarrow> string \<Rightarrow> int \<Rightarrow> 'w \<Rightarrow> (string, bool) result \<times> 'w" where
  "lock_try_acquire svc c k ownr now w =
     and_then (read_lease svc k w) (\<lambda>current w.
       let exp_at = sat_i64 (now + max (lock_ttl c) 1)
       in case plan_lock_acquire current now (lock_node c) of
            LockBlocked \<Rightarrow> (Inr False, w)
          | LockCreate \<Rightarrow> svc_put svc k (body_for (lock_node c) ownr 1 exp_at) None w
          | LockSteal etag next_epoch \<Rightarrow> svc_put svc k (body_for (lock_node c) ownr next_epoch exp_at) (Some etag) w)"

definition lock_release ::
  "('w, 'e) cas_service \<Rightarrow> string \<Rightarrow> string \<Rightarrow> 'w \<Rightarrow> (string, unit) result \<times> 'w" where
  "lock_release svc k ownr w =
     and_then (read_lease svc k w) (\<lambda>current w.
       case current of
         Some (l, etag) \<Rightarrow> if owner l = ownr then (Inr (), snd (svc_delete svc k etag w)) else (Inr (), w)
       | None \<Rightarrow> (Inr (), w))"

text \<open>
  The waiting loop.  \<open>attempt\<close> is one acquisition at the time the clock shows, \<open>instant\<close> reads the
  monotonic clock in milliseconds and \<open>sleep\<close> waits for a poll interval.
\<close>

partial_function (option) acquire_blocking ::
  "('w \<Rightarrow> (string, bool) result \<times> 'w) \<Rightarrow> ('w \<Rightarrow> nat) \<Rightarrow> (nat \<Rightarrow> 'w \<Rightarrow> 'w) \<Rightarrow> nat \<Rightarrow> 'w
     \<Rightarrow> ((string, bool) result \<times> 'w) option" where
  "acquire_blocking attempt instant sleep deadline w =
     (case attempt w of
        (Inl e, w) \<Rightarrow> Some (Inl e, w)
      | (Inr acquired, w) \<Rightarrow>
          if acquired then Some (Inr True, w)
          else if deadline \<le> instant w then Some (Inr False, w)
          else acquire_blocking attempt instant sleep deadline (sleep ACQUIRE_POLL_INTERVAL w))"

section \<open>The lock is a lease\<close>

text \<open>One attempt and one release are those of a lease with the configured time to live, so the
  exclusion of the lease object carries over.\<close>

lemma lock_is_a_lease:
  "lock_try_acquire svc c k ownr now w = s3_try_acquire svc (lock_node c) k ownr now (lock_ttl c) w"
  "lock_release svc k ownr w = s3_release svc k ownr w"
proof -
  show "lock_release svc k ownr w = s3_release svc k ownr w"
    by (simp add: lock_release_def s3_release_def release_found_def [abs_def])
  have "(let exp_at = sat_i64 (now + max (lock_ttl c) 1)
       in case plan_lock_acquire current now (lock_node c) of
            LockBlocked \<Rightarrow> (Inr False, w)
          | LockCreate \<Rightarrow> svc_put svc k (body_for (lock_node c) ownr 1 exp_at) None w
          | LockSteal etag next_epoch \<Rightarrow> svc_put svc k (body_for (lock_node c) ownr next_epoch exp_at) (Some etag) w)
    = perform_acquire svc (lock_node c) k ownr (lease_expiry now (lock_ttl c)) (plan_acquire current now (lock_node c)) w"
    for current w
    by (auto simp: plan_lock_acquire_def plan_acquire_def perform_acquire_def lease_expiry_def Let_def split: option.split)
  then show "lock_try_acquire svc c k ownr now w = s3_try_acquire svc (lock_node c) k ownr now (lock_ttl c) w"
    unfolding lock_try_acquire_def s3_try_acquire_def by simp
qed

section \<open>The waiting loop ends\<close>

lemma acquire_blocking_total:
  assumes mono: "\<And>w. instant w \<le> instant (snd (attempt w))"
    and sleep: "\<And>d w. instant w + d \<le> instant (sleep d w)"
  shows "\<exists>r w'. acquire_blocking attempt instant sleep deadline w = Some (r, w')
     \<and> (r = Inr False \<longrightarrow> deadline \<le> instant w') \<and> (is_ok r \<longrightarrow> (\<exists>w0. attempt w0 = (r, w')))"
proof (induction "deadline - instant w" arbitrary: w rule: less_induct)
  case less
  obtain r w1 where a: "attempt w = (r, w1)" by fastforce
  show ?case
  proof (cases "r = Inr False \<and> instant w1 < deadline")
    case True
    let ?w = "sleep ACQUIRE_POLL_INTERVAL w1"
    have "instant w \<le> instant w1" using mono [of w] a by simp
    moreover have "instant w1 + 100 \<le> instant ?w" using sleep [of w1 ACQUIRE_POLL_INTERVAL] by (simp add: ACQUIRE_POLL_INTERVAL_def)
    ultimately have "deadline - instant ?w < deadline - instant w" using True by linarith
    from less [OF this] True show ?thesis by (subst acquire_blocking.simps) (simp add: a)
  next
    case False
    then have "acquire_blocking attempt instant sleep deadline w = Some (r, w1)"
      by (subst acquire_blocking.simps) (auto simp: a split: sum.split)
    with False a show ?thesis by (intro exI [of _ r] exI [of _ w1]) auto
  qed
qed

text \<open>C21. Waiting for the lock always ends, for every behaviour of the coordination bucket: the
  writer gets the lock, or an error of the bucket, or a refusal once the deadline has passed; and when
  it is told that it has the lock, the object in the bucket names its node and its token.\<close>

theorem acquire_blocking_returns:
  assumes "cas_service_ok svc"
    and clock: "\<And>w. instant w \<le> instant (snd (lock_try_acquire svc c k ownr (now w) w))"
    and sleep: "\<And>d w. instant w + d \<le> instant (sleep d w)"
  shows "\<exists>r w'. acquire_blocking (\<lambda>w. lock_try_acquire svc c k ownr (now w) w) instant sleep deadline w = Some (r, w')
    \<and> (r = Inr False \<longrightarrow> deadline \<le> instant w')
    \<and> (r = Inr True \<longrightarrow> (\<exists>l. recorded svc k w' l \<and> owner l = ownr \<and> node_id l = lock_node c))"
proof -
  let ?a = "\<lambda>w. lock_try_acquire svc c k ownr (now w) w"
  obtain r w' where r: "acquire_blocking ?a instant sleep deadline w = Some (r, w')"
    "r = Inr False \<longrightarrow> deadline \<le> instant w'" "is_ok r \<longrightarrow> (\<exists>w0. ?a w0 = (r, w'))"
    using acquire_blocking_total [of instant ?a sleep deadline w] clock sleep by blast
  have "\<exists>l. recorded svc k w' l \<and> owner l = ownr \<and> node_id l = lock_node c" if t: "r = Inr True"
  proof -
    from r(3) t obtain w0 where w0: "s3_try_acquire svc (lock_node c) k ownr (now w0) (lock_ttl c) w0 = (Inr True, w')"
      by (auto simp: lock_is_a_lease)
    show ?thesis by (rule acquired_is_recorded [OF assms(1) w0])
  qed
  with r show ?thesis by blast
qed

text \<open>A bucket beside a clock that only sleeping moves, and a lock that another node keeps.\<close>

definition timed_service :: "(documents \<times> nat, lease option) cas_service" where
  "timed_service = \<lparr>
     svc_view = (\<lambda>w. svc_view content_service (fst w)),
     svc_get = (\<lambda>k w. (fst (svc_get content_service k (fst w)), w)),
     svc_put = (\<lambda>k l pre w. case svc_put content_service k l pre (fst w) of (r, d) \<Rightarrow> (r, (d, snd w))),
     svc_delete = (\<lambda>k e w. case svc_delete content_service k e (fst w) of (r, d) \<Rightarrow> (r, (d, snd w)))\<rparr>"

lemma timed_service_ok: "cas_service_ok timed_service"
  unfolding cas_service_ok_def timed_service_def content_service_def precondition_holds_def
  by (auto simp: fun_eq_iff split: if_splits option.splits)

definition held_elsewhere :: "documents \<times> nat" where
  "held_elsewhere = ([''lock'' \<mapsto> Some \<lparr>owner = ''x'', node_id = ''nodeB'', epoch = 1, expires_at = 2000\<rparr>], 0)"

theorem acquire_blocking_returns_witness:
  "\<exists>r w'. acquire_blocking (\<lambda>w. lock_try_acquire timed_service (new_lock_config ''nodeA'') ''lock'' ''t'' 1000 w)
      snd (\<lambda>d (docs, t). (docs, t + d)) 250 held_elsewhere = Some (r, w')
    \<and> (r = Inr False \<longrightarrow> 250 \<le> snd w')
    \<and> (r = Inr True \<longrightarrow> (\<exists>l. recorded timed_service ''lock'' w' l \<and> owner l = ''t'' \<and> node_id l = ''nodeA''))"
proof -
  have r: "snd (snd (read_lease timed_service ''lock'' w)) = snd w" for w
    by (auto simp: read_lease_def timed_service_def content_service_def split: option.split)
  have "snd (snd (lock_try_acquire timed_service (new_lock_config ''nodeA'') ''lock'' ''t'' 1000 w)) = snd w" for w
  proof -
    obtain x w1 where x: "read_lease timed_service ''lock'' w = (x, w1)" by (rule prod.exhaust)
    have "snd (snd (svc_put timed_service k l pre w1)) = snd w1" for k l pre
      by (auto simp: timed_service_def content_service_def)
    with r [of w] x show ?thesis
      by (cases x) (auto simp: lock_is_a_lease s3_try_acquire_def perform_acquire_def split: acquire_action.split)
  qed
  then show ?thesis
    using acquire_blocking_returns [OF timed_service_ok, of snd "new_lock_config ''nodeA''" "''lock''" "''t''" "\<lambda>_. 1000"
        "\<lambda>d (docs, t). (docs, t + d)" 250 held_elsewhere]
    by (simp add: new_lock_config_def case_prod_unfold)
qed

end
