(* ===== verification/Maintenance.thy ===== *)
theory Maintenance
  imports Leases Listing
begin

text \<open>
  Maintenance jobs: the pagination state machine of the job loops (\<open>src/src/job_loop.rs\<close>), the job rows
  with their claims, cancellations and re-queues (\<open>src/src/maintenance/store.rs\<close>), and the counting
  phase of the worker (\<open>src/src/maintenance/worker.rs\<close>).  A table is a map from row ids to rows; the
  time is an argument.
\<close>

section \<open>The pager\<close>

definition MAX_JOB_PAGES :: nat where "MAX_JOB_PAGES = 10000"

record pager =
  cursor :: "string option"
  resumed :: bool
  pages_started :: nat
  max_pages :: nat
  more_pending :: bool

definition pager_resuming :: "string option \<Rightarrow> pager" where
  "pager_resuming resume_token = \<lparr>cursor = resume_token, resumed = (resume_token \<noteq> None), pages_started = 0,
     max_pages = MAX_JOB_PAGES, more_pending = False\<rparr>"

definition pager_fresh :: pager where "pager_fresh = pager_resuming None"

definition with_max_pages :: "nat \<Rightarrow> pager \<Rightarrow> pager" where
  "with_max_pages n p = p\<lparr>max_pages := n\<rparr>"

definition begin_page :: "pager \<Rightarrow> nat option \<times> pager" where
  "begin_page p = (if pages_started p \<ge> max_pages p then (None, p)
     else (Some (pages_started p), p\<lparr>pages_started := pages_started p + 1\<rparr>))"

definition poisoned_resume_token :: "pager \<Rightarrow> bool" where
  "poisoned_resume_token p \<longleftrightarrow> resumed p \<and> pages_started p = 1"

definition restart_fresh :: "pager \<Rightarrow> pager" where
  "restart_fresh p = p\<lparr>cursor := None, resumed := False, pages_started := 0, more_pending := False\<rparr>"

definition truncated_by_page_budget :: "pager \<Rightarrow> bool" where
  "truncated_by_page_budget p \<longleftrightarrow> pages_started p \<ge> max_pages p \<and> more_pending p"

definition advance :: "bool \<Rightarrow> string option \<Rightarrow> pager \<Rightarrow> bool \<times> pager" where
  "advance is_truncated next_token p =
     (if is_truncated \<and> next_token \<noteq> None
      then (True, p\<lparr>cursor := next_token, more_pending := True\<rparr>)
      else (False, p\<lparr>cursor := None, more_pending := False\<rparr>))"

section \<open>Job rows\<close>

datatype job_status = Queued | Running | Cancelling | Completed | Failed | Cancelled

definition active_status :: "job_status \<Rightarrow> bool" where
  "active_status st \<longleftrightarrow> st \<in> {Queued, Running, Cancelling}"

record maintenance_job = lease_row +
  job_kind :: string
  job_bucket :: string
  job_status :: job_status
  job_phase :: string
  objects_total :: "int option"
  objects_done :: int
  objects_skipped :: int
  objects_failed :: int
  bytes_done :: int
  continuation_token :: "string option"
  last_error :: "string option"
  triggered_by :: "string option"
  job_params :: "string option"
  job_created_at :: int
  started_at :: "int option"
  finished_at :: "int option"
  updated_at :: int

record maintenance_failure =
  failed_job :: nat
  failed_key :: string
  failed_error :: string
  failed_at :: int

record maintenance_db =
  jobs :: "nat \<Rightarrow> maintenance_job option"
  next_job_id :: nat
  failures :: "(nat \<times> maintenance_failure) list"
  next_failure_id :: nat

definition empty_maintenance_db :: maintenance_db where
  "empty_maintenance_db = \<lparr>jobs = Map.empty, next_job_id = 1, failures = [], next_failure_id = 1\<rparr>"

definition job_ids :: "maintenance_db \<Rightarrow> nat list" where
  "job_ids d = [1..<next_job_id d]"

text \<open>An update with a condition, as SQL runs it over the rows; the second result says if a row changed.\<close>

definition update_job ::
  "nat \<Rightarrow> (maintenance_job \<Rightarrow> bool) \<Rightarrow> (maintenance_job \<Rightarrow> maintenance_job) \<Rightarrow> maintenance_db \<Rightarrow> bool \<times> maintenance_db" where
  "update_job i cond f d = (case jobs d i of
     Some row \<Rightarrow> if cond row then (True, d\<lparr>jobs := (jobs d)(i \<mapsto> f row)\<rparr>) else (False, d)
   | None \<Rightarrow> (False, d))"

definition update_jobs ::
  "(maintenance_job \<Rightarrow> bool) \<Rightarrow> (maintenance_job \<Rightarrow> maintenance_job) \<Rightarrow> maintenance_db \<Rightarrow> maintenance_db" where
  "update_jobs cond f d = d\<lparr>jobs := (\<lambda>i. map_option (\<lambda>row. if cond row then f row else row) (jobs d i))\<rparr>"

definition maintenance_active_job_for_bucket :: "string \<Rightarrow> maintenance_db \<Rightarrow> (nat \<times> maintenance_job) option" where
  "maintenance_active_job_for_bucket bucket d =
     (case List.find (\<lambda>i. case jobs d i of Some row \<Rightarrow> job_bucket row = bucket \<and> active_status (job_status row) | None \<Rightarrow> False)
        (job_ids d) of
        Some i \<Rightarrow> Some (i, the (jobs d i)) | None \<Rightarrow> None)"

text \<open>The partial unique index refuses a second active row of the bucket.\<close>

definition maintenance_create_job ::
  "string \<Rightarrow> string \<Rightarrow> string \<Rightarrow> string option \<Rightarrow> string \<Rightarrow> int \<Rightarrow> maintenance_db \<Rightarrow> nat option \<times> maintenance_db" where
  "maintenance_create_job kind bucket initial_phase params trigger now d =
     (if maintenance_active_job_for_bucket bucket d \<noteq> None then (None, d)
      else (Some (next_job_id d),
            d\<lparr>jobs := (jobs d)(next_job_id d \<mapsto>
                \<lparr>leader_instance_id = None, leader_expires_at = None, job_kind = kind, job_bucket = bucket,
                 job_status = Queued, job_phase = initial_phase, objects_total = None, objects_done = 0,
                 objects_skipped = 0, objects_failed = 0, bytes_done = 0, continuation_token = None,
                 last_error = None, triggered_by = Some trigger, job_params = params, job_created_at = now,
                 started_at = None, finished_at = None, updated_at = now\<rparr>),
              next_job_id := next_job_id d + 1\<rparr>))"

definition maintenance_list_jobs :: "nat \<Rightarrow> maintenance_db \<Rightarrow> (nat \<times> maintenance_job) list" where
  "maintenance_list_jobs limit d =
     take limit (List.map_filter (\<lambda>i. map_option (Pair i) (jobs d i)) (rev (job_ids d)))"

definition maintenance_job_by_id :: "nat \<Rightarrow> maintenance_db \<Rightarrow> maintenance_job option" where
  "maintenance_job_by_id i d = jobs d i"

definition gate_armed_during :: "string \<Rightarrow> bool" where
  "gate_armed_during phase \<longleftrightarrow> phase \<noteq> ''cleanup''"

text \<open>The JSON of the parameters is read by a parameter, \<open>transient_of\<close>: the staging route it names.\<close>

definition maintenance_gate_arm_keys :: "(string \<Rightarrow> string option) \<Rightarrow> maintenance_db \<Rightarrow> string list" where
  "maintenance_gate_arm_keys transient_of d = concat (map (\<lambda>i. case jobs d i of
       Some row \<Rightarrow>
         if \<not> active_status (job_status row) then []
         else if job_kind row = ''migrate''
         then (if \<not> gate_armed_during (job_phase row) then []
               else (case Option.bind (job_params row) transient_of of Some t \<Rightarrow> [t] | None \<Rightarrow> []) @ [job_bucket row])
         else [job_bucket row]
     | None \<Rightarrow> []) (job_ids d))"

definition lease_free :: "int \<Rightarrow> ('r lease_row_scheme) \<Rightarrow> bool" where
  "lease_free now row \<longleftrightarrow> leader_instance_id row = None \<or> leader_expires_at row = None
     \<or> the (leader_expires_at row) < now"

definition maintenance_claim_next_job ::
  "string \<Rightarrow> int \<Rightarrow> int \<Rightarrow> maintenance_db \<Rightarrow> (nat \<times> maintenance_job) option \<times> maintenance_db" where
  "maintenance_claim_next_job instance_id now lease_ttl_secs d =
     (case List.find (\<lambda>i. case jobs d i of Some row \<Rightarrow> job_status row = Queued \<and> lease_free now row | None \<Rightarrow> False) (job_ids d) of
        None \<Rightarrow> (None, d)
      | Some i \<Rightarrow>
          (case try_acquire_leader_lease i instance_id now lease_ttl_secs (jobs d) of
             (False, _) \<Rightarrow> (None, d)
           | (True, js) \<Rightarrow>
               (case update_job i (\<lambda>row. job_status row = Queued \<and> leader_instance_id row = Some instance_id)
                       (\<lambda>row. row\<lparr>job_status := Running,
                                 started_at := (case started_at row of None \<Rightarrow> Some now | t \<Rightarrow> t),
                                 updated_at := now\<rparr>) (d\<lparr>jobs := js\<rparr>) of
                  (False, _) \<Rightarrow> (None, d)
                | (True, d') \<Rightarrow> (Some (i, the (jobs d' i)), d'))))"

definition maintenance_heartbeat :: "nat \<Rightarrow> string \<Rightarrow> int \<Rightarrow> int \<Rightarrow> maintenance_db \<Rightarrow> bool \<times> maintenance_db" where
  "maintenance_heartbeat i instance_id now lease_ttl_secs d =
     (case renew_leader_lease i instance_id now lease_ttl_secs (jobs d) of (ok, js) \<Rightarrow> (ok, d\<lparr>jobs := js\<rparr>))"

definition maintenance_update_progress ::
  "nat \<Rightarrow> string \<Rightarrow> int option \<Rightarrow> int \<Rightarrow> int \<Rightarrow> int \<Rightarrow> int \<Rightarrow> string option \<Rightarrow> int \<Rightarrow> maintenance_db \<Rightarrow> maintenance_db" where
  "maintenance_update_progress i phase tot done_n skipped failed bytes token now d =
     snd (update_job i (\<lambda>row. job_status row \<in> {Running, Cancelling})
       (\<lambda>row. row\<lparr>job_phase := phase, objects_total := tot, objects_done := done_n, objects_skipped := skipped,
                 objects_failed := failed, bytes_done := bytes, continuation_token := token, updated_at := now\<rparr>) d)"

datatype cancel_outcome = CancelledImmediately | CancelRequested | NotActive

definition maintenance_request_cancel :: "nat \<Rightarrow> int \<Rightarrow> maintenance_db \<Rightarrow> cancel_outcome \<times> maintenance_db" where
  "maintenance_request_cancel i now d =
     (case update_job i (\<lambda>row. job_status row = Queued)
             (\<lambda>row. row\<lparr>job_status := Cancelled, finished_at := Some now, updated_at := now\<rparr>) d of
        (True, d) \<Rightarrow> (CancelledImmediately, d)
      | (False, d) \<Rightarrow>
          (case update_job i (\<lambda>row. job_status row = Running) (\<lambda>row. row\<lparr>job_status := Cancelling, updated_at := now\<rparr>) d of
             (True, d) \<Rightarrow> (CancelRequested, d)
           | (False, d) \<Rightarrow> (NotActive, d)))"

definition maintenance_cancel_requested :: "nat \<Rightarrow> maintenance_db \<Rightarrow> bool" where
  "maintenance_cancel_requested i d =
     (case jobs d i of Some row \<Rightarrow> job_status row \<in> {Cancelling, Cancelled} | None \<Rightarrow> False)"

definition maintenance_finish :: "nat \<Rightarrow> job_status \<Rightarrow> string option \<Rightarrow> int \<Rightarrow> maintenance_db \<Rightarrow> maintenance_db" where
  "maintenance_finish i st err now d =
     snd (update_job i (\<lambda>row. active_status (job_status row))
       (\<lambda>row. row\<lparr>job_status := st, last_error := err, finished_at := Some now, updated_at := now,
                 leader_instance_id := None, leader_expires_at := None\<rparr>) d)"

definition prune_failure_ring :: "('r \<Rightarrow> bool) \<Rightarrow> nat \<Rightarrow> (nat \<times> 'r) list \<Rightarrow> (nat \<times> 'r) list" where
  "prune_failure_ring of_key max_retained rows =
     (let kept = take max_retained (rev (sort (map fst (filter (\<lambda>r. of_key (snd r)) rows))))
      in filter (\<lambda>r. \<not> (of_key (snd r) \<and> fst r \<notin> set kept)) rows)"

definition maintenance_record_failure :: "nat \<Rightarrow> string \<Rightarrow> string \<Rightarrow> nat \<Rightarrow> int \<Rightarrow> maintenance_db \<Rightarrow> maintenance_db" where
  "maintenance_record_failure i key err max_retained now d =
     (let rows = failures d @ [(next_failure_id d,
             \<lparr>failed_job = i, failed_key = key, failed_error = err, failed_at = now\<rparr>)]
      in d\<lparr>failures := prune_failure_ring (\<lambda>f. failed_job f = i) max_retained rows,
           next_failure_id := next_failure_id d + 1\<rparr>)"

definition maintenance_requeue_abandoned :: "int \<Rightarrow> maintenance_db \<Rightarrow> maintenance_db" where
  "maintenance_requeue_abandoned now d =
     update_jobs (\<lambda>row. job_status row = Running \<and> lease_free now row)
       (\<lambda>row. row\<lparr>job_status := Queued, leader_instance_id := None, leader_expires_at := None, updated_at := now\<rparr>)
     (update_jobs (\<lambda>row. job_status row = Cancelling \<and> lease_free now row)
       (\<lambda>row. row\<lparr>job_status := Cancelled, leader_instance_id := None, leader_expires_at := None,
                 finished_at := Some now, updated_at := now\<rparr>) d)"

section \<open>The counting phase\<close>

definition LEASE_TTL_SECS :: int where "LEASE_TTL_SECS = 60"
definition CANCELLED :: string where "CANCELLED = ''__cancelled__''"
definition LEASE_LOST :: string where "LEASE_LOST = ''__lease_lost__''"

definition check_cancel :: "nat \<Rightarrow> maintenance_db \<Rightarrow> (string, unit) result" where
  "check_cancel i d = (if maintenance_cancel_requested i d then Inl CANCELLED else Inr ())"

definition heartbeat :: "nat \<Rightarrow> string \<Rightarrow> int \<Rightarrow> maintenance_db \<Rightarrow> (string, unit) result \<times> maintenance_db" where
  "heartbeat i instance_id now d = (case maintenance_heartbeat i instance_id now LEASE_TTL_SECS d of
     (True, d) \<Rightarrow> (Inr (), d) | (False, d) \<Rightarrow> (Inl LEASE_LOST, d))"

definition visible_count :: "'o list_page \<Rightarrow> int" where
  "visible_count pg = int (length (filter (\<lambda>(k, _). \<not> ends_with k ''/'') (pg_objects pg)))"

text \<open>
  The page loop.  \<open>fetch\<close> lists one page (the engine, with its state in the world), \<open>timer\<close> reads the
  time.  A restart happens at most once, since it forgets that the loop was resumed.
\<close>

function count_pages ::
  "(string option \<Rightarrow> 'w \<Rightarrow> (string, 'o list_page) result \<times> 'w) \<Rightarrow> ('w \<Rightarrow> int) \<Rightarrow> nat \<Rightarrow> string
     \<Rightarrow> pager \<Rightarrow> int \<Rightarrow> maintenance_db \<Rightarrow> 'w \<Rightarrow> (string, int) result \<times> maintenance_db \<times> 'w" where
  "count_pages fetch timer i instance_id p tally d w =
     (case begin_page p of
        (None, p) \<Rightarrow> ((if truncated_by_page_budget p then Inl ''counting stopped at the page budget'' else Inr tally), d, w)
      | (Some _, p) \<Rightarrow>
          (case check_cancel i d of Inl e \<Rightarrow> (Inl e, d, w) | Inr _ \<Rightarrow>
           case fetch (cursor p) w of
             (Inl e, w) \<Rightarrow>
               if poisoned_resume_token p
               then count_pages fetch timer i instance_id (restart_fresh p) 0
                      (maintenance_update_progress i ''counting'' (Some 0) 0 0 0 0 None (timer w) d) w
               else (Inl (''counting list failed: '' @ e), d, w)
           | (Inr pg, w) \<Rightarrow>
               (let tally = tally + visible_count pg
                in case advance (pg_truncated pg) (pg_token pg) p of (again, p) \<Rightarrow>
                   let d = maintenance_update_progress i ''counting'' (Some tally) 0 0 0 0 (cursor p) (timer w) d
                   in case heartbeat i instance_id (timer w) d of
                        (Inl e, d) \<Rightarrow> (Inl e, d, w)
                      | (Inr _, d) \<Rightarrow>
                          if again then count_pages fetch timer i instance_id p tally d w
                          else ((if truncated_by_page_budget p then Inl ''counting stopped at the page budget'' else Inr tally), d, w))))"
  by pat_completeness auto
termination
  by (relation "measure (\<lambda>(_, _, _, _, p, _, _, _). (if resumed p then max_pages p + 1 else 0) + (max_pages p - pages_started p))")
    (auto simp: begin_page_def restart_fresh_def poisoned_resume_token_def advance_def split: if_splits)

definition counting_phase ::
  "(string option \<Rightarrow> 'w \<Rightarrow> (string, 'o list_page) result \<times> 'w) \<Rightarrow> ('w \<Rightarrow> int) \<Rightarrow> nat \<Rightarrow> string
     \<Rightarrow> string option \<Rightarrow> maintenance_db \<Rightarrow> 'w \<Rightarrow> (string, int) result \<times> maintenance_db \<times> 'w" where
  "counting_phase fetch timer i instance_id resume_token d w =
     count_pages fetch timer i instance_id (pager_resuming resume_token) 0 d w"

text \<open>Sums and products of signed 64-bit integers wrap; division truncates, which differs from \<open>div\<close> only
  below zero, where the clamp applies.\<close>

definition wrap_i64 :: "int \<Rightarrow> int" where
  "wrap_i64 x = (x + 2 ^ 63) mod 2 ^ 64 - 2 ^ 63"

definition progress_percent :: "string \<Rightarrow> int option \<Rightarrow> int \<Rightarrow> int \<Rightarrow> nat option" where
  "progress_percent phase tot done_n skipped =
     (if phase \<in> {''counting'', ''stage'', ''copy'', ''verify''} then None
      else if phase \<in> {''references'', ''flip'', ''cleanup''} then Some 99
      else case tot of
        None \<Rightarrow> None
      | Some n \<Rightarrow> if n \<le> 0 then Some 99
          else Some (nat (max 0 (min 99 (wrap_i64 (max 0 (min n (wrap_i64 (done_n + skipped))) * 99) div n)))))"

definition display_percent :: "maintenance_job \<Rightarrow> nat option" where
  "display_percent row = (if job_status row = Completed then Some 100
     else progress_percent (job_phase row) (objects_total row) (objects_done row) (objects_skipped row))"

section \<open>Histories of the job table\<close>

datatype job_op =
    OpCreate string string string "string option" string
  | OpClaim string
  | OpHeartbeat nat string
  | OpProgress nat string "int option" int int int int "string option"
  | OpCancel nat
  | OpFinish nat job_status "string option"
  | OpRequeue
  | OpRecordFailure nat string string nat

fun apply_job_op :: "int \<times> job_op \<Rightarrow> maintenance_db \<Rightarrow> maintenance_db" where
  "apply_job_op (now, OpCreate kind bucket phase params trigger) d = snd (maintenance_create_job kind bucket phase params trigger now d)"
| "apply_job_op (now, OpClaim inst) d = snd (maintenance_claim_next_job inst now LEASE_TTL_SECS d)"
| "apply_job_op (now, OpHeartbeat i inst) d = snd (maintenance_heartbeat i inst now LEASE_TTL_SECS d)"
| "apply_job_op (now, OpProgress i phase t a b c e tok) d = maintenance_update_progress i phase t a b c e tok now d"
| "apply_job_op (now, OpCancel i) d = snd (maintenance_request_cancel i now d)"
| "apply_job_op (now, OpFinish i st err) d = maintenance_finish i st err now d"
| "apply_job_op (now, OpRequeue) d = maintenance_requeue_abandoned now d"
| "apply_job_op (now, OpRecordFailure i k e n) d = maintenance_record_failure i k e n now d"

definition run_job_ops :: "(int \<times> job_op) list \<Rightarrow> maintenance_db \<Rightarrow> maintenance_db" where
  "run_job_ops ops d = foldl (\<lambda>d x. apply_job_op x d) d ops"

definition row_quiet :: "maintenance_job \<Rightarrow> bool" where
  "row_quiet r \<longleftrightarrow> job_status r \<in> {Running, Cancelling} \<or> leader_instance_id r = None"

definition jobs_ok :: "maintenance_db \<Rightarrow> bool" where
  "jobs_ok d \<longleftrightarrow> 1 \<le> next_job_id d
     \<and> (\<forall>i r. jobs d i = Some r \<longrightarrow> 1 \<le> i \<and> i < next_job_id d \<and> row_quiet r)
     \<and> (\<forall>i j r r'. jobs d i = Some r \<longrightarrow> jobs d j = Some r' \<longrightarrow> active_status (job_status r)
          \<longrightarrow> active_status (job_status r') \<longrightarrow> job_bucket r = job_bucket r' \<longrightarrow> i = j)"

text \<open>How a row may change: its bucket stays, it never becomes active again, and once settled it stays as it is.\<close>

definition row_step :: "maintenance_job \<Rightarrow> maintenance_job \<Rightarrow> bool" where
  "row_step r r' \<longleftrightarrow> job_bucket r' = job_bucket r \<and> (active_status (job_status r') \<longrightarrow> active_status (job_status r))
     \<and> (\<not> active_status (job_status r) \<longrightarrow> r' = r) \<and> row_quiet r'"

definition rows_step :: "maintenance_db \<Rightarrow> maintenance_db \<Rightarrow> bool" where
  "rows_step d d' \<longleftrightarrow> next_job_id d' = next_job_id d \<and> (\<forall>i. rel_option row_step (jobs d i) (jobs d' i))"

lemma row_step_refl: "row_quiet r \<Longrightarrow> row_step r r"
  by (simp add: row_step_def)

lemma jobs_okD:
  assumes "jobs_ok d" "jobs d i = Some r"
  shows "1 \<le> i" "i < next_job_id d" "row_quiet r"
  using assms unfolding jobs_ok_def by blast+

lemma jobs_ok_unique:
  assumes "jobs_ok d" "jobs d i = Some r" "jobs d j = Some r'" "active_status (job_status r)"
    "active_status (job_status r')" "job_bucket r = job_bucket r'"
  shows "i = j"
  using assms unfolding jobs_ok_def by blast

lemma rows_stepI:
  assumes "next_job_id d' = next_job_id d" "\<And>i. rel_option row_step (jobs d i) (jobs d' i)"
  shows "rows_step d d'"
  using assms by (simp add: rows_step_def)

lemma rows_stepD:
  assumes "rows_step d d'"
  shows "next_job_id d' = next_job_id d" "jobs d' i = Some r' \<Longrightarrow> \<exists>r. jobs d i = Some r \<and> row_step r r'"
    "jobs d i = Some r \<Longrightarrow> \<exists>r'. jobs d' i = Some r' \<and> row_step r r'"
proof -
  show "next_job_id d' = next_job_id d" using assms by (simp add: rows_step_def)
  have "rel_option row_step (jobs d i) (jobs d' i)" using assms by (simp add: rows_step_def)
  then show "jobs d' i = Some r' \<Longrightarrow> \<exists>r. jobs d i = Some r \<and> row_step r r'"
    "jobs d i = Some r \<Longrightarrow> \<exists>r'. jobs d' i = Some r' \<and> row_step r r'"
    by (cases "jobs d i"; cases "jobs d' i"; simp)+
qed

lemma rows_step_refl: "jobs_ok d \<Longrightarrow> rows_step d d"
proof (rule rows_stepI)
  fix i assume "jobs_ok d"
  then show "rel_option row_step (jobs d i) (jobs d i)"
    by (cases "jobs d i") (simp_all add: row_step_refl jobs_okD)
qed simp

lemma jobs_okI:
  assumes "1 \<le> next_job_id d" "\<And>i r. jobs d i = Some r \<Longrightarrow> 1 \<le> i \<and> i < next_job_id d \<and> row_quiet r"
    and "\<And>i j r r'. jobs d i = Some r \<Longrightarrow> jobs d j = Some r' \<Longrightarrow> active_status (job_status r)
       \<Longrightarrow> active_status (job_status r') \<Longrightarrow> job_bucket r = job_bucket r' \<Longrightarrow> i = j"
  shows "jobs_ok d"
  unfolding jobs_ok_def using assms by simp

lemma rows_step_ok:
  assumes "jobs_ok d" "rows_step d d'"
  shows "jobs_ok d'"
proof (rule jobs_okI)
  show "1 \<le> next_job_id d'" using assms by (simp add: jobs_ok_def rows_stepD(1))
  show "1 \<le> i \<and> i < next_job_id d' \<and> row_quiet r'" if "jobs d' i = Some r'" for i r'
    using rows_stepD(2) [OF assms(2) that] jobs_okD [OF assms(1), of i] rows_stepD(1) [OF assms(2)]
    by (auto simp: row_step_def)
  fix i j r r' assume a: "jobs d' i = Some r" "jobs d' j = Some r'" "active_status (job_status r)"
    "active_status (job_status r')" "job_bucket r = job_bucket r'"
  obtain s s' where "jobs d i = Some s" "row_step s r" "jobs d j = Some s'" "row_step s' r'"
    using rows_stepD(2) [OF assms(2) a(1)] rows_stepD(2) [OF assms(2) a(2)] by auto
  with a(3-5) show "i = j" by (intro jobs_ok_unique [OF assms(1), of i s j s']) (simp_all add: row_step_def)
qed

lemma row_step_trans: "row_step r r1 \<Longrightarrow> row_step r1 r2 \<Longrightarrow> row_step r r2"
  unfolding row_step_def by (intro conjI; elim conjE) (erule trans, assumption | blast)+

lemma rows_step_trans:
  assumes "rows_step d d1" "rows_step d1 d2"
  shows "rows_step d d2"
proof (rule rows_stepI)
  show "next_job_id d2 = next_job_id d" using assms by (simp add: rows_stepD(1))
  show "rel_option row_step (jobs d i) (jobs d2 i)" for i
  proof -
    have "rel_option row_step (jobs d i) (jobs d1 i)" "rel_option row_step (jobs d1 i) (jobs d2 i)"
      using assms by (simp_all add: rows_step_def)
    then show ?thesis
      by (cases "jobs d i"; cases "jobs d1 i"; cases "jobs d2 i") (simp_all add: row_step_trans)
  qed
qed

lemma row_step_active:
  "active_status (job_status r) \<and> job_bucket r' = job_bucket r \<and> row_quiet r' \<Longrightarrow> row_step r r'"
  by (simp add: row_step_def)

lemma rows_step_update_job:
  assumes "jobs_ok d" "\<And>r. row_quiet r \<Longrightarrow> cond r \<Longrightarrow> active_status (job_status r) \<and> job_bucket (f r) = job_bucket r \<and> row_quiet (f r)"
  shows "rows_step d (snd (update_job i cond f d))"
proof (rule rows_stepI)
  show "next_job_id (snd (update_job i cond f d)) = next_job_id d"
    by (simp add: update_job_def split: option.split)
  fix k
  have "rel_option row_step (jobs d k) (jobs d k)" using rows_step_refl [OF assms(1)] by (simp add: rows_step_def)
  moreover have "row_step r (f r)" if "jobs d i = Some r" "cond r" for r
    using assms(2) [OF jobs_okD(3) [OF assms(1) that(1)] that(2)] by (rule row_step_active)
  ultimately show "rel_option row_step (jobs d k) (jobs (snd (update_job i cond f d)) k)"
    by (cases "jobs d i") (simp_all add: update_job_def)
qed

lemma rows_step_update_jobs:
  assumes "jobs_ok d" "\<And>r. row_quiet r \<Longrightarrow> cond r \<Longrightarrow> active_status (job_status r) \<and> job_bucket (f r) = job_bucket r \<and> row_quiet (f r)"
  shows "rows_step d (update_jobs cond f d)"
proof (rule rows_stepI)
  show "next_job_id (update_jobs cond f d) = next_job_id d" by (simp add: update_jobs_def)
  fix k
  have "row_step r (if cond r then f r else r)" if "jobs d k = Some r" for r
    using assms(2) [of r, THEN row_step_active] jobs_okD(3) [OF assms(1) that] by (simp add: row_step_refl)
  then show "rel_option row_step (jobs d k) (jobs (update_jobs cond f d) k)"
    by (cases "jobs d k") (simp_all add: update_jobs_def)
qed

lemmas row_simps = row_quiet_def active_status_def

lemma find_active_None:
  assumes "jobs_ok d" "maintenance_active_job_for_bucket bucket d = None" "jobs d i = Some r" "job_bucket r = bucket"
  shows "\<not> active_status (job_status r)"
proof -
  have "i \<in> set (job_ids d)" using jobs_okD [OF assms(1,3)] by (simp add: job_ids_def)
  with assms(2-4) show ?thesis
    by (auto simp: maintenance_active_job_for_bucket_def find_None_iff split: option.splits)
qed

lemma create_ok:
  assumes "jobs_ok d"
  shows "jobs_ok (snd (maintenance_create_job kind bucket phase params trigger now d))"
proof (cases "maintenance_active_job_for_bucket bucket d")
  case None
  let ?d = "snd (maintenance_create_job kind bucket phase params trigger now d)"
  obtain r0 where d: "jobs ?d = (jobs d)(next_job_id d \<mapsto> r0)" "next_job_id ?d = next_job_id d + 1"
    "job_bucket r0 = bucket" "row_quiet r0"
    by (simp add: maintenance_create_job_def None row_quiet_def)
  show ?thesis
  proof (rule jobs_okI)
    have n1: "1 \<le> next_job_id d" using assms by (simp add: jobs_ok_def)
    show "1 \<le> next_job_id ?d" using d(2) by simp
    show "1 \<le> i \<and> i < next_job_id ?d \<and> row_quiet r" if "jobs ?d i = Some r" for i r
      using that d(1,2,4) jobs_okD [OF assms, of i r] n1 by (auto split: if_splits)
    show "i = j" if a: "jobs ?d i = Some r" "jobs ?d j = Some r'" "active_status (job_status r)"
      "active_status (job_status r')" "job_bucket r = job_bucket r'" for i j r r'
    proof -
      have n: "\<not> active_status (job_status x)" if "jobs d k = Some x" "job_bucket x = bucket" for k x
        using find_active_None [OF assms None that] .
      show ?thesis
        using a d(1,3) n [of i r] n [of j r'] jobs_ok_unique [OF assms, of i r j r'] by (auto split: if_splits)
    qed
  qed
next
  case (Some x)
  with assms show ?thesis by (simp add: maintenance_create_job_def)
qed

lemma claim_step:
  assumes "jobs_ok d"
  shows "rows_step d (snd (maintenance_claim_next_job inst now ttl d))"
proof -
  have claimed: "rows_step d d'" if c: "maintenance_claim_next_job inst now ttl d = (Some (i, job), d')" for i job d'
  proof -
    from c have f: "List.find (\<lambda>i. case jobs d i of Some row \<Rightarrow> job_status row = Queued \<and> lease_free now row | None \<Rightarrow> False) (job_ids d) = Some i"
      by (auto simp: maintenance_claim_next_job_def split: option.splits prod.splits bool.splits)
    then obtain r where r: "jobs d i = Some r" "job_status r = Queued" "lease_free now r"
      by (auto simp: find_Some_iff split: option.splits)
    have "d' = snd (update_job i (\<lambda>row. job_status row = Queued) (\<lambda>row. row\<lparr>leader_instance_id := Some inst,
        leader_expires_at := Some (lease_expiry now ttl), job_status := Running,
        started_at := (case started_at row of None \<Rightarrow> Some now | t \<Rightarrow> t), updated_at := now\<rparr>) d)"
      using c f r by (auto simp: maintenance_claim_next_job_def try_acquire_leader_lease_def update_job_def lease_free_def)
    also have "rows_step d \<dots>" using assms by (rule rows_step_update_job) (simp add: row_simps)
    finally show ?thesis .
  qed
  have refused: "snd (maintenance_claim_next_job inst now ttl d) = d" if "fst (maintenance_claim_next_job inst now ttl d) = None"
    using that by (auto simp: maintenance_claim_next_job_def split: option.splits prod.splits bool.splits)
  show ?thesis
  proof (cases "fst (maintenance_claim_next_job inst now ttl d)")
    case None
    with refused rows_step_refl [OF assms] show ?thesis by simp
  next
    case (Some x)
    from claimed [of "fst x" "snd x"] Some show ?thesis by (simp add: prod_eq_iff)
  qed
qed

lemma heartbeat_step:
  assumes "jobs_ok d"
  shows "rows_step d (snd (maintenance_heartbeat i inst now ttl d))"
proof -
  have "snd (maintenance_heartbeat i inst now ttl d) =
    snd (update_job i (\<lambda>r. leader_instance_id r = Some inst \<and> (leader_expires_at r = None \<or> the (leader_expires_at r) \<ge> now))
      (\<lambda>r. r\<lparr>leader_expires_at := Some (lease_expiry now ttl)\<rparr>) d)"
    by (auto simp: maintenance_heartbeat_def renew_leader_lease_def update_job_def split: option.split)
  also have "rows_step d \<dots>" using assms by (rule rows_step_update_job) (auto simp: row_simps)
  finally show ?thesis .
qed

lemma cancel_queued_step:
  assumes "jobs_ok d"
  shows "rows_step d (snd (update_job i (\<lambda>row. job_status row = Queued)
      (\<lambda>row. row\<lparr>job_status := Cancelled, finished_at := Some now, updated_at := now\<rparr>) d))"
  using assms by (rule rows_step_update_job) (simp add: row_simps)

lemma cancel_running_step:
  assumes "jobs_ok d"
  shows "rows_step d (snd (update_job i (\<lambda>row. job_status row = Running)
      (\<lambda>row. row\<lparr>job_status := Cancelling, updated_at := now\<rparr>) d))"
  using assms by (rule rows_step_update_job) (simp add: row_simps)

lemma update_job_False: "update_job i c f d = (False, e) \<Longrightarrow> e = d"
  by (cases "jobs d i") (simp_all add: update_job_def split: if_splits)

lemma cancel_step:
  assumes "jobs_ok d"
  shows "rows_step d (snd (maintenance_request_cancel i now d))"
proof (cases "update_job i (\<lambda>row. job_status row = Queued)
      (\<lambda>row. row\<lparr>job_status := Cancelled, finished_at := Some now, updated_at := now\<rparr>) d")
  case (Pair ok e)
  show ?thesis
  proof (cases ok)
    case True
    with Pair cancel_queued_step [OF assms, of i now] show ?thesis by (simp add: maintenance_request_cancel_def)
  next
    case False
    with Pair have "e = d" by (simp add: update_job_False)
    moreover obtain ok' e' where "update_job i (\<lambda>row. job_status row = Running)
        (\<lambda>row. row\<lparr>job_status := Cancelling, updated_at := now\<rparr>) d = (ok', e')" by fastforce
    ultimately show ?thesis using Pair False cancel_running_step [OF assms, of i now]
      by (cases ok') (simp_all add: maintenance_request_cancel_def)
  qed
qed

lemma requeue_step:
  assumes "jobs_ok d"
  shows "rows_step d (maintenance_requeue_abandoned now d)"
proof -
  let ?d = "update_jobs (\<lambda>row. job_status row = Cancelling \<and> lease_free now row)
       (\<lambda>row. row\<lparr>job_status := Cancelled, leader_instance_id := None, leader_expires_at := None,
                 finished_at := Some now, updated_at := now\<rparr>) d"
  have s: "rows_step d ?d" using assms by (rule rows_step_update_jobs) (simp add: row_simps)
  have "rows_step ?d (maintenance_requeue_abandoned now d)"
    unfolding maintenance_requeue_abandoned_def
    by (rule rows_step_update_jobs [OF rows_step_ok [OF assms s]]) (simp add: row_simps)
  with s show ?thesis by (rule rows_step_trans)
qed

lemma progress_finish_step:
  assumes "jobs_ok d"
  shows "rows_step d (maintenance_update_progress i phase t a b c e tok now d)"
    and "rows_step d (maintenance_finish i st err now d)"
proof -
  show "rows_step d (maintenance_update_progress i phase t a b c e tok now d)"
    unfolding maintenance_update_progress_def using assms by (rule rows_step_update_job) (auto simp: row_simps)
  show "rows_step d (maintenance_finish i st err now d)"
    unfolding maintenance_finish_def using assms by (rule rows_step_update_job) (simp add: row_simps)
qed

lemma record_failure_step:
  assumes "jobs_ok d"
  shows "rows_step d (maintenance_record_failure i k err n now d)"
  using rows_step_refl [OF assms] by (simp add: rows_step_def maintenance_record_failure_def Let_def)

definition creates :: "job_op \<Rightarrow> bool" where
  "creates op = (case op of OpCreate _ _ _ _ _ \<Rightarrow> True | _ \<Rightarrow> False)"

lemma job_op_step:
  assumes "jobs_ok d" "\<not> creates (snd x)"
  shows "rows_step d (apply_job_op x d)"
proof -
  obtain now op where x: "x = (now, op)" by fastforce
  with assms show ?thesis
    by (cases op) (simp_all add: creates_def claim_step heartbeat_step cancel_step requeue_step progress_finish_step record_failure_step)
qed

lemma job_op_ok: "jobs_ok d \<Longrightarrow> jobs_ok (apply_job_op x d)"
proof (cases x)
  case (Pair now op)
  assume ok: "jobs_ok d"
  show ?thesis
  proof (cases op)
    case (OpCreate k b ph ps tr)
    with Pair create_ok [OF ok] show ?thesis by simp
  qed (use rows_step_ok [OF ok job_op_step [OF ok, of x]] Pair in \<open>simp_all add: creates_def\<close>)
qed

lemma run_job_ops_ok: "jobs_ok d \<Longrightarrow> jobs_ok (run_job_ops ops d)"
  unfolding run_job_ops_def by (induction ops rule: rev_induct) (simp_all add: job_op_ok)

lemma empty_jobs_ok: "jobs_ok empty_maintenance_db"
  by (simp add: jobs_ok_def empty_maintenance_db_def)

lemma job_op_final:
  assumes "jobs_ok d" "jobs d i = Some r" "\<not> active_status (job_status r)"
  shows "jobs (apply_job_op x d) i = Some r"
proof (cases "creates (snd x)")
  case True
  then obtain now k b ph ps tr where x: "x = (now, OpCreate k b ph ps tr)"
    by (cases x) (auto simp: creates_def split: job_op.splits)
  have "i \<noteq> next_job_id d" using jobs_okD(2) [OF assms(1,2)] by simp
  with assms(2) x show ?thesis by (simp add: maintenance_create_job_def)
next
  case False
  with rows_stepD(3) [OF job_op_step [OF assms(1), of x] assms(2)] assms(3) show ?thesis
    by (auto simp: row_step_def)
qed

text \<open>C8. For every sequence of job operations by any number of workers and operators, a bucket never
  has two active jobs.\<close>

theorem one_active_job_per_bucket:
  assumes "jobs (run_job_ops ops empty_maintenance_db) i = Some r" "active_status (job_status r)"
    and "jobs (run_job_ops ops empty_maintenance_db) j = Some r'" "active_status (job_status r')"
    and "job_bucket r = job_bucket r'"
  shows "i = j"
  using jobs_ok_unique [OF run_job_ops_ok [OF empty_jobs_ok] assms(1,3,2,4,5)] .

text \<open>C9. A job that has reached a final status never changes again: no later operation reopens it,
  re-settles it or touches its counters.\<close>

theorem settled_jobs_are_final:
  assumes "jobs (run_job_ops ops empty_maintenance_db) i = Some r" "\<not> active_status (job_status r)"
  shows "jobs (run_job_ops (ops @ later_ops) empty_maintenance_db) i = Some r"
proof (induction later_ops rule: rev_induct)
  case Nil
  with assms(1) show ?case by simp
next
  case (snoc x xs)
  from job_op_final [OF run_job_ops_ok [OF empty_jobs_ok] snoc assms(2), of x] show ?case
    by (simp add: run_job_ops_def)
qed

definition sample_ops :: "(int \<times> job_op) list" where
  "sample_ops = [(1, OpCreate ''reencrypt'' ''b'' ''counting'' None ''admin''),
     (2, OpCreate ''reencrypt'' ''b'' ''counting'' None ''admin''), (3, OpClaim ''w''), (4, OpFinish 1 Completed None)]"

definition sample_job :: maintenance_job where
  "sample_job = the (jobs (run_job_ops sample_ops empty_maintenance_db) 1)"

lemmas job_eval = run_job_ops_def sample_ops_def maintenance_create_job_def maintenance_active_job_for_bucket_def
  empty_maintenance_db_def job_ids_def active_status_def maintenance_claim_next_job_def try_acquire_leader_lease_def
  update_job_def maintenance_finish_def lease_free_def

lemma sample_job_settled:
  "jobs (run_job_ops sample_ops empty_maintenance_db) 1 = Some sample_job" "job_status sample_job = Completed"
  by (simp_all add: sample_job_def job_eval)

theorem settled_jobs_are_final_witness:
  "jobs (run_job_ops (sample_ops @ [(5, OpFinish 1 Failed (Some ''late'')), (6, OpCancel 1), (7, OpRequeue)]) empty_maintenance_db) 1
    = Some sample_job"
  by (rule settled_jobs_are_final [OF sample_job_settled(1)]) (simp add: sample_job_settled(2) active_status_def)

theorem one_active_job_per_bucket_witness:
  "\<exists>r. jobs (run_job_ops (take 3 sample_ops) empty_maintenance_db) 1 = Some r \<and> job_status r = Running
     \<and> (\<forall>j r'. jobs (run_job_ops (take 3 sample_ops) empty_maintenance_db) j = Some r' \<longrightarrow> active_status (job_status r')
          \<longrightarrow> job_bucket r' = job_bucket r \<longrightarrow> j = 1)"
proof -
  have "\<exists>r. jobs (run_job_ops (take 3 sample_ops) empty_maintenance_db) 1 = Some r \<and> job_status r = Running"
    by (simp add: job_eval)
  then obtain r where r: "jobs (run_job_ops (take 3 sample_ops) empty_maintenance_db) 1 = Some r" "job_status r = Running"
    by blast
  then have "j = 1" if "jobs (run_job_ops (take 3 sample_ops) empty_maintenance_db) j = Some r'"
    "active_status (job_status r')" "job_bucket r' = job_bucket r" for j r'
    by (intro one_active_job_per_bucket [OF that(1,2) r(1) _ that(3)]) (simp add: active_status_def)
  with r show ?thesis by blast
qed

section \<open>Abandoned jobs resume\<close>

lemma find_upt:
  assumes "a \<le> i" "i < n" "P i" "\<And>j. a \<le> j \<Longrightarrow> j < i \<Longrightarrow> \<not> P j"
  shows "List.find P [a..<n] = Some i"
  unfolding find_Some_iff using assms by (intro exI [of _ "i - a"]) auto

lemma requeued_row:
  assumes "jobs d j = Some r"
  shows "jobs (maintenance_requeue_abandoned now d) j = Some
    (if job_status r = Running \<and> lease_free now r
     then r\<lparr>job_status := Queued, leader_instance_id := None, leader_expires_at := None, updated_at := now\<rparr>
     else if job_status r = Cancelling \<and> lease_free now r
     then r\<lparr>job_status := Cancelled, leader_instance_id := None, leader_expires_at := None,
            finished_at := Some now, updated_at := now\<rparr>
     else r)"
  using assms by (simp add: maintenance_requeue_abandoned_def update_jobs_def)



section \<open>What the counting phase counts\<close>

declare count_pages.simps [simp del]

lemma page_loop_keeps_lease:
  assumes "jobs d i = Some r" "job_status r = Running" "leader_instance_id r = Some inst" "leader_expires_at r = Some e"
    and "now \<le> e" "now \<le> i64_max"
  shows "\<exists>d' r'. heartbeat i inst now (maintenance_update_progress i ph t a b c x tok now d) = (Inr (), d')
    \<and> jobs d' i = Some r' \<and> job_status r' = Running \<and> leader_instance_id r' = Some inst
    \<and> leader_expires_at r' = Some (lease_expiry now LEASE_TTL_SECS) \<and> now \<le> lease_expiry now LEASE_TTL_SECS"
  using assms by (simp add: maintenance_update_progress_def update_job_def heartbeat_def maintenance_heartbeat_def
      renew_leader_lease_def lease_expiry_def sat_i64_def LEASE_TTL_SECS_def)

lemma list_all_pages_Cons:
  assumes "list_all_pages f tok = Some ps"
  shows "\<exists>ps'. ps = f tok # ps' \<and> (case pg_token (f tok) of None \<Rightarrow> ps' = [] | Some t \<Rightarrow> list_all_pages f (Some t) = Some ps')"
  using assms by (subst (asm) list_all_pages.simps) (auto split: option.splits bind_splits)

lemma count_pages_step:
  assumes "begin_page p = (Some n, p')" "check_cancel i d = Inr ()" "fetch (cursor p') w = (Inr pg, w)"
    and "advance (pg_truncated pg) (pg_token pg) p' = (again, q)"
    and "heartbeat i inst (timer w) (maintenance_update_progress i ''counting'' (Some (tally + visible_count pg)) 0 0 0 0
      (cursor q) (timer w) d) = (Inr (), d')"
  shows "count_pages fetch timer i inst p tally d w =
    (if again then count_pages fetch timer i inst q (tally + visible_count pg) d' w
     else ((if truncated_by_page_budget q then Inl ''counting stopped at the page budget''
            else Inr (tally + visible_count pg)), d', w))"
  using assms by (subst count_pages.simps) simp

lemma count_pages_listing:
  assumes fetch: "\<And>tok. fetch tok w = (Inr (f tok), w)" and tr: "\<And>t. pg_truncated (f t) \<longleftrightarrow> pg_token (f t) \<noteq> None"
    and "list_all_pages f (cursor p) = Some ps" "pages_started p + length ps \<le> max_pages p"
    and "jobs d i = Some r" "job_status r = Running" "leader_instance_id r = Some inst" "leader_expires_at r = Some e"
    and "timer w \<le> e" "timer w \<le> i64_max"
  shows "fst (count_pages fetch timer i inst p tally d w) = Inr (tally + sum_list (map visible_count ps))"
  using assms(3-)
proof (induction ps arbitrary: p tally d r e)
  case Nil
  then show ?case using list_all_pages_Cons by fastforce
next
  case (Cons pg ps)
  let ?p = "p\<lparr>pages_started := pages_started p + 1\<rparr>"
  have b: "begin_page p = (Some (pages_started p), ?p)" using Cons.prems(2) by (simp add: begin_page_def)
  have c: "check_cancel i d = Inr ()" using Cons.prems(3,4) by (simp add: check_cancel_def maintenance_cancel_requested_def)
  have pg: "pg = f (cursor p)" "case pg_token pg of None \<Rightarrow> ps = [] | Some t \<Rightarrow> list_all_pages f (Some t) = Some ps"
    using list_all_pages_Cons [OF Cons.prems(1)] by auto
  have fp: "fetch (cursor ?p) w = (Inr pg, w)" by (simp add: fetch pg(1))
  let ?t = "tally + visible_count pg"
  define q where "q = snd (advance (pg_truncated pg) (pg_token pg) ?p)"
  obtain d' r' where d': "heartbeat i inst (timer w) (maintenance_update_progress i ''counting'' (Some ?t) 0 0 0 0 (cursor q) (timer w) d)
      = (Inr (), d')" "jobs d' i = Some r'" "job_status r' = Running" "leader_instance_id r' = Some inst"
    "leader_expires_at r' = Some (lease_expiry (timer w) LEASE_TTL_SECS)" "timer w \<le> lease_expiry (timer w) LEASE_TTL_SECS"
    using page_loop_keeps_lease [OF Cons.prems(3-8), of "''counting''" "Some ?t" 0 0 0 0 "cursor q"] by blast
  show ?case
  proof (cases "pg_token pg")
    case None
    with pg tr have a: "advance (pg_truncated pg) (pg_token pg) ?p = (False, q)" "\<not> more_pending q" "ps = []"
      by (simp_all add: q_def advance_def)
    from count_pages_step [where fetch = fetch and w = w and timer = timer, OF b c fp a(1) d'(1)] a(2,3) show ?thesis by (simp add: truncated_by_page_budget_def)
  next
    case (Some x)
    with pg tr have a: "advance (pg_truncated pg) (pg_token pg) ?p = (True, q)" "cursor q = Some x"
      "pages_started q = pages_started p + 1" "max_pages q = max_pages p" "list_all_pages f (cursor q) = Some ps"
      by (simp_all add: q_def advance_def)
    from Cons.IH [OF a(5) _ d'(2-5) d'(6) Cons.prems(8), of ?t] Cons.prems(2) a(3,4)
    have "fst (count_pages fetch timer i inst q ?t d' w) = Inr (?t + sum_list (map visible_count ps))" by simp
    with count_pages_step [where fetch = fetch and w = w and timer = timer, OF b c fp a(1) d'(1)] show ?thesis by simp
  qed
qed

text \<open>C23. The counting phase returns the number of objects on the pages from its cursor on: a job that
  starts afresh counts the whole bucket, a job that resumes in the middle of the phase counts, and
  reports as the total, only what lies after the page at which it had stopped.\<close>

theorem counting_phase_counts_from_the_cursor:
  assumes "\<And>tok. fetch tok w = (Inr (f tok), w)" "\<And>t. pg_truncated (f t) \<longleftrightarrow> pg_token (f t) \<noteq> None"
    and "list_all_pages f resume_token = Some ps" "length ps \<le> MAX_JOB_PAGES"
    and "jobs d i = Some r" "job_status r = Running" "leader_instance_id r = Some inst" "leader_expires_at r = Some e"
    and "timer w \<le> e" "timer w \<le> i64_max"
  shows "fst (counting_phase fetch timer i inst resume_token d w) = Inr (sum_list (map visible_count ps))"
proof -
  have "fst (count_pages fetch timer i inst (pager_resuming resume_token) 0 d w) = Inr (0 + sum_list (map visible_count ps))"
    by (rule count_pages_listing [where f = f and fetch = fetch and w = w and timer = timer, OF assms(1,2) _ _ assms(5-)]) (use assms(3,4) in \<open>simp_all add: pager_resuming_def\<close>)
  then show ?thesis by (simp add: counting_phase_def)
qed

definition two_pages :: "string option \<Rightarrow> unit list_page" where
  "two_pages tok = (if tok = None
     then \<lparr>pg_objects = [(''a'', ())], pg_prefixes = [], pg_truncated = True, pg_token = Some ''a''\<rparr>
     else \<lparr>pg_objects = [(''b'', ())], pg_prefixes = [], pg_truncated = False, pg_token = None\<rparr>)"

lemma two_pages_facts:
  "pg_truncated (two_pages tok) \<longleftrightarrow> pg_token (two_pages tok) \<noteq> None"
  "list_all_pages two_pages None = Some [two_pages None, two_pages (Some ''a'')]"
  "list_all_pages two_pages (Some ''a'') = Some [two_pages (Some ''a'')]"
  "visible_count (two_pages tok) = 1"
  by (simp_all add: two_pages_def list_all_pages.simps visible_count_def ends_with_def)

theorem counting_phase_counts_from_the_cursor_witness:
  "fst (counting_phase (\<lambda>tok w. (Inr (two_pages tok), w)) (\<lambda>_. 5) 1 ''w'' None
      (run_job_ops (take 3 sample_ops) empty_maintenance_db) ()) = Inr 2
   \<and> fst (counting_phase (\<lambda>tok w. (Inr (two_pages tok), w)) (\<lambda>_. 5) 1 ''w'' (Some ''a'')
      (run_job_ops (take 3 sample_ops) empty_maintenance_db) ()) = Inr 1"
proof -
  let ?d = "run_job_ops (take 3 sample_ops) empty_maintenance_db"
  have "\<exists>r e. jobs ?d 1 = Some r \<and> job_status r = Running \<and> leader_instance_id r = Some ''w'' \<and> leader_expires_at r = Some e
      \<and> 5 \<le> e" by (simp add: job_eval lease_expiry_def sat_i64_def i64_min_def i64_max_def LEASE_TTL_SECS_def)
  then obtain r e where r: "jobs ?d 1 = Some r" "job_status r = Running" "leader_instance_id r = Some ''w''"
    "leader_expires_at r = Some e" "5 \<le> e" by blast
  have "fst (counting_phase (\<lambda>tok w. (Inr (two_pages tok), w)) (\<lambda>_. 5) 1 ''w'' tok ?d ()) = Inr (sum_list (map visible_count ps))"
    if "list_all_pages two_pages tok = Some ps" "length ps \<le> 2" for tok ps
    by (rule counting_phase_counts_from_the_cursor [where f = two_pages and r = r and e = e])
      (use r that in \<open>simp_all add: two_pages_facts(1) MAX_JOB_PAGES_def i64_max_def\<close>)
  from this [OF two_pages_facts(2)] this [OF two_pages_facts(3)] show ?thesis by (simp add: two_pages_facts(4))
qed

end
