(* ===== verification/Http.thy ===== *)
theory Http
  imports Types
begin

text \<open>
  What the components read of an HTTP request: its method, its headers and
  the decoding of percent escapes (\<open>percent_decode\<close> of \<open>src/src/api/auth.rs\<close>).  A string is its sequence of
  bytes in UTF-8.
\<close>

datatype http_method = GET | HEAD | PUT | POST | DELETE | OPTIONS | PATCH | TRACE | CONNECT | Extension string

section \<open>Headers\<close>

text \<open>The headers of a request in their order; a name may occur on several lines, and \<open>get\<close> returns the
  first.  A value that is not visible ASCII has no string.\<close>

type_synonym header_map = "(string \<times> string) list"

definition visible_ascii :: "char \<Rightarrow> bool" where
  "visible_ascii c \<longleftrightarrow> (let n = of_char c :: int in 32 \<le> n \<and> n < 127 \<or> n = 9)"

definition header_str :: "header_map \<Rightarrow> string \<Rightarrow> string option" where
  "header_str headers name = (case map_of headers name of
     None \<Rightarrow> None
   | Some v \<Rightarrow> if list_all visible_ascii v then Some v else None)"

definition blank :: "char \<Rightarrow> bool" where
  "blank c \<longleftrightarrow> (let n = of_char c :: int in n = 32 \<or> 9 \<le> n \<and> n \<le> 13)"

definition trim_blanks :: "string \<Rightarrow> string" where
  "trim_blanks s = rev (dropWhile blank (rev (dropWhile blank s)))"

section \<open>Percent escapes\<close>

definition byte_code :: "char \<Rightarrow> int" where
  "byte_code c = of_char c"

definition continues :: "char \<Rightarrow> bool" where
  "continues c \<longleftrightarrow> 128 \<le> byte_code c \<and> byte_code c \<le> 191"

text \<open>Whether the first two bytes begin a character of three or of four bytes.\<close>

definition begins_three :: "int \<Rightarrow> int \<Rightarrow> bool" where
  "begins_three a b \<longleftrightarrow> a = 224 \<and> 160 \<le> b \<and> b \<le> 191 \<or> 225 \<le> a \<and> a \<le> 236 \<and> 128 \<le> b \<and> b \<le> 191
     \<or> a = 237 \<and> 128 \<le> b \<and> b \<le> 159 \<or> 238 \<le> a \<and> a \<le> 239 \<and> 128 \<le> b \<and> b \<le> 191"

definition begins_four :: "int \<Rightarrow> int \<Rightarrow> bool" where
  "begins_four a b \<longleftrightarrow> a = 240 \<and> 144 \<le> b \<and> b \<le> 191 \<or> 241 \<le> a \<and> a \<le> 243 \<and> 128 \<le> b \<and> b \<le> 191
     \<or> a = 244 \<and> 128 \<le> b \<and> b \<le> 143"

text \<open>The next bytes: how many they are and whether they are a character.\<close>

definition chunk_two :: "string \<Rightarrow> nat \<times> bool" where
  "chunk_two s = (case s of x # _ \<Rightarrow> if continues x then (2, True) else (1, False) | [] \<Rightarrow> (1, False))"

definition chunk_three :: "int \<Rightarrow> string \<Rightarrow> nat \<times> bool" where
  "chunk_three a s = (case s of
     [] \<Rightarrow> (1, False)
   | x # s \<Rightarrow> if \<not> begins_three a (byte_code x) then (1, False)
              else (case s of y # _ \<Rightarrow> if continues y then (3, True) else (2, False) | [] \<Rightarrow> (2, False)))"

definition chunk_four :: "int \<Rightarrow> string \<Rightarrow> nat \<times> bool" where
  "chunk_four a s = (case s of
     [] \<Rightarrow> (1, False)
   | x # s \<Rightarrow> if \<not> begins_four a (byte_code x) then (1, False)
              else (case s of
                [] \<Rightarrow> (2, False)
              | y # s \<Rightarrow> if \<not> continues y then (2, False)
                         else (case s of z # _ \<Rightarrow> if continues z then (4, True) else (3, False) | [] \<Rightarrow> (3, False))))"

definition utf8_chunk :: "char \<Rightarrow> string \<Rightarrow> nat \<times> bool" where
  "utf8_chunk c s =
     (let a = byte_code c in
      if a < 128 then (1, True)
      else if 194 \<le> a \<and> a \<le> 223 then chunk_two s
      else if 224 \<le> a \<and> a \<le> 239 then chunk_three a s
      else if 240 \<le> a \<and> a \<le> 244 then chunk_four a s
      else (1, False))"

lemma utf8_chunk_pos: "0 < fst (utf8_chunk c s)"
proof -
  have "0 < fst (chunk_two s)" by (simp add: chunk_two_def split: list.split)
  moreover have "0 < fst (chunk_three a s)" for a by (simp add: chunk_three_def split: list.split)
  moreover have "0 < fst (chunk_four a s)" for a by (simp add: chunk_four_def split: list.split)
  ultimately show ?thesis by (simp add: utf8_chunk_def Let_def)
qed

definition replacement :: string where
  "replacement = [char_of (239 :: nat), char_of (191 :: nat), char_of (189 :: nat)]"

function from_utf8_lossy :: "string \<Rightarrow> string" where
  "from_utf8_lossy [] = []"
| "from_utf8_lossy (c # s) = (case utf8_chunk c s of (n, ok) \<Rightarrow>
     (if ok then take n (c # s) else replacement) @ from_utf8_lossy (drop n (c # s)))"
  by pat_completeness auto
termination
proof (relation "measure length")
  fix c s n ok
  assume "(n, ok) = utf8_chunk c s"
  then have "0 < n" using utf8_chunk_pos [of c s] by (metis fst_conv)
  then show "(drop n (c # s), c # s) \<in> measure length" by simp
qed simp

definition hex_of :: "char \<Rightarrow> int option" where
  "hex_of c = (let n = of_char c in
     if 48 \<le> n \<and> n \<le> 57 then Some (n - 48)
     else if 97 \<le> n \<and> n \<le> 102 then Some (n - 87)
     else if 65 \<le> n \<and> n \<le> 70 then Some (n - 55) else None)"

text \<open>\<open>u8::from_str_radix\<close> of two bytes; a leading plus sign is accepted.\<close>

definition hex_byte :: "char \<Rightarrow> char \<Rightarrow> char option" where
  "hex_byte x y = (case (if x = CHR ''+'' then Some 0 else hex_of x, hex_of y) of
     (Some a, Some b) \<Rightarrow> Some (char_of (nat (a * 16 + b))) | _ \<Rightarrow> None)"

text \<open>Slicing a string inside of a character panics: \<open>None\<close>.\<close>

fun percent_bytes :: "string \<Rightarrow> string option" where
  "percent_bytes [] = Some []"
| "percent_bytes (c # x # y # s) =
     (if c = CHR ''%''
      then (if s \<noteq> [] \<and> continues (hd s) then None
            else case hex_byte x y of
              Some b \<Rightarrow> map_option ((#) b) (percent_bytes s)
            | None \<Rightarrow> map_option ((#) c) (percent_bytes (x # y # s)))
      else map_option ((#) c) (percent_bytes (x # y # s)))"
| "percent_bytes (c # s) = map_option ((#) c) (percent_bytes s)"

definition percent_decode :: "string \<Rightarrow> string option" where
  "percent_decode s = map_option from_utf8_lossy (percent_bytes s)"

text \<open>Escapes are decoded and other characters kept; the standard parser takes a sign for a digit, and an
  escape cut short by a longer character panics.\<close>

lemma percent_decode_examples:
  "percent_decode ''a%2Fb%zz%'' = Some ''a/b%zz%''"
  "percent_decode ''%+a'' = Some [CHR 0x0A]"
  "percent_decode (''%a'' @ [CHR 0xC3, CHR 0xA9]) = None"
  by code_simp+

lemma percent_bytes_plain: "CHR ''%'' \<notin> set s \<Longrightarrow> percent_bytes s = Some s"
  by (induction s rule: percent_bytes.induct) auto

end
