(* ===== verification/Gate.thy ===== *)
theory Gate
  imports Maintenance Http
begin

text \<open>
  The write gate of maintenance jobs (\<open>src/src/maintenance/gate.rs\<close>), with the worker that drains the
  writes in flight before it rewrites a bucket (\<open>run_job\<close> and \<open>drain_inflight_writes\<close> of
  \<open>src/src/maintenance/worker.rs\<close>).

  Requests and worker are processes that interleave; every access to the busy set or to a counter is one
  step, and steps are atomic, as the lock-free set and the sharded map make them.  The counter of a
  bucket is decremented in one step and its entry removed in another, as in \<open>write_finished\<close>.
\<close>

section \<open>The gate\<close>

record gate =
  busy :: "string set"
  inflight :: "string \<rightharpoonup> int"

definition new_gate :: gate where
  "new_gate = \<lparr>busy = {}, inflight = Map.empty\<rparr>"

definition is_busy :: "string \<Rightarrow> gate \<Rightarrow> bool" where
  "is_busy bucket g \<longleftrightarrow> to_ascii_lowercase bucket \<in> busy g"

definition set_busy :: "string \<Rightarrow> gate \<Rightarrow> gate" where
  "set_busy bucket g = g\<lparr>busy := insert (to_ascii_lowercase bucket) (busy g)\<rparr>"

definition clear_gate :: "string \<Rightarrow> gate \<Rightarrow> gate" where
  "clear_gate bucket g = g\<lparr>busy := busy g - {to_ascii_lowercase bucket}\<rparr>"

definition inflight_writes :: "string \<Rightarrow> gate \<Rightarrow> int" where
  "inflight_writes bucket g = unwrap_or (inflight g (to_ascii_lowercase bucket)) 0"

definition write_started :: "string \<Rightarrow> gate \<Rightarrow> gate" where
  "write_started bucket g = g\<lparr>inflight := (inflight g)(to_ascii_lowercase bucket \<mapsto> inflight_writes bucket g + 1)\<rparr>"

definition write_decremented :: "string \<Rightarrow> gate \<Rightarrow> gate" where
  "write_decremented bucket g = (case inflight g (to_ascii_lowercase bucket) of
     None \<Rightarrow> g
   | Some v \<Rightarrow> g\<lparr>inflight := (inflight g)(to_ascii_lowercase bucket \<mapsto> v - 1)\<rparr>)"

definition entry_removed :: "string \<Rightarrow> gate \<Rightarrow> gate" where
  "entry_removed bucket g = (case inflight g (to_ascii_lowercase bucket) of
     None \<Rightarrow> g
   | Some v \<Rightarrow> if v \<le> 0 then g\<lparr>inflight := (inflight g)(to_ascii_lowercase bucket := None)\<rparr> else g)"

definition write_finished :: "string \<Rightarrow> gate \<Rightarrow> gate" where
  "write_finished bucket g = entry_removed bucket (write_decremented bucket g)"

definition bucket_from_path :: "string \<Rightarrow> string option" where
  "bucket_from_path path =
     (let trimmed = trim_start_matches (CHR ''/'') path
      in if trimmed = [] then None
         else let bucket = hd (split_on (CHR ''/'') trimmed)
              in if bucket = [] then None else Some (to_ascii_lowercase bucket))"

definition is_write_method :: "http_method \<Rightarrow> bool" where
  "is_write_method m \<longleftrightarrow> m = PUT \<or> m = POST \<or> m = DELETE"

section \<open>Requests and the worker\<close>

datatype request_stage = Registered | Served | Refused | Cleaning | Gone

datatype worker_stage = Waiting | Draining string | Rewriting string

record gate_system =
  the_gate :: gate
  requests :: "(string \<times> request_stage) list"
  worker :: worker_stage

definition the_worker_is_on :: "worker_stage \<Rightarrow> string \<Rightarrow> bool" where
  "the_worker_is_on w bucket = (case w of
     Waiting \<Rightarrow> False
   | Draining b \<Rightarrow> to_ascii_lowercase b = to_ascii_lowercase bucket
   | Rewriting b \<Rightarrow> to_ascii_lowercase b = to_ascii_lowercase bucket)"

text \<open>
  A request registers itself first and looks at the busy set afterwards.  Its guard is dropped when it is
  done, refused or cancelled, at any moment.  Jobs other than the running one may be created and
  cancelled at any moment, and close and open the gate of their own buckets.
\<close>

inductive gate_step :: "gate_system \<Rightarrow> gate_system \<Rightarrow> bool" where
  arrives: "is_write_method meth \<Longrightarrow> bucket_from_path path = Some b \<Longrightarrow>
    gate_step s (s\<lparr>the_gate := write_started b (the_gate s), requests := requests s @ [(b, Registered)]\<rparr>)"
| admitted: "i < length (requests s) \<Longrightarrow> requests s ! i = (b, Registered) \<Longrightarrow> \<not> is_busy b (the_gate s) \<Longrightarrow>
    gate_step s (s\<lparr>requests := (requests s)[i := (b, Served)]\<rparr>)"
| refused: "i < length (requests s) \<Longrightarrow> requests s ! i = (b, Registered) \<Longrightarrow> is_busy b (the_gate s) \<Longrightarrow>
    gate_step s (s\<lparr>requests := (requests s)[i := (b, Refused)]\<rparr>)"
| dropped: "i < length (requests s) \<Longrightarrow> requests s ! i = (b, r) \<Longrightarrow> r \<in> {Registered, Served, Refused} \<Longrightarrow>
    gate_step s (s\<lparr>the_gate := write_decremented b (the_gate s), requests := (requests s)[i := (b, Cleaning)]\<rparr>)"
| cleaned: "i < length (requests s) \<Longrightarrow> requests s ! i = (b, Cleaning) \<Longrightarrow>
    gate_step s (s\<lparr>the_gate := entry_removed b (the_gate s), requests := (requests s)[i := (b, Gone)]\<rparr>)"
| job_created: "gate_step s (s\<lparr>the_gate := set_busy b (the_gate s)\<rparr>)"
| job_cancelled: "\<not> the_worker_is_on (worker s) b \<Longrightarrow> gate_step s (s\<lparr>the_gate := clear_gate b (the_gate s)\<rparr>)"
| worker_arms: "worker s = Waiting \<Longrightarrow>
    gate_step s (s\<lparr>the_gate := set_busy b (the_gate s), worker := Draining b\<rparr>)"
| drained: "worker s = Draining b \<Longrightarrow> \<not> inflight_writes b (the_gate s) > 0 \<Longrightarrow>
    gate_step s (s\<lparr>worker := Rewriting b\<rparr>)"
| drain_timed_out: "worker s = Draining b \<Longrightarrow>
    gate_step s (s\<lparr>the_gate := clear_gate b (the_gate s), worker := Waiting\<rparr>)"
| job_finished: "worker s = Rewriting b \<Longrightarrow>
    gate_step s (s\<lparr>the_gate := clear_gate b (the_gate s), worker := Waiting\<rparr>)"

definition gate_start :: gate_system where
  "gate_start = \<lparr>the_gate = new_gate, requests = [], worker = Waiting\<rparr>"

section \<open>The invariant\<close>

definition counted :: "request_stage \<Rightarrow> bool" where
  "counted r \<longleftrightarrow> r \<in> {Registered, Served, Refused}"

definition open_writes :: "string \<Rightarrow> (string \<times> request_stage) list \<Rightarrow> nat set" where
  "open_writes b rs = {i. i < length rs \<and> to_ascii_lowercase (fst (rs ! i)) = to_ascii_lowercase b \<and> counted (snd (rs ! i))}"

definition gate_ok :: "gate_system \<Rightarrow> bool" where
  "gate_ok s \<longleftrightarrow> (\<forall>b. inflight_writes b (the_gate s) = int (card (open_writes b (requests s))))
     \<and> (\<forall>b. the_worker_is_on (worker s) b \<longrightarrow> is_busy b (the_gate s))
     \<and> (\<forall>b i c. worker s = Rewriting b \<longrightarrow> i < length (requests s) \<longrightarrow> requests s ! i = (c, Served)
          \<longrightarrow> to_ascii_lowercase c \<noteq> to_ascii_lowercase b)"

lemma gate_okI:
  assumes "\<And>b. inflight_writes b (the_gate s) = int (card (open_writes b (requests s)))"
    and "\<And>b. the_worker_is_on (worker s) b \<Longrightarrow> is_busy b (the_gate s)"
    and "\<And>b i c. worker s = Rewriting b \<Longrightarrow> i < length (requests s) \<Longrightarrow> requests s ! i = (c, Served)
      \<Longrightarrow> to_ascii_lowercase c \<noteq> to_ascii_lowercase b"
  shows "gate_ok s"
  using assms by (simp add: gate_ok_def)

lemma gate_okD:
  assumes "gate_ok s"
  shows "inflight_writes b (the_gate s) = int (card (open_writes b (requests s)))"
    and "the_worker_is_on (worker s) b \<Longrightarrow> is_busy b (the_gate s)"
    and "worker s = Rewriting b \<Longrightarrow> i < length (requests s) \<Longrightarrow> requests s ! i = (c, Served)
      \<Longrightarrow> to_ascii_lowercase c \<noteq> to_ascii_lowercase b"
  using assms by (simp_all add: gate_ok_def)

lemma lower_idem [simp]: "to_ascii_lowercase (to_ascii_lowercase s) = to_ascii_lowercase s"
proof -
  have "ascii_lower_char (ascii_lower_char c) = ascii_lower_char c" for c
    by (cases c) (auto simp: ascii_lower_char_def less_eq_char_def split: if_splits)
  then show ?thesis by (simp add: to_ascii_lowercase_def)
qed

lemma finite_open_writes [simp]: "finite (open_writes b rs)"
  by (simp add: open_writes_def)

lemma open_writes_append:
  "open_writes b (rs @ [(c, Registered)])
    = (if to_ascii_lowercase c = to_ascii_lowercase b then insert (length rs) (open_writes b rs) else open_writes b rs)"
  by (auto simp: open_writes_def counted_def nth_append less_Suc_eq)

lemma open_writes_same:
  assumes "i < length rs" "rs ! i = (c, r)" "counted r = counted r'"
  shows "open_writes b (rs[i := (c, r')]) = open_writes b rs"
  using assms by (auto simp: open_writes_def nth_list_update)

lemma open_writes_leave:
  assumes "i < length rs" "rs ! i = (c, r)" "counted r" "\<not> counted r'"
  shows "open_writes b (rs[i := (c, r')])
    = (if to_ascii_lowercase c = to_ascii_lowercase b then open_writes b rs - {i} else open_writes b rs)"
    and "i \<in> open_writes c rs"
  using assms by (auto simp: open_writes_def nth_list_update)

lemma inflight_started:
  "inflight_writes c (write_started b g) = inflight_writes c g + (if to_ascii_lowercase b = to_ascii_lowercase c then 1 else 0)"
  by (auto simp: inflight_writes_def write_started_def unwrap_or_def split: option.splits)

lemma inflight_decremented:
  assumes "inflight_writes b g > 0"
  shows "inflight_writes c (write_decremented b g) = inflight_writes c g - (if to_ascii_lowercase b = to_ascii_lowercase c then 1 else 0)"
  using assms by (auto simp: inflight_writes_def write_decremented_def unwrap_or_def split: option.splits)

lemma inflight_removed:
  assumes "\<And>b. 0 \<le> inflight_writes b g"
  shows "inflight_writes c (entry_removed b g) = inflight_writes c g"
  using assms [of b] by (auto simp: inflight_writes_def entry_removed_def unwrap_or_def split: option.splits)

lemma inflight_busy [simp]:
  "inflight_writes b (set_busy c g) = inflight_writes b g" "inflight_writes b (clear_gate c g) = inflight_writes b g"
  by (simp_all add: inflight_writes_def set_busy_def clear_gate_def)

lemma busy_updates [simp]:
  "is_busy b (write_started c g) = is_busy b g" "is_busy b (write_decremented c g) = is_busy b g"
  "is_busy b (entry_removed c g) = is_busy b g"
  "is_busy b (set_busy c g) \<longleftrightarrow> to_ascii_lowercase b = to_ascii_lowercase c \<or> is_busy b g"
  "is_busy b (clear_gate c g) \<longleftrightarrow> to_ascii_lowercase b \<noteq> to_ascii_lowercase c \<and> is_busy b g"
  by (auto simp: is_busy_def write_started_def write_decremented_def entry_removed_def set_busy_def clear_gate_def split: option.splits)

lemma serving_update:
  assumes "gate_ok s" "worker s = Rewriting w" "j < length (requests s)" "(requests s)[i := (b, r)] ! j = (c, Served)" "r \<noteq> Served"
  shows "to_ascii_lowercase c \<noteq> to_ascii_lowercase w"
  using assms gate_okD(3) [OF assms(1-3)] by (cases "i = j") auto

lemma gate_ok_start: "gate_ok gate_start"
  by (simp add: gate_ok_def gate_start_def new_gate_def inflight_writes_def open_writes_def unwrap_or_def the_worker_is_on_def)

lemma int_card_remove: "finite A \<Longrightarrow> i \<in> A \<Longrightarrow> int (card (A - {i})) = int (card A) - 1"
  by (metis card_Suc_Diff1 of_nat_Suc add_diff_cancel_left')

lemma arrives_ok:
  assumes "gate_ok s"
  shows "gate_ok (s\<lparr>the_gate := write_started b (the_gate s), requests := requests s @ [(b, Registered)]\<rparr>)"
proof (rule gate_okI, goal_cases)
  case (1 c)
  then show ?case using gate_okD(1) [OF assms, of c]
    by (auto simp: inflight_started open_writes_append) (simp add: open_writes_def)
next
  case (2 c)
  with gate_okD(2) [OF assms] show ?case by simp
next
  case (3 w i c)
  with gate_okD(3) [OF assms, of w i c] show ?case by (auto simp: nth_append split: if_splits)
qed

lemma admitted_ok:
  assumes "gate_ok s" "i < length (requests s)" "requests s ! i = (b, Registered)" "\<not> is_busy b (the_gate s)"
  shows "gate_ok (s\<lparr>requests := (requests s)[i := (b, Served)]\<rparr>)"
proof (rule gate_okI, goal_cases)
  case (1 c)
  with gate_okD(1) [OF assms(1), of c] assms(2,3) show ?case by (simp add: open_writes_same counted_def)
next
  case (2 c)
  with gate_okD(2) [OF assms(1)] show ?case by simp
next
  case (3 w j c)
  have "is_busy w (the_gate s)" using gate_okD(2) [OF assms(1), of w] 3(1) by (simp add: the_worker_is_on_def)
  with 3 gate_okD(3) [OF assms(1), of w j c] assms(2-4) show ?case by (cases "i = j") (auto simp: is_busy_def)
qed

text \<open>A request that moves on without being served.\<close>

lemma unserved_ok:
  assumes "gate_ok s" "\<And>c. is_busy c g = is_busy c (the_gate s)" "r \<noteq> Served"
    and "\<And>c. inflight_writes c g = int (card (open_writes c ((requests s)[i := (b, r)])))"
  shows "gate_ok (s\<lparr>the_gate := g, requests := (requests s)[i := (b, r)]\<rparr>)"
  by (rule gate_okI) (use assms(2,4) gate_okD(2) [OF assms(1)] serving_update [OF assms(1) _ _ _ assms(3)] in auto)

lemma dropped_count:
  assumes "gate_ok s" "i < length (requests s)" "requests s ! i = (b, r)" "counted r"
  shows "inflight_writes c (write_decremented b (the_gate s)) = int (card (open_writes c ((requests s)[i := (b, Cleaning)])))"
proof -
  have "\<not> counted Cleaning" by (simp add: counted_def)
  note l = open_writes_leave [OF assms(2-4) this]
  have "i \<in> open_writes c (requests s)" if "to_ascii_lowercase b = to_ascii_lowercase c"
    using l(2) that by (simp add: open_writes_def)
  moreover have "inflight_writes b (the_gate s) > 0"
    using gate_okD(1) [OF assms(1), of b] l(2) by (auto simp: card_gt_0_iff)
  ultimately show ?thesis
    using gate_okD(1) [OF assms(1), of c] by (cases "to_ascii_lowercase b = to_ascii_lowercase c")
      (simp_all add: inflight_decremented l(1) int_card_remove del: card_Diff_singleton card_Diff_insert)
qed

lemma drained_ok:
  assumes "gate_ok s" "worker s = Draining b" "\<not> inflight_writes b (the_gate s) > 0"
  shows "gate_ok (s\<lparr>worker := Rewriting b\<rparr>)"
proof -
  have none: "open_writes b (requests s) = {}" using assms(3) gate_okD(1) [OF assms(1), of b] by simp
  have "to_ascii_lowercase c \<noteq> to_ascii_lowercase b" if "i < length (requests s)" "requests s ! i = (c, Served)" for i c
    using none that by (force simp: open_writes_def counted_def)
  then show ?thesis
    by (intro gate_okI) (use gate_okD(1,2) [OF assms(1)] assms(2) in \<open>auto simp: the_worker_is_on_def\<close>)
qed

lemma gate_step_ok:
  assumes "gate_step s t" "gate_ok s"
  shows "gate_ok t"
  using assms
proof (induction rule: gate_step.induct)
  case (refused i s b)
  have "inflight_writes c (the_gate s) = int (card (open_writes c ((requests s)[i := (b, Refused)])))" for c
    using gate_okD(1) [OF refused(4), of c] refused(1,2) by (simp add: open_writes_same counted_def)
  from unserved_ok [OF refused(4) refl _ this] show ?case by simp
next
  case (dropped i s b r)
  then have "counted r" by (simp add: counted_def)
  from unserved_ok [OF dropped(4) _ _ dropped_count [OF dropped(4,1,2) this]] show ?case by simp
next
  case (cleaned i s b)
  have "inflight_writes c (entry_removed b (the_gate s)) = int (card (open_writes c ((requests s)[i := (b, Gone)])))" for c
    using gate_okD(1) [OF cleaned(3)] cleaned(1,2) by (simp add: inflight_removed open_writes_same counted_def)
  from unserved_ok [OF cleaned(3) _ _ this] show ?case by simp
next
  case (job_cancelled s b)
  have "the_worker_is_on (worker s) c \<Longrightarrow> to_ascii_lowercase c \<noteq> to_ascii_lowercase b" for c
    using job_cancelled(1) by (auto simp: the_worker_is_on_def split: worker_stage.splits)
  then show ?case by (intro gate_okI) (use gate_okD [OF job_cancelled(2)] in auto)
qed (blast intro: arrives_ok admitted_ok drained_ok,
     blast intro: arrives_ok admitted_ok drained_ok,
     (rule gate_okI; use gate_okD in \<open>fastforce simp: the_worker_is_on_def\<close>),
     (rule gate_okI; use gate_okD in \<open>fastforce simp: the_worker_is_on_def\<close>),
     blast intro: arrives_ok admitted_ok drained_ok,
     (rule gate_okI; use gate_okD in \<open>fastforce simp: the_worker_is_on_def\<close>),
     (rule gate_okI; use gate_okD in \<open>fastforce simp: the_worker_is_on_def\<close>))

lemma gate_reachable_ok: "gate_step\<^sup>*\<^sup>* gate_start s \<Longrightarrow> gate_ok s"
  by (induction rule: rtranclp_induct) (auto intro: gate_ok_start gate_step_ok)


definition sample_rewriting :: gate_system where
  "sample_rewriting = \<lparr>the_gate = \<lparr>busy = {''data''}, inflight = [''other'' \<mapsto> 1]\<rparr>,
     requests = [(''other'', Served)], worker = Rewriting ''Data''\<rparr>"

lemma lower_samples:
  "to_ascii_lowercase ''Data'' = ''data''" "to_ascii_lowercase ''data'' = ''data''" "to_ascii_lowercase ''other'' = ''other''"
  "bucket_from_path ''/Other/k'' = Some ''other''"
  by code_simp+

lemma sample_reachable: "gate_step\<^sup>*\<^sup>* gate_start sample_rewriting"
proof -
  let ?g = "\<lparr>busy = {}, inflight = [''other'' \<mapsto> 1]\<rparr>" and ?h = "\<lparr>busy = {''data''}, inflight = [''other'' \<mapsto> 1]\<rparr>"
  have 1: "gate_step gate_start \<lparr>the_gate = ?g, requests = [(''other'', Registered)], worker = Waiting\<rparr>"
    using gate_step.arrives [of PUT "''/Other/k''" "''other''" gate_start]
    by (simp add: is_write_method_def lower_samples gate_start_def new_gate_def write_started_def inflight_writes_def unwrap_or_def)
  have 2: "gate_step \<lparr>the_gate = ?g, requests = [(''other'', Registered)], worker = Waiting\<rparr>
      \<lparr>the_gate = ?g, requests = [(''other'', Served)], worker = Waiting\<rparr>"
    using gate_step.admitted [of 0 "\<lparr>the_gate = ?g, requests = [(''other'', Registered)], worker = Waiting\<rparr>"]
    by (simp add: is_busy_def)
  have 3: "gate_step \<lparr>the_gate = ?g, requests = [(''other'', Served)], worker = Waiting\<rparr>
      \<lparr>the_gate = ?h, requests = [(''other'', Served)], worker = Draining ''Data''\<rparr>"
    using gate_step.worker_arms [of "\<lparr>the_gate = ?g, requests = [(''other'', Served)], worker = Waiting\<rparr>" "''Data''"]
    by (simp add: set_busy_def lower_samples)
  have 4: "gate_step \<lparr>the_gate = ?h, requests = [(''other'', Served)], worker = Draining ''Data''\<rparr> sample_rewriting"
    using gate_step.drained [of "\<lparr>the_gate = ?h, requests = [(''other'', Served)], worker = Draining ''Data''\<rparr>" "''Data''"]
    by (simp add: inflight_writes_def unwrap_or_def lower_samples sample_rewriting_def)
  from 1 2 3 4 show ?thesis by (meson rtranclp.rtrancl_into_rtrancl r_into_rtranclp)
qed


section \<open>Two races outside the gate\<close>

text \<open>
  The handler that creates a job commits it, gives up the lock of the database, and closes the gate
  afterwards (\<open>src/src/api/admin/maintenance.rs\<close>).  A worker that claims the job in between, finds
  nothing to do, settles it and opens the gate is overtaken by the handler: the gate stays closed although
  the bucket has no job, and every write is refused until the process restarts.
\<close>

lemma late_arming_leaves_the_gate_closed:
  "let (_, created) = maintenance_create_job ''reencrypt'' ''b'' ''counting'' None ''admin'' 1 empty_maintenance_db;
       (_, claimed) = maintenance_claim_next_job ''w'' 2 60 created;
       settled = maintenance_finish 1 Completed None 3 claimed;
       by_worker = clear_gate ''b'' (set_busy ''b'' new_gate);
       by_handler = set_busy ''b'' by_worker
   in is_busy ''b'' by_handler \<and> maintenance_active_job_for_bucket ''b'' settled = None"
  by (simp add: job_eval is_busy_def set_busy_def maintenance_finish_def update_job_def active_status_def lease_expiry_def)

text \<open>
  The handler that cancels a queued job opens the gate after it has given up the lock as well.  When a
  second job for the bucket was created and has begun to rewrite by then, the gate opens under it and a
  write is served while the bucket is rewritten.
\<close>

lemma late_cancel_opens_the_gate:
  assumes "worker s = Rewriting b" "bucket_from_path path = Some b" "the_gate t = clear_gate b (the_gate s)" "worker t = worker s"
  shows "\<exists>u v. gate_step t u \<and> gate_step u v \<and> (b, Served) \<in> set (requests v) \<and> worker v = Rewriting b"
proof -
  let ?u = "t\<lparr>the_gate := write_started b (the_gate t), requests := requests t @ [(b, Registered)]\<rparr>"
  let ?v = "?u\<lparr>requests := (requests ?u)[length (requests t) := (b, Served)]\<rparr>"
  have "gate_step t ?u" using gate_step.arrives [of PUT path b t] assms(2) by (simp add: is_write_method_def)
  moreover have "gate_step ?u ?v"
    using gate_step.admitted [of "length (requests t)" ?u b] assms(3) by simp
  ultimately show ?thesis using assms(1,4) by (intro exI [of _ ?u] exI [of _ ?v]) simp
qed

end
