(* ===== verification/Encryption.thy ===== *)
theory Encryption
  imports Storage
begin

text \<open>
  Encryption at rest (\<open>src/src/storage/encrypting.rs\<close>): the chunked wire format with its writer and its
  streaming reader, the choice of the key, and the operations of the wrapping backend that encrypt or
  decrypt, over the filesystem backend of \<open>Storage\<close>.

  The cipher is a parameter: \<open>aead_encrypt\<close> and \<open>aead_decrypt\<close> of \<open>crypto\<close> stand for AES-256-GCM, and
  \<open>aead_ok\<close> states what its interface documents.  So are the source of random initialisation vectors
  and the way in which a backend cuts the bytes of a file into the pieces of a stream.  A stream is
  the list of the pieces that it yields; a piece may be an error.
\<close>

unbundle bit_operations_syntax

section \<open>Parameters and constants\<close>

type_synonym encryption_key = bytes

record crypto =
  aead_encrypt :: "encryption_key \<Rightarrow> bytes \<Rightarrow> bytes \<Rightarrow> bytes \<Rightarrow> bytes option"
  aead_decrypt :: "encryption_key \<Rightarrow> bytes \<Rightarrow> bytes \<Rightarrow> bytes \<Rightarrow> bytes option"
  fresh_iv :: "nat \<Rightarrow> bytes"
  pieces :: "bytes \<Rightarrow> bytes list"

definition IV_LEN :: nat where "IV_LEN = 12"
definition GCM_TAG_LEN :: nat where "GCM_TAG_LEN = 16"

text \<open>What the cipher documents: messages of up to 64 GiB are encrypted under a nonce of 12 bytes, the
  tag adds 16 bytes, and decryption with the same key, nonce and associated data inverts it.\<close>

definition aead_ok :: "crypto \<Rightarrow> bool" where
  "aead_ok cry \<longleftrightarrow> (\<forall>k n a m. length n = IV_LEN \<longrightarrow> length m \<le> 2 ^ 36 - 32 \<longrightarrow>
     (\<exists>c. aead_encrypt cry k n a m = Some c \<and> length c = length m + GCM_TAG_LEN \<and> aead_decrypt cry k n a c = Some m))
   \<and> (\<forall>i. length (fresh_iv cry i) = IV_LEN) \<and> (\<forall>d. concat (pieces cry d) = d)"

definition ENCRYPTION_MARKER_KEY :: string where "ENCRYPTION_MARKER_KEY = ''dg-encrypted''"
definition ENCRYPTION_MARKER_VALUE :: string where "ENCRYPTION_MARKER_VALUE = ''aes-256-gcm-v1''"
definition CHUNK_MARKER_VALUE :: string where "CHUNK_MARKER_VALUE = ''aes-256-gcm-chunked-v1''"
definition ENCRYPTION_KEY_ID_KEY :: string where "ENCRYPTION_KEY_ID_KEY = ''dg-encryption-key-id''"

definition strip_encryption_markers :: "(string \<rightharpoonup> string) \<Rightarrow> (string \<rightharpoonup> string)" where
  "strip_encryption_markers um = um(ENCRYPTION_MARKER_KEY := None, ENCRYPTION_KEY_ID_KEY := None)"

definition CHUNK_MAGIC :: bytes where "CHUNK_MAGIC = [68, 71, 69, 49]"
definition CHUNK_PLAINTEXT_SIZE :: nat where "CHUNK_PLAINTEXT_SIZE = 65536"
definition CHUNK_FRAME_LEN_FIELD :: nat where "CHUNK_FRAME_LEN_FIELD = 4"
definition CHUNK_HEADER_LEN :: nat where "CHUNK_HEADER_LEN = 16"
definition CHUNK_FRAME_WIRE_LEN :: nat where
  "CHUNK_FRAME_WIRE_LEN = CHUNK_FRAME_LEN_FIELD + CHUNK_PLAINTEXT_SIZE + GCM_TAG_LEN"
definition CHUNK_MAX_WIRE_CIPHERTEXT :: nat where
  "CHUNK_MAX_WIRE_CIPHERTEXT = CHUNK_PLAINTEXT_SIZE + GCM_TAG_LEN + 1024"

datatype write_mode = Encrypt | PassThrough

record encryption_config =
  enc_key :: "encryption_key option"
  key_id :: "string option"
  write_mode :: write_mode
  legacy_key :: "encryption_key option"
  legacy_key_id :: "string option"

section \<open>The whole-object format\<close>

definition encrypt :: "crypto \<Rightarrow> encryption_key \<Rightarrow> bytes \<Rightarrow> bytes \<Rightarrow> (storage_error, bytes) result" where
  "encrypt cry key iv plaintext = (case aead_encrypt cry key iv [] plaintext of
     None \<Rightarrow> Inl (Encryption ''encrypt'')
   | Some ct \<Rightarrow> Inr (iv @ ct))"

definition decrypt :: "crypto \<Rightarrow> encryption_key \<Rightarrow> bytes \<Rightarrow> (storage_error, bytes) result" where
  "decrypt cry key blob =
     (if length blob < IV_LEN + 16 then Inl (Encryption ''blob too short'')
      else case aead_decrypt cry key (take IV_LEN blob) [] (drop IV_LEN blob) of
        None \<Rightarrow> Inl (Encryption ''decryption failed (wrong key or tampered data)'')
      | Some pt \<Rightarrow> Inr pt)"

definition is_encrypted :: "file_metadata \<Rightarrow> bool" where
  "is_encrypted m \<longleftrightarrow> user_metadata m ENCRYPTION_MARKER_KEY \<in> {Some ENCRYPTION_MARKER_VALUE, Some CHUNK_MARKER_VALUE}"

definition is_chunked_encrypted :: "file_metadata \<Rightarrow> bool" where
  "is_chunked_encrypted m \<longleftrightarrow> user_metadata m ENCRYPTION_MARKER_KEY = Some CHUNK_MARKER_VALUE"

definition stamp_key_id :: "string option \<Rightarrow> (string \<rightharpoonup> string) \<Rightarrow> (string \<rightharpoonup> string)" where
  "stamp_key_id kid um = (case kid of None \<Rightarrow> um | Some k \<Rightarrow> um(ENCRYPTION_KEY_ID_KEY \<mapsto> k))"

definition mark_encrypted :: "string option \<Rightarrow> file_metadata \<Rightarrow> file_metadata" where
  "mark_encrypted kid m = m\<lparr>user_metadata :=
     stamp_key_id kid ((user_metadata m)(ENCRYPTION_MARKER_KEY \<mapsto> ENCRYPTION_MARKER_VALUE))\<rparr>"

definition mark_chunked_encrypted :: "string option \<Rightarrow> file_metadata \<Rightarrow> file_metadata" where
  "mark_chunked_encrypted kid m = m\<lparr>user_metadata :=
     stamp_key_id kid ((user_metadata m)(ENCRYPTION_MARKER_KEY \<mapsto> CHUNK_MARKER_VALUE))\<rparr>"

definition stamped_key_id :: "file_metadata \<Rightarrow> string option" where
  "stamped_key_id m = user_metadata m ENCRYPTION_KEY_ID_KEY"

section \<open>Chunks\<close>

definition to_le_bytes :: "nat \<Rightarrow> bytes" where
  "to_le_bytes n = [of_nat n, of_nat (n div 2 ^ 8), of_nat (n div 2 ^ 16), of_nat (n div 2 ^ 24)]"

definition to_be_bytes :: "nat \<Rightarrow> bytes" where
  "to_be_bytes n = rev (to_le_bytes n)"

definition from_le_bytes :: "bytes \<Rightarrow> nat" where
  "from_le_bytes bs = unat (bs ! 0) + 2 ^ 8 * unat (bs ! 1) + 2 ^ 16 * unat (bs ! 2) + 2 ^ 24 * unat (bs ! 3)"

definition checked_succ_u32 :: "nat \<Rightarrow> nat option" where
  "checked_succ_u32 i = (if i + 1 < 2 ^ 32 then Some (i + 1) else None)"

definition chunk_nonce :: "bytes \<Rightarrow> nat \<Rightarrow> bytes" where
  "chunk_nonce base_iv chunk_index =
     (let idx_be = to_be_bytes chunk_index
      in base_iv[8 := base_iv ! 8 XOR idx_be ! 0, 9 := base_iv ! 9 XOR idx_be ! 1,
                 10 := base_iv ! 10 XOR idx_be ! 2, 11 := base_iv ! 11 XOR idx_be ! 3])"

definition chunk_aad :: "nat \<Rightarrow> bool \<Rightarrow> bytes" where
  "chunk_aad chunk_index is_final =
     CHUNK_MAGIC @ to_le_bytes chunk_index @ [if is_final then 1 else 0] @ replicate 7 0"

definition encrypt_chunk ::
  "crypto \<Rightarrow> encryption_key \<Rightarrow> bytes \<Rightarrow> nat \<Rightarrow> bool \<Rightarrow> bytes \<Rightarrow> (storage_error, bytes) result" where
  "encrypt_chunk cry key base_iv chunk_index is_final plaintext =
     (if length plaintext > CHUNK_PLAINTEXT_SIZE then Inl (Encryption ''chunk plaintext too large'')
      else case aead_encrypt cry key (chunk_nonce base_iv chunk_index) (chunk_aad chunk_index is_final) plaintext of
        None \<Rightarrow> Inl (Encryption ''encrypt chunk'')
      | Some ct \<Rightarrow> if length ct < 2 ^ 32 then Inr (to_le_bytes (length ct) @ ct)
                   else Inl (Encryption ''chunk ciphertext length overflows u32''))"

definition decrypt_chunk ::
  "crypto \<Rightarrow> encryption_key \<Rightarrow> bytes \<Rightarrow> nat \<Rightarrow> bool \<Rightarrow> bytes \<Rightarrow> (storage_error, bytes) result" where
  "decrypt_chunk cry key base_iv chunk_index is_final ciphertext =
     (if length ciphertext < GCM_TAG_LEN then Inl (Encryption ''chunk ciphertext too short'')
      else case aead_decrypt cry key (chunk_nonce base_iv chunk_index) (chunk_aad chunk_index is_final) ciphertext of
        None \<Rightarrow> Inl (Encryption ''chunk decryption failed (wrong key, tampered, or reordered)'')
      | Some pt \<Rightarrow> Inr pt)"

record chunk_framer =
  framer_iv :: bytes
  framer_index :: nat
  pending :: "bytes option"
  started :: bool

definition new_framer :: "bytes \<Rightarrow> chunk_framer" where
  "new_framer base_iv = \<lparr>framer_iv = base_iv, framer_index = 0, pending = None, started = False\<rparr>"

definition push_window ::
  "crypto \<Rightarrow> encryption_key \<Rightarrow> bytes \<Rightarrow> chunk_framer \<Rightarrow> (storage_error, bytes option \<times> chunk_framer) result" where
  "push_window cry key window fr = (case pending fr of
     None \<Rightarrow> Inr (None, fr\<lparr>started := True, pending := Some window\<rparr>)
   | Some prev \<Rightarrow>
       (case encrypt_chunk cry key (framer_iv fr) (framer_index fr) False prev of
          Inl e \<Rightarrow> Inl e
        | Inr frame \<Rightarrow>
            (case checked_succ_u32 (framer_index fr) of
               None \<Rightarrow> Inl (Encryption ''chunk index overflow (object too large)'')
             | Some i \<Rightarrow> Inr (Some frame, fr\<lparr>started := True, framer_index := i, pending := Some window\<rparr>))))"

definition finish :: "crypto \<Rightarrow> encryption_key \<Rightarrow> chunk_framer \<Rightarrow> (storage_error, bytes) result" where
  "finish cry key fr = encrypt_chunk cry key (framer_iv fr) (framer_index fr) True (unwrap_or (pending fr) [])"

definition chunk_index_for_plaintext_offset :: "nat \<Rightarrow> nat \<times> nat" where
  "chunk_index_for_plaintext_offset pt_offset =
     ((pt_offset div CHUNK_PLAINTEXT_SIZE) mod 2 ^ 32, (pt_offset mod CHUNK_PLAINTEXT_SIZE) mod 2 ^ 32)"

definition wire_offset_of_chunk :: "nat \<Rightarrow> nat" where
  "wire_offset_of_chunk chunk_index = CHUNK_HEADER_LEN + chunk_index * CHUNK_FRAME_WIRE_LEN"

definition final_chunk_index_for_plaintext_size :: "nat \<Rightarrow> nat" where
  "final_chunk_index_for_plaintext_size plaintext_size =
     (if plaintext_size = 0 then 0 else ((plaintext_size - 1) div CHUNK_PLAINTEXT_SIZE) mod 2 ^ 32)"

section \<open>Writers\<close>

text \<open>Cutting the incoming pieces into windows and feeding them to the framer.  \<open>out\<close> holds the bytes
  framed so far; the subtraction that computes the space left would overflow for a window that is too
  long.\<close>

definition feed ::
  "crypto \<Rightarrow> encryption_key \<Rightarrow> bytes \<Rightarrow> chunk_framer \<times> bytes \<Rightarrow> (storage_error, chunk_framer \<times> bytes) result" where
  "feed cry key window st = (case st of (fr, out) \<Rightarrow>
     (case push_window cry key window fr of
        Inl e \<Rightarrow> Inl e
      | Inr (frame, fr) \<Rightarrow> Inr (fr, out @ unwrap_or frame [])))"

function slice_incoming ::
  "crypto \<Rightarrow> encryption_key \<Rightarrow> bytes \<Rightarrow> bytes \<Rightarrow> chunk_framer \<times> bytes
     \<Rightarrow> (storage_error, bytes \<times> chunk_framer \<times> bytes) result" where
  "slice_incoming cry key remaining pt_window st =
     (if remaining = [] then Inr (pt_window, st)
      else if length pt_window > CHUNK_PLAINTEXT_SIZE then Inl (Other ''attempt to subtract with overflow'')
      else let n = min (CHUNK_PLAINTEXT_SIZE - length pt_window) (length remaining);
               pt_window = pt_window @ take n remaining;
               remaining = drop n remaining
           in if length pt_window = CHUNK_PLAINTEXT_SIZE
              then (case feed cry key pt_window st of
                      Inl e \<Rightarrow> Inl e
                    | Inr st \<Rightarrow> slice_incoming cry key remaining [] st)
              else slice_incoming cry key remaining pt_window st)"
  by pat_completeness auto
termination
  by (relation "measure (\<lambda>(_, _, remaining, w, _). 2 * length remaining + (if length w = CHUNK_PLAINTEXT_SIZE then 1 else 0))")
    (auto simp: CHUNK_PLAINTEXT_SIZE_def min_def split: if_splits)

fun slice_all ::
  "crypto \<Rightarrow> encryption_key \<Rightarrow> bytes list \<Rightarrow> bytes \<Rightarrow> chunk_framer \<times> bytes
     \<Rightarrow> (storage_error, bytes \<times> chunk_framer \<times> bytes) result" where
  "slice_all cry key [] pt_window st = Inr (pt_window, st)"
| "slice_all cry key (c # cs) pt_window st = (case slice_incoming cry key c pt_window st of
     Inl e \<Rightarrow> Inl e
   | Inr (pt_window, st) \<Rightarrow> slice_all cry key cs pt_window st)"

definition finish_frames ::
  "crypto \<Rightarrow> encryption_key \<Rightarrow> chunk_framer \<times> bytes \<Rightarrow> (storage_error, bytes) result" where
  "finish_frames cry key st = (case st of (fr, out) \<Rightarrow>
     (case finish cry key fr of Inl e \<Rightarrow> Inl e | Inr frame \<Rightarrow> Inr (out @ frame)))"

definition encode_pieces :: "crypto \<Rightarrow> encryption_key \<Rightarrow> bytes \<Rightarrow> bytes list \<Rightarrow> (storage_error, bytes) result" where
  "encode_pieces cry key base_iv chunks =
     (case slice_all cry key chunks [] (new_framer base_iv, CHUNK_MAGIC @ base_iv) of
        Inl e \<Rightarrow> Inl e
      | Inr (pt_window, st) \<Rightarrow>
          (case (if pt_window \<noteq> [] then feed cry key pt_window st else Inr st) of
             Inl e \<Rightarrow> Inl e
           | Inr st \<Rightarrow> finish_frames cry key st))"

text \<open>The same from a file that is read window by window.\<close>

function feed_file ::
  "crypto \<Rightarrow> encryption_key \<Rightarrow> bytes \<Rightarrow> chunk_framer \<times> bytes \<Rightarrow> (storage_error, chunk_framer \<times> bytes) result" where
  "feed_file cry key d st =
     (let buf = take CHUNK_PLAINTEXT_SIZE d
      in if buf = [] then Inr st
         else case feed cry key buf st of
           Inl e \<Rightarrow> Inl e
         | Inr st \<Rightarrow> if length buf < CHUNK_PLAINTEXT_SIZE then Inr st
                     else feed_file cry key (drop CHUNK_PLAINTEXT_SIZE d) st)"
  by pat_completeness auto
termination
  by (relation "measure (\<lambda>(_, _, d, _). length d)") (auto simp: CHUNK_PLAINTEXT_SIZE_def)

definition encode_file :: "crypto \<Rightarrow> encryption_key \<Rightarrow> bytes \<Rightarrow> bytes \<Rightarrow> (storage_error, bytes) result" where
  "encode_file cry key base_iv d =
     (case feed_file cry key d (new_framer base_iv, CHUNK_MAGIC @ base_iv) of
        Inl e \<Rightarrow> Inl e
      | Inr st \<Rightarrow> finish_frames cry key st)"

section \<open>The streaming reader\<close>

type_synonym byte_stream = "(storage_error, bytes) result list"

fun try_collect :: "byte_stream \<Rightarrow> (storage_error, bytes) result" where
  "try_collect [] = Inr []"
| "try_collect (Inl e # _) = Inl e"
| "try_collect (Inr b # st) = (case try_collect st of Inl e \<Rightarrow> Inl e | Inr bs \<Rightarrow> Inr (b @ bs))"

record decrypt_state =
  inner :: byte_stream
  dec_key :: encryption_key
  buf :: bytes
  header_done :: bool
  base_iv :: bytes
  chunk_index :: nat
  expected_final_index :: nat
  emitted_final :: bool
  skip_bytes :: nat
  take_bytes :: "nat option"

definition chunked_decrypt_state :: "byte_stream \<Rightarrow> encryption_key \<Rightarrow> nat \<Rightarrow> nat \<Rightarrow> nat option \<Rightarrow> decrypt_state" where
  "chunked_decrypt_state st key final_idx skip tk =
     \<lparr>inner = st, dec_key = key, buf = [], header_done = False, base_iv = replicate IV_LEN 0, chunk_index = 0,
      expected_final_index = final_idx, emitted_final = False, skip_bytes = skip, take_bytes = tk\<rparr>"

definition chunked_decrypt_state_from_chunk ::
  "byte_stream \<Rightarrow> encryption_key \<Rightarrow> bytes \<Rightarrow> nat \<Rightarrow> nat \<Rightarrow> nat \<Rightarrow> nat option \<Rightarrow> decrypt_state" where
  "chunked_decrypt_state_from_chunk st key iv starting_chunk_index final_idx skip tk =
     \<lparr>inner = st, dec_key = key, buf = [], header_done = True, base_iv = iv, chunk_index = starting_chunk_index,
      expected_final_index = final_idx, emitted_final = False, skip_bytes = skip, take_bytes = tk\<rparr>"

text \<open>Reading from the inner stream until the buffer holds \<open>n\<close> bytes.\<close>

datatype fill_result = Filled bytes byte_stream | StreamFailed storage_error | StreamEnded

fun fill :: "nat \<Rightarrow> bytes \<Rightarrow> byte_stream \<Rightarrow> fill_result" where
  "fill n b st = (if n \<le> length b then Filled b st
     else case st of [] \<Rightarrow> StreamEnded | Inl e # _ \<Rightarrow> StreamFailed e | Inr more_bytes # st \<Rightarrow> fill n (b @ more_bytes) st)"

definition read_header :: "decrypt_state \<Rightarrow> (storage_error, decrypt_state) result" where
  "read_header st =
     (if header_done st then Inr st
      else case fill CHUNK_HEADER_LEN (buf st) (inner st) of
        StreamFailed e \<Rightarrow> Inl e
      | StreamEnded \<Rightarrow> Inl (Encryption ''stream ended before encryption header'')
      | Filled b rest \<Rightarrow>
          if take 4 b \<noteq> CHUNK_MAGIC then Inl (Encryption ''bad chunked-encryption magic'')
          else Inr (st\<lparr>inner := rest, buf := drop CHUNK_HEADER_LEN b, header_done := True,
                       base_iv := take IV_LEN (drop 4 b)\<rparr>))"

definition read_frame :: "decrypt_state \<Rightarrow> (storage_error, bytes \<times> decrypt_state) result" where
  "read_frame st = (case fill CHUNK_FRAME_LEN_FIELD (buf st) (inner st) of
     StreamFailed e \<Rightarrow> Inl e
   | StreamEnded \<Rightarrow> Inl (Encryption ''stream truncated before chunk'')
   | Filled b rest \<Rightarrow>
       (let declared = from_le_bytes (take CHUNK_FRAME_LEN_FIELD b)
        in if declared > CHUNK_MAX_WIRE_CIPHERTEXT then Inl (Encryption ''frame length exceeds ceiling'')
           else case fill (CHUNK_FRAME_LEN_FIELD + declared) b rest of
             StreamFailed e \<Rightarrow> Inl e
           | StreamEnded \<Rightarrow> Inl (Encryption ''stream truncated mid-frame-body'')
           | Filled b rest \<Rightarrow>
               Inr (take declared (drop CHUNK_FRAME_LEN_FIELD b),
                    st\<lparr>inner := rest, buf := drop (CHUNK_FRAME_LEN_FIELD + declared) b\<rparr>)))"

text \<open>The trimming of the plaintext of a chunk at the head and at the tail of a range.\<close>

definition trim_chunk :: "bytes \<Rightarrow> decrypt_state \<Rightarrow> bytes \<times> decrypt_state" where
  "trim_chunk pt st =
     (let skip = min (skip_bytes st) (length pt);
          st = st\<lparr>skip_bytes := skip_bytes st - skip\<rparr>;
          remainder = drop skip pt
      in case take_bytes st of
           None \<Rightarrow> (remainder, st)
         | Some n \<Rightarrow> (let take_now = min n (length remainder)
                      in (take take_now remainder, st\<lparr>take_bytes := Some (n - take_now)\<rparr>)))"

text \<open>One round of the loop: the stream ends, fails, or a chunk has been decrypted.  The bytes of a chunk
  may be empty, in which case the loop goes on to the next chunk.\<close>

datatype round_result = Ended | Failing storage_error | Yields bytes decrypt_state

definition decrypt_round :: "crypto \<Rightarrow> decrypt_state \<Rightarrow> round_result" where
  "decrypt_round cry st =
     (if take_bytes st = Some 0 then Ended
      else case read_header st of
        Inl e \<Rightarrow> Failing e
      | Inr st \<Rightarrow>
          if emitted_final st then Ended
          else case read_frame st of
            Inl e \<Rightarrow> Failing e
          | Inr (ct, st') \<Rightarrow>
              (let is_final = (chunk_index st = expected_final_index st)
               in case decrypt_chunk cry (dec_key st) (base_iv st) (chunk_index st) is_final ct of
                    Inl e \<Rightarrow> Failing e
                  | Inr pt \<Rightarrow>
                      (case checked_succ_u32 (chunk_index st) of
                         None \<Rightarrow> Failing (Encryption ''chunk index overflow during decode'')
                       | Some i \<Rightarrow>
                           (case trim_chunk pt (st'\<lparr>chunk_index := i, emitted_final := is_final\<rparr>) of
                              (b, st) \<Rightarrow> Yields b st))))"

declare fill.simps [simp del]

definition unread :: "decrypt_state \<Rightarrow> nat" where
  "unread st = length (buf st) + sum_list (map (\<lambda>x. case x of Inl _ \<Rightarrow> 0 | Inr b \<Rightarrow> length b) (inner st))"

lemma fill_unread:
  assumes "fill n b st = Filled b' rest"
  shows "n \<le> length b'"
    and "length b' + sum_list (map (\<lambda>x. case x of Inl _ \<Rightarrow> 0 | Inr b \<Rightarrow> length b) rest)
      = length b + sum_list (map (\<lambda>x. case x of Inl _ \<Rightarrow> 0 | Inr b \<Rightarrow> length b) st)"
  using assms
proof (induction n b st rule: fill.induct)
  case (1 n b st)
  { case 1
    then show ?case using "1.IH"(1) by (subst (asm) fill.simps) (auto split: if_splits list.splits sum.splits)
  next
    case 2
    then show ?case using "1.IH"(2) by (subst (asm) fill.simps) (fastforce split: if_splits list.splits sum.splits) }
qed

lemma read_header_unread: "read_header st = Inr st' \<Longrightarrow> unread st' \<le> unread st"
  by (auto simp: read_header_def unread_def split: if_splits fill_result.splits dest!: fill_unread(2))

lemma read_frame_unread:
  assumes "read_frame st = Inr (ct, st')"
  shows "unread st' < unread st"
proof -
  obtain b rest b' rest' n where f: "fill CHUNK_FRAME_LEN_FIELD (buf st) (inner st) = Filled b rest"
    "fill (CHUNK_FRAME_LEN_FIELD + n) b rest = Filled b' rest'"
    "st' = st\<lparr>inner := rest', buf := drop (CHUNK_FRAME_LEN_FIELD + n) b'\<rparr>"
    using assms by (auto simp: read_frame_def Let_def split: if_splits fill_result.splits)
  from fill_unread [OF f(1)] fill_unread [OF f(2)] f(3) show ?thesis
    by (simp add: unread_def CHUNK_FRAME_LEN_FIELD_def)
qed

lemma trim_chunk_unread: "trim_chunk pt st = (b, st') \<Longrightarrow> unread st' = unread st"
  by (auto simp: trim_chunk_def Let_def unread_def split: option.splits)

lemma decrypt_round_unread:
  assumes "decrypt_round cry st = Yields b st'"
  shows "unread st' < unread st"
proof -
  obtain st1 ct st2 pt i fin where f: "read_header st = Inr st1" "read_frame st1 = Inr (ct, st2)"
    "trim_chunk pt (st2\<lparr>chunk_index := i, emitted_final := fin\<rparr>) = (b, st')"
    using assms by (auto simp: decrypt_round_def Let_def split: if_splits sum.splits option.splits prod.splits)
  from read_header_unread [OF f(1)] read_frame_unread [OF f(2)] trim_chunk_unread [OF f(3)]
  show ?thesis by (simp add: unread_def)
qed

function decrypt_stream_from_state :: "crypto \<Rightarrow> decrypt_state \<Rightarrow> byte_stream" where
  "decrypt_stream_from_state cry st = (case decrypt_round cry st of
     Ended \<Rightarrow> []
   | Failing e \<Rightarrow> [Inl e]
   | Yields b st \<Rightarrow> if b = [] then decrypt_stream_from_state cry st
                     else Inr b # decrypt_stream_from_state cry st)"
  by pat_completeness auto
termination
  by (relation "measure (\<lambda>(_, st). unread st)") (auto dest: decrypt_round_unread)

declare decrypt_stream_from_state.simps [simp del] slice_incoming.simps [simp del] feed_file.simps [simp del]

definition sniff_dge1_magic :: "byte_stream \<Rightarrow> byte_stream" where
  "sniff_dge1_magic st = (case st of
     [] \<Rightarrow> []
   | Inl e # _ \<Rightarrow> [Inl e]
   | Inr first # rest \<Rightarrow>
       if 4 \<le> length first \<and> take 4 first = CHUNK_MAGIC
       then [Inl (Encryption ''object body begins with chunked-encryption magic'')]
       else Inr first # rest)"

section \<open>Keys\<close>

definition actively_encrypts :: "encryption_config \<Rightarrow> bool" where
  "actively_encrypts cfg \<longleftrightarrow> write_mode cfg = Encrypt \<and> enc_key cfg \<noteq> None"

definition no_key_configured :: storage_error where
  "no_key_configured = Encryption ''object is encrypted but no key is configured''"

definition pick_decrypt_key :: "encryption_config \<Rightarrow> string option \<Rightarrow> (storage_error, encryption_key) result" where
  "pick_decrypt_key cfg object_kid =
     (let primary = (case enc_key cfg of Some k \<Rightarrow> Inr k | None \<Rightarrow> Inl no_key_configured);
          mismatch = Inl (if key_id cfg = None \<and> enc_key cfg = None
                          then Encryption ''this backend has NO encryption key configured''
                          else Encryption ''key id mismatch'')
      in case object_kid of
           None \<Rightarrow> primary
         | Some obj_id \<Rightarrow>
             if key_id cfg = Some obj_id then primary
             else (case (legacy_key cfg, legacy_key_id cfg) of
                     (Some lk, Some lid) \<Rightarrow> if lid = obj_id then Inr lk else mismatch
                   | _ \<Rightarrow> mismatch))"

definition check_key_id_match :: "string option \<Rightarrow> string option \<Rightarrow> (storage_error, unit) result" where
  "check_key_id_match object_kid configured_kid = (case (object_kid, configured_kid) of
     (Some obj, Some cfg) \<Rightarrow> if obj \<noteq> cfg then Inl (Encryption ''key id mismatch'') else Inr ()
   | _ \<Rightarrow> Inr ())"

definition encrypt_if_enabled ::
  "crypto \<Rightarrow> encryption_config \<Rightarrow> bytes \<Rightarrow> bytes \<Rightarrow> file_metadata \<Rightarrow> (storage_error, bytes \<times> file_metadata) result" where
  "encrypt_if_enabled cry cfg iv d m =
     (if write_mode cfg = PassThrough then Inr (d, m)
      else case enc_key cfg of
        None \<Rightarrow> Inr (d, m)
      | Some key \<Rightarrow> (case encrypt cry key iv d of
          Inl e \<Rightarrow> Inl e
        | Inr enc \<Rightarrow> Inr (enc, mark_encrypted (key_id cfg) m)))"

definition decrypt_if_needed ::
  "crypto \<Rightarrow> encryption_config \<Rightarrow> bytes \<Rightarrow> file_metadata \<Rightarrow> (storage_error, bytes) result" where
  "decrypt_if_needed cry cfg d m =
     (if is_encrypted m
      then (case pick_decrypt_key cfg (stamped_key_id m) of Inl e \<Rightarrow> Inl e | Inr key \<Rightarrow> decrypt cry key d)
      else Inr d)"

section \<open>The wrapping backend\<close>

text \<open>Names of operations that wrap the operation of the same name of the inner backend begin with \<open>enc_\<close>.
  The operations of the wrapper that are not listed pass the call on unchanged.\<close>

definition enc_put_reference where
  "enc_put_reference cry cfg env b p d m s =
     (case encrypt_if_enabled cry cfg (fresh_iv cry (tick s)) d m of
        Inl e \<Rightarrow> (Inl e, s) | Inr (enc, m) \<Rightarrow> put_reference env b p enc m s)"

definition enc_put_delta where
  "enc_put_delta cry cfg env b p f d m s =
     (case encrypt_if_enabled cry cfg (fresh_iv cry (tick s)) d m of
        Inl e \<Rightarrow> (Inl e, s) | Inr (enc, m) \<Rightarrow> put_delta env b p f enc m s)"

definition enc_put_passthrough where
  "enc_put_passthrough cry cfg env b p f d m s =
     (case encrypt_if_enabled cry cfg (fresh_iv cry (tick s)) d m of
        Inl e \<Rightarrow> (Inl e, s) | Inr (enc, m) \<Rightarrow> put_passthrough env b p f enc m s)"

definition enc_put_passthrough_file where
  "enc_put_passthrough_file cry cfg env b p f d m s =
     (if write_mode cfg = PassThrough then put_passthrough_file env b p f d m s
      else case enc_key cfg of
        None \<Rightarrow> put_passthrough_file env b p f d m s
      | Some key \<Rightarrow> (case encode_file cry key (fresh_iv cry (tick s)) d of
          Inl e \<Rightarrow> (Inl e, s)
        | Inr wire \<Rightarrow> put_passthrough_file env b p f wire (mark_chunked_encrypted (key_id cfg) m) s))"

definition enc_put_passthrough_parts where
  "enc_put_passthrough_parts cry cfg env b p f parts m s =
     (if write_mode cfg = PassThrough \<or> enc_key cfg = None then put_passthrough_parts env b p f parts m s
      else enc_put_passthrough_file cry cfg env b p f (concat parts) m s)"

definition enc_put_passthrough_chunked where
  "enc_put_passthrough_chunked cry cfg env b p f chunks m s =
     (case enc_key cfg of
        None \<Rightarrow> put_passthrough_chunked env b p f chunks m s
      | Some key \<Rightarrow> (case encode_pieces cry key (fresh_iv cry (tick s)) chunks of
          Inl e \<Rightarrow> (Inl e, s)
        | Inr wire \<Rightarrow> put_passthrough_chunked env b p f [wire] (mark_chunked_encrypted (key_id cfg) m) s))"

definition enc_get_reference where
  "enc_get_reference cry cfg env b p s =
     and_then (get_reference env b p s) (\<lambda>d s.
     and_then (get_reference_metadata env b p s) (\<lambda>m s. (decrypt_if_needed cry cfg d m, s)))"

definition enc_get_delta where
  "enc_get_delta cry cfg env b p f s =
     and_then (get_delta env b p f s) (\<lambda>d s.
     and_then (get_delta_metadata env b p f s) (\<lambda>m s. (decrypt_if_needed cry cfg d m, s)))"

definition enc_get_passthrough_stream ::
  "crypto \<Rightarrow> encryption_config \<Rightarrow> ('e storage_env_scheme) \<Rightarrow> string \<Rightarrow> string \<Rightarrow> string \<Rightarrow> ('s storage_scheme)
     \<Rightarrow> (storage_error, byte_stream) result \<times> ('s storage_scheme)" where
  "enc_get_passthrough_stream cry cfg env b p f s =
     and_then (get_passthrough_metadata env b p f s) (\<lambda>m s.
       if is_chunked_encrypted m
       then (case pick_decrypt_key cfg (stamped_key_id m) of
               Inl e \<Rightarrow> (Inl e, s)
             | Inr key \<Rightarrow> and_then (get_passthrough_stream env b p f s) (\<lambda>d s.
                 (Inr (decrypt_stream_from_state cry (chunked_decrypt_state (map Inr (pieces cry d)) key
                    (final_chunk_index_for_plaintext_size (file_size m)) 0 None)), s)))
       else if is_encrypted m
       then and_then (get_passthrough env b p f s) (\<lambda>d s.
              case decrypt_if_needed cry cfg d m of Inl e \<Rightarrow> (Inl e, s) | Inr pt \<Rightarrow> (Inr [Inr pt], s))
       else and_then (get_passthrough_stream env b p f s) (\<lambda>d s.
              (Inr (sniff_dge1_magic (map Inr (pieces cry d))), s)))"

definition enc_get_passthrough ::
  "crypto \<Rightarrow> encryption_config \<Rightarrow> ('e storage_env_scheme) \<Rightarrow> string \<Rightarrow> string \<Rightarrow> string \<Rightarrow> ('s storage_scheme)
     \<Rightarrow> (storage_error, bytes) result \<times> ('s storage_scheme)" where
  "enc_get_passthrough cry cfg env b p f s =
     and_then (get_passthrough_metadata env b p f s) (\<lambda>m s.
       if is_chunked_encrypted m
       then and_then (enc_get_passthrough_stream cry cfg env b p f s) (\<lambda>st s. (try_collect st, s))
       else and_then (get_passthrough env b p f s) (\<lambda>d s. (decrypt_if_needed cry cfg d m, s)))"

definition fetch_chunked_header ::
  "crypto \<Rightarrow> ('e storage_env_scheme) \<Rightarrow> string \<Rightarrow> string \<Rightarrow> string \<Rightarrow> ('s storage_scheme)
     \<Rightarrow> (storage_error, bytes) result \<times> ('s storage_scheme)" where
  "fetch_chunked_header cry env b p f s =
     and_then (get_passthrough_stream_range env b p f 0 (CHUNK_HEADER_LEN - 1) s) (\<lambda>(d, content_length) s.
       if content_length = 0 then (Inl (Other ''backend without native range support''), s)
       else case fill CHUNK_HEADER_LEN [] (map Inr (pieces cry d)) of
         StreamFailed e \<Rightarrow> (Inl e, s)
       | StreamEnded \<Rightarrow> (Inl (Encryption ''stream ended before encryption header''), s)
       | Filled hdr _ \<Rightarrow>
           if take 4 hdr \<noteq> CHUNK_MAGIC then (Inl (Encryption ''bad chunked-encryption magic''), s)
           else (Inr (take IV_LEN (drop 4 hdr)), s))"

text \<open>A range, as the stream that serves it and the length announced for it.  Cutting the plaintext of a
  whole-object blob out of its bounds panics.\<close>

definition enc_get_passthrough_stream_range ::
  "crypto \<Rightarrow> encryption_config \<Rightarrow> ('e storage_env_scheme) \<Rightarrow> string \<Rightarrow> string \<Rightarrow> string \<Rightarrow> nat \<Rightarrow> nat
     \<Rightarrow> ('s storage_scheme) \<Rightarrow> (storage_error, byte_stream \<times> nat) result \<times> ('s storage_scheme)" where
  "enc_get_passthrough_stream_range cry cfg env b p f start end_incl s =
     and_then (get_passthrough_metadata env b p f s) (\<lambda>m s.
       if is_chunked_encrypted m
       then (case pick_decrypt_key cfg (stamped_key_id m) of
          Inl e \<Rightarrow> (Inl e, s)
        | Inr key \<Rightarrow>
            (let final_idx = final_chunk_index_for_plaintext_size (file_size m);
                 effective_end = min end_incl (file_size m - 1);
                 first_chunk = fst (chunk_index_for_plaintext_offset start);
                 last_chunk = fst (chunk_index_for_plaintext_offset effective_end);
                 wire_start = wire_offset_of_chunk first_chunk;
                 wire_end = (if last_chunk < final_idx
                             then wire_offset_of_chunk last_chunk + CHUNK_FRAME_WIRE_LEN - 1
                             else u64_max - 1);
                 plaintext_len = effective_end - start + 1
             in if effective_end < start then (Inl (Other ''range out of bounds''), s)
                else and_then (fetch_chunked_header cry env b p f s) (\<lambda>iv s.
                     and_then (get_passthrough_stream_range env b p f wire_start wire_end s) (\<lambda>(d, _) s.
                     (Inr (decrypt_stream_from_state cry (chunked_decrypt_state_from_chunk (map Inr (pieces cry d)) key iv
                        first_chunk final_idx (start - first_chunk * CHUNK_PLAINTEXT_SIZE) (Some plaintext_len)),
                        plaintext_len), s)))))
       else if is_encrypted m
       then and_then (get_passthrough env b p f s) (\<lambda>d s.
              case decrypt_if_needed cry cfg d m of
                Inl e \<Rightarrow> (Inl e, s)
              | Inr pt \<Rightarrow>
                  (let e = min (end_incl + 1) (length pt)
                   in if start \<le> e then (Inr ([Inr (drop start (take e pt))], e - start), s)
                      else (Inl (Other ''slice index out of range''), s)))
       else and_then (get_passthrough_stream_range env b p f start end_incl s) (\<lambda>(d, len) s.
              (Inr (map Inr (pieces cry d), len), s)))"

definition enc_put_passthrough_metadata where
  "enc_put_passthrough_metadata env b p f m s =
     (case get_passthrough_metadata env b p f s of
        (Inl _, s) \<Rightarrow> put_passthrough_metadata env b p f m s
      | (Inr raw, s) \<Rightarrow>
          put_passthrough_metadata env b p f (m\<lparr>user_metadata := (\<lambda>k.
            if k \<in> {ENCRYPTION_MARKER_KEY, ENCRYPTION_KEY_ID_KEY} \<and> user_metadata raw k \<noteq> None
            then user_metadata raw k else user_metadata m k)\<rparr>) s)"

end
