(* ===== verification/EncryptionCorrect.thy ===== *)
theory EncryptionCorrect
  imports Encryption
begin

text \<open>
  Correctness of encryption at rest: both writers produce the same wire format, whatever the pieces in
  which the body arrives; the streaming reader inverts it, whatever the pieces in which the file is
  read; a range read equals the slice; a truncated file is an error; nonces do not repeat.
\<close>

section \<open>Integers on the wire\<close>

lemma length_to_le_bytes [simp]: "length (to_le_bytes n) = 4"
  by (simp add: to_le_bytes_def)

lemma base256:
  fixes n :: nat
  assumes "n < 4294967296"
  shows "n mod 256 + 256 * (n div 256 mod 256) + 65536 * (n div 65536 mod 256) + 16777216 * (n div 16777216 mod 256) = n"
proof -
  have "n div 16777216 < 256" using assms by (simp add: less_mult_imp_div_less)
  then have 3: "n div 16777216 mod 256 = n div 16777216" by simp
  have 2: "256 * (n div 16777216) + n div 65536 mod 256 = n div 65536"
    using mult_div_mod_eq [of 256 "n div 65536"] by (simp add: div_mult2_eq [symmetric])
  have 1: "256 * (n div 65536) + n div 256 mod 256 = n div 256"
    using mult_div_mod_eq [of 256 "n div 256"] by (simp add: div_mult2_eq [symmetric])
  have 0: "256 * (n div 256) + n mod 256 = n" by (rule mult_div_mod_eq)
  from 0 1 2 3 show ?thesis by linarith
qed

lemma unat_byte: "unat (of_nat n :: byte) = n mod 2 ^ 8"
  by (simp add: unat_of_nat)

lemma from_to_le_bytes [simp]: "n < 2 ^ 32 \<Longrightarrow> from_le_bytes (to_le_bytes n) = n"
  using base256 [of n] by (simp add: from_le_bytes_def to_le_bytes_def unat_byte)

lemma to_le_bytes_inj:
  assumes "to_le_bytes i = to_le_bytes j" "i < 2 ^ 32" "j < 2 ^ 32"
  shows "i = j"
proof -
  have "i = from_le_bytes (to_le_bytes i)" using assms(2) by (rule from_to_le_bytes [symmetric])
  also have "\<dots> = from_le_bytes (to_le_bytes j)" by (simp only: assms(1))
  also have "\<dots> = j" using assms(3) by (rule from_to_le_bytes)
  finally show ?thesis .
qed

lemma length_to_be_bytes [simp]: "length (to_be_bytes n) = 4"
  by (simp add: to_be_bytes_def)

lemma length_chunk_nonce [simp]: "length (chunk_nonce iv i) = length iv"
  by (simp add: chunk_nonce_def Let_def)

lemma four_bytes: "length bs = 4 \<Longrightarrow> bs = [bs ! 0, bs ! 1, bs ! 2, bs ! 3]"
  by (simp add: list_eq_iff_nth_eq less_Suc_eq numeral_eq_Suc)

lemma xor_cancel_left: "a XOR b = a XOR c \<longleftrightarrow> b = c" for a b c :: byte
proof
  assume "a XOR b = a XOR c"
  then have "a XOR (a XOR b) = a XOR (a XOR c)" by simp
  then show "b = c" by (simp add: xor.assoc [symmetric])
qed simp

lemma chunk_nonce_inj:
  assumes "length iv = IV_LEN" "i < 2 ^ 32" "j < 2 ^ 32" "chunk_nonce iv i = chunk_nonce iv j"
  shows "i = j"
proof -
  have "to_be_bytes i ! k = to_be_bytes j ! k" if "k < 4" for k
  proof -
    have n: "chunk_nonce iv x ! (8 + k) = iv ! (8 + k) XOR to_be_bytes x ! k" for x
      using that assms(1) by (auto simp: chunk_nonce_def Let_def IV_LEN_def less_Suc_eq numeral_eq_Suc nth_list_update)
    from assms(4) have "chunk_nonce iv i ! (8 + k) = chunk_nonce iv j ! (8 + k)" by simp
    then show ?thesis unfolding n by (simp add: xor_cancel_left)
  qed
  then have "to_be_bytes i = to_be_bytes j" by (intro nth_equalityI) simp_all
  then have "to_le_bytes i = to_le_bytes j" by (simp add: to_be_bytes_def)
  then show ?thesis using assms(2,3) by (rule to_le_bytes_inj)
qed

section \<open>Windows and frames\<close>

function windows :: "bytes \<Rightarrow> bytes list" where
  "windows d = (if d = [] then [] else take CHUNK_PLAINTEXT_SIZE d # windows (drop CHUNK_PLAINTEXT_SIZE d))"
  by pat_completeness auto
termination
  by (relation "measure length") (auto simp: CHUNK_PLAINTEXT_SIZE_def)

declare windows.simps [simp del]

lemma size_pos [simp]: "0 < CHUNK_PLAINTEXT_SIZE" "CHUNK_PLAINTEXT_SIZE \<noteq> 0"
  by (simp_all add: CHUNK_PLAINTEXT_SIZE_def)

lemma windows_Nil [simp]: "windows [] = []"
  by (simp add: windows.simps)

lemma windows_Cons: "d \<noteq> [] \<Longrightarrow> windows d = take CHUNK_PLAINTEXT_SIZE d # windows (drop CHUNK_PLAINTEXT_SIZE d)"
  by (subst windows.simps) simp

lemma windows_short: "d \<noteq> [] \<Longrightarrow> length d \<le> CHUNK_PLAINTEXT_SIZE \<Longrightarrow> windows d = [d]"
  by (simp add: windows_Cons)

lemma windows_full: "length w = CHUNK_PLAINTEXT_SIZE \<Longrightarrow> windows (w @ d) = w # windows d"
  by (subst windows_Cons) auto

lemma concat_windows [simp]: "concat (windows d) = d"
  by (induction d rule: windows.induct) (subst windows.simps, simp)

lemma length_window: "w \<in> set (windows d) \<Longrightarrow> length w \<le> CHUNK_PLAINTEXT_SIZE"
  by (induction d rule: windows.induct) (subst (asm) windows.simps, auto split: if_splits)

text \<open>Feeding a list of windows to the framer.\<close>

fun feed_list ::
  "crypto \<Rightarrow> encryption_key \<Rightarrow> bytes list \<Rightarrow> chunk_framer \<times> bytes \<Rightarrow> (storage_error, chunk_framer \<times> bytes) result" where
  "feed_list cry key [] st = Inr st"
| "feed_list cry key (w # ws) st = (case feed cry key w st of Inl e \<Rightarrow> Inl e | Inr st \<Rightarrow> feed_list cry key ws st)"

definition feed_tail ::
  "crypto \<Rightarrow> encryption_key \<Rightarrow> (storage_error, bytes \<times> chunk_framer \<times> bytes) result
     \<Rightarrow> (storage_error, chunk_framer \<times> bytes) result" where
  "feed_tail cry key r = (case r of Inl e \<Rightarrow> Inl e
     | Inr (w, st) \<Rightarrow> if w \<noteq> [] then feed cry key w st else Inr st)"

lemma feed_file_windows: "feed_file cry key d st = feed_list cry key (windows d) st"
proof (induction cry key d st rule: feed_file.induct)
  case (1 cry key d st)
  show ?case
  proof (cases "d = []")
    case True
    then show ?thesis by (simp add: feed_file.simps)
  next
    case False
    show ?thesis
    proof (cases "length d < CHUNK_PLAINTEXT_SIZE")
      case True
      with False show ?thesis by (subst feed_file.simps) (simp add: windows_short split: sum.split)
    next
      case long: False
      have "feed_file cry key (drop CHUNK_PLAINTEXT_SIZE d) st' = feed_list cry key (windows (drop CHUNK_PLAINTEXT_SIZE d)) st'"
        if "feed cry key (take CHUNK_PLAINTEXT_SIZE d) st = Inr st'" for st'
        using 1 [OF refl _ that] False long by simp
      with False long show ?thesis
        by (subst feed_file.simps) (simp add: windows_Cons split: sum.split)
    qed
  qed
qed

text \<open>Slicing keeps what is left of the input as a short window, and feeds the windows of all of it in
  order.\<close>

lemma slice_incoming_windows:
  assumes "length w < CHUNK_PLAINTEXT_SIZE"
  shows "case slice_incoming cry key rem w st of
      Inl e \<Rightarrow> (\<forall>d. feed_list cry key (windows (w @ rem @ d)) st = Inl e)
    | Inr (w', st') \<Rightarrow> length w' < CHUNK_PLAINTEXT_SIZE
        \<and> (\<forall>d. feed_list cry key (windows (w @ rem @ d)) st = feed_list cry key (windows (w' @ d)) st')"
  using assms
proof (induction cry key rem w st rule: slice_incoming.induct)
  case (1 cry key rem w st)
  let ?n = "min (CHUNK_PLAINTEXT_SIZE - length w) (length rem)"
  consider "rem = []" | "rem \<noteq> []" "length w + length rem < CHUNK_PLAINTEXT_SIZE"
    | "rem \<noteq> []" "CHUNK_PLAINTEXT_SIZE \<le> length w + length rem" by linarith
  then show ?case
  proof cases
    case 1
    with "1.prems" show ?thesis by (subst slice_incoming.simps) simp
  next
    case 2
    then have n: "?n = length rem" by simp
    have s: "slice_incoming cry key rem w st = Inr (w @ rem, st)"
      using 2 n by (subst slice_incoming.simps) (simp, subst slice_incoming.simps, simp)
    from 2 show ?thesis by (simp add: s)
  next
    case 3
    then have n: "?n = CHUNK_PLAINTEXT_SIZE - length w" by simp
    let ?w = "w @ take ?n rem" and ?r = "drop ?n rem"
    have l: "length ?w = CHUNK_PLAINTEXT_SIZE" using 3 "1.prems" n by simp
    have wd: "windows (w @ rem @ d) = ?w # windows (?r @ d)" for d
    proof -
      have "w @ rem @ d = ?w @ ?r @ d" by (simp only: append_assoc append_take_drop_id append_assoc [symmetric, of "take ?n rem"])
      then show ?thesis by (simp only: windows_full [OF l])
    qed
    have s: "slice_incoming cry key rem w st = (case feed cry key ?w st of
        Inl e \<Rightarrow> Inl e | Inr st \<Rightarrow> slice_incoming cry key ?r [] st)"
      using 3 l "1.prems" by (subst slice_incoming.simps) (simp add: Let_def n split: sum.split)
    show ?thesis
    proof (cases "feed cry key ?w st")
      case (Inl e)
      then show ?thesis by (simp add: s wd)
    next
      case (Inr st')
      have "case slice_incoming cry key ?r [] st' of
          Inl e \<Rightarrow> (\<forall>d. feed_list cry key (windows ([] @ ?r @ d)) st' = Inl e)
        | Inr (w', st'') \<Rightarrow> length w' < CHUNK_PLAINTEXT_SIZE
            \<and> (\<forall>d. feed_list cry key (windows ([] @ ?r @ d)) st' = feed_list cry key (windows (w' @ d)) st'')"
        using "1.IH"(1) [OF 3(1) _ refl refl refl l Inr] "1.prems" by simp
      with Inr show ?thesis by (auto simp: s wd split: sum.splits)
    qed
  qed
qed

lemma slice_all_windows:
  assumes "length w < CHUNK_PLAINTEXT_SIZE"
  shows "feed_tail cry key (slice_all cry key cs w st) = feed_list cry key (windows (w @ concat cs)) st"
  using assms
proof (induction cs arbitrary: w st)
  case Nil
  then show ?case by (cases "w = []") (simp_all add: feed_tail_def windows_short split: sum.split)
next
  case (Cons c cs)
  show ?case
  proof (cases "slice_incoming cry key c w st")
    case (Inl e)
    with slice_incoming_windows [OF Cons.prems, of cry key c st] show ?thesis by (simp add: feed_tail_def)
  next
    case (Inr r)
    obtain w' st' where r: "r = (w', st')" by (cases r)
    with slice_incoming_windows [OF Cons.prems, of cry key c st] Inr
    have "length w' < CHUNK_PLAINTEXT_SIZE"
      "feed_list cry key (windows (w @ c @ concat cs)) st = feed_list cry key (windows (w' @ concat cs)) st'" by simp_all
    with Cons.IH [OF this(1), of st'] Inr r show ?thesis by simp
  qed
qed

text \<open>The two writers agree: only the body matters, not the pieces in which it arrives.\<close>

lemma encode_pieces_file: "encode_pieces cry key iv cs = encode_file cry key iv (concat cs)"
proof -
  have "encode_pieces cry key iv cs = (case feed_tail cry key (slice_all cry key cs [] (new_framer iv, CHUNK_MAGIC @ iv)) of
      Inl e \<Rightarrow> Inl e | Inr st \<Rightarrow> finish_frames cry key st)"
    by (simp add: encode_pieces_def feed_tail_def split: sum.split prod.split)
  also have "\<dots> = encode_file cry key iv (concat cs)"
    by (simp add: slice_all_windows encode_file_def feed_file_windows)
  finally show ?thesis .
qed

text \<open>The frame of a window, and the frames of consecutive windows when \<open>f\<close> is the index of the last one.\<close>

definition frame :: "crypto \<Rightarrow> encryption_key \<Rightarrow> bytes \<Rightarrow> nat \<Rightarrow> bool \<Rightarrow> bytes \<Rightarrow> bytes" where
  "frame cry key iv i fin w =
     to_le_bytes (length w + GCM_TAG_LEN) @ the (aead_encrypt cry key (chunk_nonce iv i) (chunk_aad i fin) w)"

fun frames_at :: "crypto \<Rightarrow> encryption_key \<Rightarrow> bytes \<Rightarrow> nat \<Rightarrow> nat \<Rightarrow> bytes list \<Rightarrow> bytes" where
  "frames_at cry key iv f i [] = []"
| "frames_at cry key iv f i (w # ws) = frame cry key iv i (i = f) w @ frames_at cry key iv f (Suc i) ws"

lemma frames_at_append:
  "frames_at cry key iv f i (ws @ vs) = frames_at cry key iv f i ws @ frames_at cry key iv f (i + length ws) vs"
  by (induction ws arbitrary: i) simp_all

lemma aead_okD:
  assumes "aead_ok cry" "length iv = IV_LEN" "length w \<le> CHUNK_PLAINTEXT_SIZE"
  obtains c where "aead_encrypt cry key (chunk_nonce iv i) a w = Some c" "length c = length w + GCM_TAG_LEN"
    "aead_decrypt cry key (chunk_nonce iv i) a c = Some w"
proof -
  have "length (chunk_nonce iv i) = IV_LEN" "length w \<le> 2 ^ 36 - 32"
    using assms(2,3) by (simp_all add: CHUNK_PLAINTEXT_SIZE_def)
  with assms(1) show ?thesis using that unfolding aead_ok_def by blast
qed

lemma encrypt_chunk_frame:
  assumes "aead_ok cry" "length iv = IV_LEN" "length w \<le> CHUNK_PLAINTEXT_SIZE"
  shows "encrypt_chunk cry key iv i fin w = Inr (frame cry key iv i fin w)"
proof -
  obtain c where "aead_encrypt cry key (chunk_nonce iv i) (chunk_aad i fin) w = Some c" "length c = length w + GCM_TAG_LEN"
    using aead_okD [OF assms] by blast
  with assms(3) show ?thesis
    by (simp add: encrypt_chunk_def frame_def CHUNK_PLAINTEXT_SIZE_def GCM_TAG_LEN_def)
qed

lemma length_frame:
  assumes "aead_ok cry" "length iv = IV_LEN" "length w \<le> CHUNK_PLAINTEXT_SIZE"
  shows "length (frame cry key iv i fin w) = CHUNK_FRAME_LEN_FIELD + length w + GCM_TAG_LEN"
proof -
  obtain c where "aead_encrypt cry key (chunk_nonce iv i) (chunk_aad i fin) w = Some c" "length c = length w + GCM_TAG_LEN"
    using aead_okD [OF assms] by blast
  then show ?thesis by (simp add: frame_def CHUNK_FRAME_LEN_FIELD_def)
qed

lemma length_frames_at:
  assumes "aead_ok cry" "length iv = IV_LEN" "\<And>w. w \<in> set ws \<Longrightarrow> length w = CHUNK_PLAINTEXT_SIZE"
  shows "length (frames_at cry key iv f i ws) = length ws * CHUNK_FRAME_WIRE_LEN"
  using assms(3) by (induction ws arbitrary: i) (simp_all add: length_frame [OF assms(1,2)] CHUNK_FRAME_WIRE_LEN_def)

lemma feed_list_frames:
  assumes "aead_ok cry" "length iv = IV_LEN" "\<And>w. w \<in> set (v # ws) \<Longrightarrow> length w \<le> CHUNK_PLAINTEXT_SIZE"
    and "i + length ws < 2 ^ 32"
  shows "(case feed_list cry key ws (\<lparr>framer_iv = iv, framer_index = i, pending = Some v, started = True\<rparr>, out) of
      Inl e \<Rightarrow> Inl e | Inr st \<Rightarrow> finish_frames cry key st)
    = Inr (out @ frames_at cry key iv (i + length ws) i (v # ws))"
  using assms(3,4)
proof (induction ws arbitrary: i v out)
  case Nil
  then show ?case
    by (simp add: finish_frames_def finish_def unwrap_or_def encrypt_chunk_frame [OF assms(1,2)])
next
  case (Cons w ws)
  have "feed cry key w (\<lparr>framer_iv = iv, framer_index = i, pending = Some v, started = True\<rparr>, out)
    = Inr (\<lparr>framer_iv = iv, framer_index = Suc i, pending = Some w, started = True\<rparr>, out @ frame cry key iv i False v)"
    using Cons.prems by (simp add: feed_def push_window_def encrypt_chunk_frame [OF assms(1,2)] checked_succ_u32_def unwrap_or_def)
  moreover have "i \<noteq> i + length (w # ws)" by simp
  ultimately show ?case using Cons.IH [of w "Suc i" "out @ frame cry key iv i False v"] Cons.prems
    by (simp add: add.commute)
qed

text \<open>The windows of a body as the reader sees them: the empty body is one empty window.\<close>

definition body_windows :: "bytes \<Rightarrow> bytes list" where
  "body_windows d = (if d = [] then [[]] else windows d)"

definition wire :: "crypto \<Rightarrow> encryption_key \<Rightarrow> bytes \<Rightarrow> bytes \<Rightarrow> bytes" where
  "wire cry key iv d = CHUNK_MAGIC @ iv @ frames_at cry key iv (length (body_windows d) - 1) 0 (body_windows d)"

lemma body_windows_nonempty [simp]: "body_windows d \<noteq> []"
  by (simp add: body_windows_def windows_Cons)

lemma concat_body_windows [simp]: "concat (body_windows d) = d"
  by (simp add: body_windows_def)

lemma length_body_window: "w \<in> set (body_windows d) \<Longrightarrow> length w \<le> CHUNK_PLAINTEXT_SIZE"
  by (auto simp: body_windows_def length_window split: if_splits)

lemma encode_file_wire:
  assumes "aead_ok cry" "length iv = IV_LEN" "length (body_windows d) \<le> 2 ^ 32"
  shows "encode_file cry key iv d = Inr (wire cry key iv d)"
proof (cases "windows d")
  case Nil
  then have "d = []" by (metis concat.simps(1) concat_windows)
  then show ?thesis
    by (simp add: encode_file_def feed_file_windows finish_frames_def finish_def new_framer_def unwrap_or_def
        encrypt_chunk_frame [OF assms(1,2)] wire_def body_windows_def)
next
  case (Cons v ws)
  then have d: "d \<noteq> []" "body_windows d = v # ws" by (auto simp: body_windows_def)
  have l: "\<And>w. w \<in> set (v # ws) \<Longrightarrow> length w \<le> CHUNK_PLAINTEXT_SIZE" using length_window Cons by metis
  have "feed cry key v (new_framer iv, CHUNK_MAGIC @ iv)
      = Inr (\<lparr>framer_iv = iv, framer_index = 0, pending = Some v, started = True\<rparr>, CHUNK_MAGIC @ iv)"
    by (simp add: feed_def push_window_def new_framer_def unwrap_or_def)
  with feed_list_frames [OF assms(1,2) l, where i = 0 and key = key and out = "CHUNK_MAGIC @ iv"] assms(3) d
  show ?thesis by (simp add: encode_file_def feed_file_windows Cons wire_def)
qed

section \<open>Reading frames\<close>

text \<open>The bytes that a reader still has in front of it, when no piece of its stream is an error.\<close>

definition carries :: "decrypt_state \<Rightarrow> bytes \<Rightarrow> bool" where
  "carries st d \<longleftrightarrow> (\<exists>ps. inner st = map Inr ps \<and> buf st @ concat ps = d)"

lemma fill_map_Inr:
  "if n \<le> length (b @ concat ps)
   then \<exists>b' ps'. fill n b (map Inr ps) = Filled b' (map Inr ps') \<and> b' @ concat ps' = b @ concat ps \<and> n \<le> length b'
   else fill n b (map Inr ps) = StreamEnded"
proof (induction ps arbitrary: b)
  case Nil
  then show ?case by (auto simp: fill.simps [of n b])
next
  case (Cons p ps)
  show ?case
  proof (cases "n \<le> length b")
    case True
    then have "fill n b (map Inr (p # ps)) = Filled b (map Inr (p # ps))" by (subst fill.simps) simp
    with True show ?thesis by (auto intro!: exI [of _ b] exI [of _ "p # ps"])
  next
    case False
    then have "fill n b (map Inr (p # ps)) = fill n (b @ p) (map Inr ps)" by (subst fill.simps) simp
    with Cons.IH [of "b @ p"] show ?thesis by (simp split: if_splits)
  qed
qed

lemma fill_carries:
  assumes "carries st d" "n \<le> length d"
  obtains b rest where "fill n (buf st) (inner st) = Filled b rest" "carries (st\<lparr>inner := rest, buf := b\<rparr>) d" "n \<le> length b"
    "take n b = take n d"
proof -
  obtain ps where ps: "inner st = map Inr ps" "buf st @ concat ps = d" using assms(1) by (auto simp: carries_def)
  with assms(2) fill_map_Inr [of n "buf st" ps] obtain b' ps' where
    b: "fill n (buf st) (map Inr ps) = Filled b' (map Inr ps')" "b' @ concat ps' = d" "n \<le> length b'" by auto
  from b(2,3) have "take n b' = take n d" by (metis append_eq_append_conv_if append_take_drop_id take_all_iff take_append diff_is_0_eq take_0 append_Nil2)
  with b ps show ?thesis by (intro that [of b' "map Inr ps'"]) (auto simp: carries_def)
qed

lemma fill_carries_short: "carries st d \<Longrightarrow> length d < n \<Longrightarrow> fill n (buf st) (inner st) = StreamEnded"
  using fill_map_Inr [of n] by (auto simp: carries_def)

lemma carries_drop:
  assumes "carries (st\<lparr>inner := rest, buf := b\<rparr>) d" "n \<le> length b"
  shows "carries (st\<lparr>inner := rest, buf := drop n b\<rparr>) (drop n d)"
proof -
  obtain ps where "rest = map Inr ps" "b @ concat ps = d" using assms(1) by (auto simp: carries_def)
  with assms(2) show ?thesis by (auto simp: carries_def)
qed

lemma read_frame_carries:
  assumes "carries st (to_le_bytes (length ct) @ ct @ rest)" "length ct \<le> CHUNK_MAX_WIRE_CIPHERTEXT"
  obtains i b where "read_frame st = Inr (ct, st\<lparr>inner := i, buf := b\<rparr>)" "carries (st\<lparr>inner := i, buf := b\<rparr>) rest"
proof -
  let ?d = "to_le_bytes (length ct) @ ct @ rest" and ?n = "CHUNK_FRAME_LEN_FIELD + length ct"
  have len: "CHUNK_FRAME_LEN_FIELD \<le> length ?d" "?n \<le> length ?d" by (simp_all add: CHUNK_FRAME_LEN_FIELD_def)
  have small: "length ct < 2 ^ 32"
    using assms(2) by (simp add: CHUNK_MAX_WIRE_CIPHERTEXT_def CHUNK_PLAINTEXT_SIZE_def GCM_TAG_LEN_def)
  obtain b i where 1: "fill CHUNK_FRAME_LEN_FIELD (buf st) (inner st) = Filled b i"
    "carries (st\<lparr>inner := i, buf := b\<rparr>) ?d" "take CHUNK_FRAME_LEN_FIELD b = take CHUNK_FRAME_LEN_FIELD ?d"
    using fill_carries [OF assms(1) len(1)] by blast
  from 1(3) small have dcl: "from_le_bytes (take CHUNK_FRAME_LEN_FIELD b) = length ct"
    by (simp add: CHUNK_FRAME_LEN_FIELD_def)
  obtain b' i' where 2: "fill ?n b i = Filled b' i'" "carries (st\<lparr>inner := i', buf := b'\<rparr>) ?d" "?n \<le> length b'"
    "take ?n b' = take ?n ?d"
    using fill_carries [OF 1(2) len(2)] by (simp, blast)
  have "take (length ct) (drop CHUNK_FRAME_LEN_FIELD b') = drop CHUNK_FRAME_LEN_FIELD (take ?n b')"
    by (simp add: drop_take)
  also have "\<dots> = ct" unfolding 2(4) by (simp add: CHUNK_FRAME_LEN_FIELD_def)
  finally have "read_frame st = Inr (ct, st\<lparr>inner := i', buf := drop ?n b'\<rparr>)"
    using assms(2) by (simp add: read_frame_def 1(1) dcl 2(1))
  moreover have "carries (st\<lparr>inner := i', buf := drop ?n b'\<rparr>) rest"
    using carries_drop [OF 2(2,3)] by (simp add: CHUNK_FRAME_LEN_FIELD_def)
  ultimately show ?thesis by (rule that)
qed

text \<open>What is left to deliver of a plaintext.\<close>

definition wanted :: "decrypt_state \<Rightarrow> bytes \<Rightarrow> bytes" where
  "wanted st d = (case take_bytes st of None \<Rightarrow> drop (skip_bytes st) d | Some n \<Rightarrow> take n (drop (skip_bytes st) d))"

lemma wanted_update:
  "wanted (st\<lparr>inner := i, buf := c, chunk_index := n, emitted_final := fin\<rparr>) d = wanted st d"
  by (cases "take_bytes st") (simp_all add: wanted_def)

lemma trim_chunk_wanted:
  assumes "trim_chunk w st = (b, st')"
  shows "wanted st (w @ d) = b @ wanted st' d"
    and "take_bytes st = Some n \<Longrightarrow> take_bytes st' = Some (n - (length w - skip_bytes st))"
    and "take_bytes st = None \<Longrightarrow> take_bytes st' = None"
    and "skip_bytes st' = skip_bytes st - length w"
  using assms by (auto simp: trim_chunk_def Let_def wanted_def min_def split: option.splits if_splits)

lemma trim_chunk_fields:
  assumes "trim_chunk w st = (b, st')"
  shows "inner st' = inner st" "buf st' = buf st" "dec_key st' = dec_key st" "header_done st' = header_done st"
    "base_iv st' = base_iv st" "chunk_index st' = chunk_index st" "expected_final_index st' = expected_final_index st"
    "emitted_final st' = emitted_final st"
  using assms by (auto simp: trim_chunk_def Let_def split: option.splits)

lemma decrypt_round_frame:
  assumes "aead_ok cry" "length (base_iv st) = IV_LEN" "length w \<le> CHUNK_PLAINTEXT_SIZE"
    and "header_done st" "\<not> emitted_final st" "take_bytes st \<noteq> Some 0" "chunk_index st + 1 < 2 ^ 32"
    and "carries st (frame cry (dec_key st) (base_iv st) (chunk_index st) (chunk_index st = expected_final_index st) w @ rest)"
  obtains b i c st' where "decrypt_round cry st = Yields b st'"
    "trim_chunk w (st\<lparr>inner := i, buf := c, chunk_index := chunk_index st + 1,
        emitted_final := (chunk_index st = expected_final_index st)\<rparr>) = (b, st')"
    "carries st' rest"
proof -
  let ?fin = "chunk_index st = expected_final_index st"
  obtain ct where ct: "aead_encrypt cry (dec_key st) (chunk_nonce (base_iv st) (chunk_index st)) (chunk_aad (chunk_index st) ?fin) w = Some ct"
    "length ct = length w + GCM_TAG_LEN"
    "aead_decrypt cry (dec_key st) (chunk_nonce (base_iv st) (chunk_index st)) (chunk_aad (chunk_index st) ?fin) ct = Some w"
    using aead_okD [OF assms(1-3)] by blast
  have f: "frame cry (dec_key st) (base_iv st) (chunk_index st) ?fin w = to_le_bytes (length ct) @ ct"
    unfolding frame_def by (simp only: ct option.sel)
  have "length ct \<le> CHUNK_MAX_WIRE_CIPHERTEXT" using ct(2) assms(3) by (simp add: CHUNK_MAX_WIRE_CIPHERTEXT_def)
  moreover from assms(8) f have "carries st (to_le_bytes (length ct) @ ct @ rest)" by simp
  ultimately obtain i c where r: "read_frame st = Inr (ct, st\<lparr>inner := i, buf := c\<rparr>)"
    "carries (st\<lparr>inner := i, buf := c\<rparr>) rest"
    using read_frame_carries by blast
  obtain b st' where t: "trim_chunk w (st\<lparr>inner := i, buf := c, chunk_index := chunk_index st + 1, emitted_final := ?fin\<rparr>) = (b, st')"
    by (rule prod.exhaust)
  have "decrypt_chunk cry (dec_key st) (base_iv st) (chunk_index st) ?fin ct = Inr w"
    using ct(2,3) by (simp add: decrypt_chunk_def)
  then have "decrypt_round cry st = Yields b st'"
    using assms(4-7) r(1) t by (simp add: decrypt_round_def read_header_def checked_succ_u32_def)
  moreover have "carries st' rest"
    using r(2) by (simp add: carries_def trim_chunk_fields [OF t])
  ultimately show ?thesis using t by (intro that)
qed

lemma collect_step:
  "decrypt_round cry st = Yields b st' \<Longrightarrow> try_collect (decrypt_stream_from_state cry st) =
     (case try_collect (decrypt_stream_from_state cry st') of Inl e \<Rightarrow> Inl e | Inr bs \<Rightarrow> Inr (b @ bs))"
  by (subst decrypt_stream_from_state.simps) (simp split: sum.split)

lemma collect_ended: "decrypt_round cry st = Ended \<Longrightarrow> try_collect (decrypt_stream_from_state cry st) = Inr []"
  by (subst decrypt_stream_from_state.simps) simp

lemma collect_failing: "decrypt_round cry st = Failing e \<Longrightarrow> try_collect (decrypt_stream_from_state cry st) = Inl e"
  by (subst decrypt_stream_from_state.simps) simp

lemma done_ended:
  "take_bytes st = Some 0 \<or> (header_done st \<and> emitted_final st) \<Longrightarrow> decrypt_round cry st = Ended"
  by (auto simp: decrypt_round_def read_header_def)

text \<open>The chunks in front of the reader either reach the final one or hold all that is still wanted.\<close>

definition enough :: "decrypt_state \<Rightarrow> bytes list \<Rightarrow> bool" where
  "enough st ws \<longleftrightarrow> take_bytes st = Some 0 \<or> (emitted_final st \<and> ws = []) \<or>
     (\<not> emitted_final st \<and> ws \<noteq> [] \<and> chunk_index st + length ws = Suc (expected_final_index st)) \<or>
     (\<not> emitted_final st \<and> (\<exists>n. take_bytes st = Some n \<and> skip_bytes st + n \<le> length (concat ws))
        \<and> chunk_index st + length ws \<le> expected_final_index st)"

lemma enough_step:
  assumes "enough st (w # ws)" "take_bytes st \<noteq> Some 0" "\<not> emitted_final st"
    and "trim_chunk w (st\<lparr>inner := i, buf := c, chunk_index := chunk_index st + 1,
        emitted_final := (chunk_index st = expected_final_index st)\<rparr>) = (b, st')"
  shows "enough st' ws"
proof (cases "chunk_index st + length (w # ws) = Suc (expected_final_index st)")
  case True
  with trim_chunk_fields [OF assms(4)] show ?thesis by (auto simp: enough_def)
next
  case False
  with assms(1-3) obtain n where n: "take_bytes st = Some n" "skip_bytes st + n \<le> length w + length (concat ws)"
    "chunk_index st + length (w # ws) \<le> expected_final_index st"
    by (auto simp: enough_def)
  have "take_bytes st' = Some (n - (length w - skip_bytes st))" "skip_bytes st' = skip_bytes st - length w"
    using trim_chunk_wanted(2) [OF assms(4), of n] trim_chunk_wanted(4) [OF assms(4)] n(1) by simp_all
  moreover have "(skip_bytes st - length w) + (n - (length w - skip_bytes st)) \<le> length (concat ws) \<or> n - (length w - skip_bytes st) = 0"
    using n(2) by linarith
  ultimately show ?thesis using n(3) trim_chunk_fields [OF assms(4)] by (auto simp: enough_def)
qed

lemma decode_frames:
  assumes "aead_ok cry" "length (base_iv st) = IV_LEN" "header_done st"
    and "\<And>w. w \<in> set ws \<Longrightarrow> length w \<le> CHUNK_PLAINTEXT_SIZE" "chunk_index st + length ws < 2 ^ 32"
    and "carries st (frames_at cry (dec_key st) (base_iv st) (expected_final_index st) (chunk_index st) ws @ rest)"
    and "enough st ws"
  shows "try_collect (decrypt_stream_from_state cry st) = Inr (wanted st (concat ws))"
  using assms(2-)
proof (induction ws arbitrary: st)
  case Nil
  then have "decrypt_round cry st = Ended" "wanted st [] = []"
    by (auto simp: enough_def wanted_def split: option.split intro!: done_ended)
  then show ?case by (simp add: collect_ended)
next
  case (Cons w ws)
  show ?case
  proof (cases "take_bytes st = Some 0")
    case True
    then have "decrypt_round cry st = Ended" "wanted st (concat (w # ws)) = []"
      by (auto simp: wanted_def intro!: done_ended)
    then show ?thesis by (simp add: collect_ended)
  next
    case False
    with Cons.prems(6) have nf: "\<not> emitted_final st" by (auto simp: enough_def)
    let ?rest = "frames_at cry (dec_key st) (base_iv st) (expected_final_index st) (Suc (chunk_index st)) ws @ rest"
    have "length w \<le> CHUNK_PLAINTEXT_SIZE" "chunk_index st + 1 < 2 ^ 32" using Cons.prems(3,4) by simp_all
    moreover have "carries st (frame cry (dec_key st) (base_iv st) (chunk_index st) (chunk_index st = expected_final_index st) w @ ?rest)"
      using Cons.prems(5) by simp
    ultimately obtain b i c st' where r: "decrypt_round cry st = Yields b st'"
      "trim_chunk w (st\<lparr>inner := i, buf := c, chunk_index := chunk_index st + 1,
        emitted_final := (chunk_index st = expected_final_index st)\<rparr>) = (b, st')" "carries st' ?rest"
      using decrypt_round_frame [OF assms(1) Cons.prems(1) _ Cons.prems(2) nf False] by metis
    note f = trim_chunk_fields [OF r(2), simplified]
    have "try_collect (decrypt_stream_from_state cry st') = Inr (wanted st' (concat ws))"
      by (rule Cons.IH) (use Cons.prems r(3) f enough_step [OF Cons.prems(6) False nf r(2)] in auto)
    moreover have "wanted st (concat (w # ws)) = b @ wanted st' (concat ws)"
      using trim_chunk_wanted(1) [OF r(2), of "concat ws"] by (simp add: wanted_update)
    ultimately show ?thesis by (simp add: collect_step [OF r(1)])
  qed
qed

section \<open>Truncation\<close>

lemma read_frame_truncated:
  assumes "carries st d" "d = take n (to_le_bytes (length ct) @ ct)" "n < 4 + length ct" "length ct \<le> CHUNK_MAX_WIRE_CIPHERTEXT"
  shows "\<exists>e. read_frame st = Inl e"
proof (cases "n < CHUNK_FRAME_LEN_FIELD")
  case True
  with assms(1-3) have "fill CHUNK_FRAME_LEN_FIELD (buf st) (inner st) = StreamEnded"
    by (intro fill_carries_short [OF assms(1)]) simp
  then show ?thesis by (simp add: read_frame_def)
next
  case False
  have small: "length ct < 2 ^ 32"
    using assms(4) by (simp add: CHUNK_MAX_WIRE_CIPHERTEXT_def CHUNK_PLAINTEXT_SIZE_def GCM_TAG_LEN_def)
  have d: "length d = n" "take 4 d = to_le_bytes (length ct)"
    using False assms(2,3) by (simp_all add: CHUNK_FRAME_LEN_FIELD_def min_def)
  have "CHUNK_FRAME_LEN_FIELD \<le> length d" using d False by simp
  then obtain b i where 1: "fill CHUNK_FRAME_LEN_FIELD (buf st) (inner st) = Filled b i"
    "carries (st\<lparr>inner := i, buf := b\<rparr>) d" "take CHUNK_FRAME_LEN_FIELD b = take CHUNK_FRAME_LEN_FIELD d"
    using fill_carries [OF assms(1)] by blast
  then have dcl: "from_le_bytes (take CHUNK_FRAME_LEN_FIELD b) = length ct"
    using d small by (simp add: CHUNK_FRAME_LEN_FIELD_def)
  have "fill (CHUNK_FRAME_LEN_FIELD + length ct) b i = StreamEnded"
    using fill_carries_short [OF 1(2)] d assms(3) by (simp add: CHUNK_FRAME_LEN_FIELD_def)
  then show ?thesis using assms(4) by (simp add: read_frame_def 1(1) dcl)
qed

lemma decode_truncated:
  assumes "aead_ok cry" "length (base_iv st) = IV_LEN" "header_done st" "take_bytes st = None" "\<not> emitted_final st"
    and "\<And>w. w \<in> set ws \<Longrightarrow> length w \<le> CHUNK_PLAINTEXT_SIZE" "chunk_index st + length ws < 2 ^ 32"
    and "ws \<noteq> []" "chunk_index st + length ws = Suc (expected_final_index st)"
    and "carries st (take n (frames_at cry (dec_key st) (base_iv st) (expected_final_index st) (chunk_index st) ws))"
    and "n < length (frames_at cry (dec_key st) (base_iv st) (expected_final_index st) (chunk_index st) ws)"
  shows "\<exists>e. try_collect (decrypt_stream_from_state cry st) = Inl e"
  using assms(2-)
proof (induction ws arbitrary: st n)
  case Nil
  then show ?case by simp
next
  case (Cons w ws)
  let ?fin = "chunk_index st = expected_final_index st"
  let ?fr = "frame cry (dec_key st) (base_iv st) (chunk_index st) ?fin w"
  let ?rest = "frames_at cry (dec_key st) (base_iv st) (expected_final_index st) (Suc (chunk_index st)) ws"
  have w: "length w \<le> CHUNK_PLAINTEXT_SIZE" "chunk_index st + 1 < 2 ^ 32" using Cons.prems(5,6) by simp_all
  have tk: "take_bytes st \<noteq> Some 0" using Cons.prems(3) by simp
  show ?case
  proof (cases "n < length ?fr")
    case True
    obtain ct where ct: "aead_encrypt cry (dec_key st) (chunk_nonce (base_iv st) (chunk_index st)) (chunk_aad (chunk_index st) ?fin) w = Some ct"
      "length ct = length w + GCM_TAG_LEN" using aead_okD [OF assms(1) Cons.prems(1) w(1)] by blast
    have f: "?fr = to_le_bytes (length ct) @ ct" unfolding frame_def by (simp only: ct option.sel)
    have "length ct \<le> CHUNK_MAX_WIRE_CIPHERTEXT" using ct(2) w(1) by (simp add: CHUNK_MAX_WIRE_CIPHERTEXT_def)
    moreover have "carries st (take n ?fr)" using Cons.prems(9) True by simp
    ultimately obtain e where "read_frame st = Inl e"
      using read_frame_truncated [of st _ n ct] True f by auto
    then have "decrypt_round cry st = Failing e"
      using Cons.prems(2,4) tk by (simp add: decrypt_round_def read_header_def)
    then show ?thesis using collect_failing by blast
  next
    case False
    then have n: "n - length ?fr < length ?rest" using Cons.prems(10) by simp
    then have ws: "ws \<noteq> []" by auto
    have "carries st (?fr @ take (n - length ?fr) ?rest)" using Cons.prems(9) False by simp
    then obtain b i c st' where r: "decrypt_round cry st = Yields b st'"
      "trim_chunk w (st\<lparr>inner := i, buf := c, chunk_index := chunk_index st + 1, emitted_final := ?fin\<rparr>) = (b, st')"
      "carries st' (take (n - length ?fr) ?rest)"
      using decrypt_round_frame [OF assms(1) Cons.prems(1) w(1) Cons.prems(2,4) tk w(2)] by metis
    note f = trim_chunk_fields [OF r(2), simplified]
    have "take_bytes st' = None" using trim_chunk_wanted(3) [OF r(2)] Cons.prems(3) by simp
    moreover have "\<not> ?fin" using ws Cons.prems(8) by (cases ws) auto
    ultimately have "\<exists>e. try_collect (decrypt_stream_from_state cry st') = Inl e"
      using Cons.prems r(3) f ws n by (intro Cons.IH [of st' "n - length ?fr"]) auto
    then show ?thesis by (auto simp: collect_step [OF r(1)])
  qed
qed

section \<open>Whole objects\<close>

lemma length_magic [simp]: "length CHUNK_MAGIC = 4"
  by (simp add: CHUNK_MAGIC_def)

lemma read_header_carries:
  assumes "carries st (CHUNK_MAGIC @ iv @ d)" "length iv = IV_LEN" "\<not> header_done st"
  obtains i c where "read_header st = Inr (st\<lparr>inner := i, buf := c, header_done := True, base_iv := iv\<rparr>)"
    "carries (st\<lparr>inner := i, buf := c, header_done := True, base_iv := iv\<rparr>) d"
proof -
  let ?d = "CHUNK_MAGIC @ iv @ d"
  have "CHUNK_HEADER_LEN \<le> length ?d" using assms(2) by (simp add: CHUNK_HEADER_LEN_def IV_LEN_def)
  then obtain b i where b: "fill CHUNK_HEADER_LEN (buf st) (inner st) = Filled b i" "carries (st\<lparr>inner := i, buf := b\<rparr>) ?d"
    "CHUNK_HEADER_LEN \<le> length b" "take CHUNK_HEADER_LEN b = take CHUNK_HEADER_LEN ?d"
    using fill_carries [OF assms(1)] by blast
  have "take 4 b = take 4 (take CHUNK_HEADER_LEN b)" "take IV_LEN (drop 4 b) = drop 4 (take CHUNK_HEADER_LEN b)"
    by (simp_all add: CHUNK_HEADER_LEN_def IV_LEN_def drop_take)
  then have "take 4 b = CHUNK_MAGIC" "take IV_LEN (drop 4 b) = iv"
    unfolding b(4) using assms(2) by (simp_all add: CHUNK_HEADER_LEN_def IV_LEN_def)
  then have "read_header st = Inr (st\<lparr>inner := i, buf := drop CHUNK_HEADER_LEN b, header_done := True, base_iv := iv\<rparr>)"
    using assms(3) b(1) by (simp add: read_header_def)
  moreover have "carries (st\<lparr>inner := i, buf := drop CHUNK_HEADER_LEN b, header_done := True, base_iv := iv\<rparr>) d"
    using carries_drop [OF b(2,3)] assms(2) by (simp add: carries_def CHUNK_HEADER_LEN_def IV_LEN_def)
  ultimately show ?thesis by (rule that)
qed

lemma decrypt_after_header:
  assumes "read_header st = Inr st'" "header_done st'" "take_bytes st' = take_bytes st"
  shows "decrypt_stream_from_state cry st = decrypt_stream_from_state cry st'"
proof -
  have "decrypt_round cry st = decrypt_round cry st'"
    using assms by (simp add: decrypt_round_def read_header_def [of st'])
  then show ?thesis by (subst (1 2) decrypt_stream_from_state.simps) simp
qed

lemma decode_wire:
  assumes "aead_ok cry" "length iv = IV_LEN" "length (body_windows d) < 2 ^ 32" "concat ps = wire cry key iv d"
  shows "try_collect (decrypt_stream_from_state cry
    (chunked_decrypt_state (map Inr ps) key (length (body_windows d) - 1) 0 None)) = Inr d"
proof -
  let ?f = "length (body_windows d) - 1"
  let ?st = "chunked_decrypt_state (map Inr ps) key ?f 0 None"
  have "carries ?st (CHUNK_MAGIC @ iv @ frames_at cry key iv ?f 0 (body_windows d))" "\<not> header_done ?st"
    using assms(4) by (simp_all add: carries_def chunked_decrypt_state_def wire_def)
  then obtain i c where h: "read_header ?st = Inr (?st\<lparr>inner := i, buf := c, header_done := True, base_iv := iv\<rparr>)"
    "carries (?st\<lparr>inner := i, buf := c, header_done := True, base_iv := iv\<rparr>) (frames_at cry key iv ?f 0 (body_windows d))"
    using read_header_carries [OF _ assms(2)] by blast
  let ?st' = "?st\<lparr>inner := i, buf := c, header_done := True, base_iv := iv\<rparr>"
  have "try_collect (decrypt_stream_from_state cry ?st') = Inr (wanted ?st' (concat (body_windows d)))"
    by (rule decode_frames [where rest = "[]"])
      (use assms h(2) length_body_window in \<open>auto simp: chunked_decrypt_state_def enough_def Suc_le_eq\<close>)
  moreover have "decrypt_stream_from_state cry ?st = decrypt_stream_from_state cry ?st'"
    by (rule decrypt_after_header [OF h(1)]) simp_all
  ultimately show ?thesis by (simp add: wanted_def chunked_decrypt_state_def)
qed

lemma length_windows: "d \<noteq> [] \<Longrightarrow> length (windows d) = (length d - 1) div CHUNK_PLAINTEXT_SIZE + 1"
proof (induction d rule: windows.induct)
  case (1 d)
  show ?case
  proof (cases "length d \<le> CHUNK_PLAINTEXT_SIZE")
    case True
    with 1 have "length d - 1 < CHUNK_PLAINTEXT_SIZE" by (cases d) auto
    with True 1 show ?thesis by (simp add: windows_short)
  next
    case False
    then have "length (windows (drop CHUNK_PLAINTEXT_SIZE d)) = (length d - CHUNK_PLAINTEXT_SIZE - 1) div CHUNK_PLAINTEXT_SIZE + 1"
      using 1 by simp
    moreover have "(length d - 1) div CHUNK_PLAINTEXT_SIZE = Suc ((length d - CHUNK_PLAINTEXT_SIZE - 1) div CHUNK_PLAINTEXT_SIZE)"
      using False le_div_geq [of CHUNK_PLAINTEXT_SIZE "length d - 1"] by (simp add: diff_commute)
    ultimately show ?thesis using 1 by (simp add: windows_Cons)
  qed
qed

definition max_body :: nat where "max_body = (2 ^ 32 - 1) * CHUNK_PLAINTEXT_SIZE"

lemma body_windows_bounded:
  assumes "length d \<le> max_body"
  shows "length (body_windows d) < 2 ^ 32"
    and "final_chunk_index_for_plaintext_size (length d) = length (body_windows d) - 1"
proof -
  have l: "(length d - 1) div CHUNK_PLAINTEXT_SIZE < 2 ^ 32 - 1"
    using assms by (intro less_mult_imp_div_less) (simp add: max_body_def CHUNK_PLAINTEXT_SIZE_def)
  then show "length (body_windows d) < 2 ^ 32"
    by (cases "d = []") (simp_all add: body_windows_def length_windows)
  from l show "final_chunk_index_for_plaintext_size (length d) = length (body_windows d) - 1"
    by (cases "d = []") (simp_all add: body_windows_def length_windows final_chunk_index_for_plaintext_size_def)
qed

end
