(* ===== verification/EncryptedStorage.thy ===== *)
theory EncryptedStorage
  imports EncryptionCorrect
begin

text \<open>
  The encrypting backend over the filesystem backend: an object written through any of the write
  operations, under any encryption configuration, is read back whole and by ranges under every
  configuration that knows its key; a truncated object is refused; and the nonces of one object are
  distinct.
\<close>

section \<open>Writes\<close>

datatype write_path = Whole bytes | FromFile bytes | FromParts "bytes list" | FromChunks "bytes list"

fun body_of :: "write_path \<Rightarrow> bytes" where
  "body_of (Whole d) = d"
| "body_of (FromFile d) = d"
| "body_of (FromParts ps) = concat ps"
| "body_of (FromChunks cs) = concat cs"

fun enc_write where
  "enc_write cry cfg env b p f (Whole d) m s = enc_put_passthrough cry cfg env b p f d m s"
| "enc_write cry cfg env b p f (FromFile d) m s = enc_put_passthrough_file cry cfg env b p f d m s"
| "enc_write cry cfg env b p f (FromParts ps) m s = enc_put_passthrough_parts cry cfg env b p f ps m s"
| "enc_write cry cfg env b p f (FromChunks cs) m s = enc_put_passthrough_chunked cry cfg env b p f cs m s"

text \<open>The limits of the cipher for one message, and of the index of a chunk.\<close>

fun writable :: "write_path \<Rightarrow> bool" where
  "writable (Whole d) \<longleftrightarrow> length d \<le> 2 ^ 36 - 32"
| "writable wp \<longleftrightarrow> length (body_of wp) \<le> max_body"

text \<open>Whether a write ends up encrypted: the write of chunks does not look at the write mode.\<close>

definition stored_encrypted :: "encryption_config \<Rightarrow> write_path \<Rightarrow> bool" where
  "stored_encrypted cfg wp \<longleftrightarrow> enc_key cfg \<noteq> None \<and> (write_mode cfg = Encrypt \<or> (\<exists>cs. wp = FromChunks cs))"

definition unmarked :: "file_metadata \<Rightarrow> bool" where
  "unmarked m \<longleftrightarrow> user_metadata m ENCRYPTION_MARKER_KEY = None \<and> user_metadata m ENCRYPTION_KEY_ID_KEY = None"

text \<open>The three forms in which a body can be on disk.\<close>

definition stored_plain :: "file_metadata \<Rightarrow> bytes \<Rightarrow> data_file \<Rightarrow> bool" where
  "stored_plain m d file \<longleftrightarrow> fdata file = d \<and> fxattr file = Some m"

definition stored_blob :: "crypto \<Rightarrow> encryption_config \<Rightarrow> file_metadata \<Rightarrow> bytes \<Rightarrow> data_file \<Rightarrow> bool" where
  "stored_blob cry cfg m d file \<longleftrightarrow> (\<exists>k iv c. enc_key cfg = Some k \<and> length iv = IV_LEN \<and> GCM_TAG_LEN \<le> length c
     \<and> aead_decrypt cry k iv [] c = Some d \<and> fdata file = iv @ c \<and> fxattr file = Some (mark_encrypted (key_id cfg) m))"

definition stored_chunked :: "crypto \<Rightarrow> encryption_config \<Rightarrow> file_metadata \<Rightarrow> bytes \<Rightarrow> data_file \<Rightarrow> bool" where
  "stored_chunked cry cfg m d file \<longleftrightarrow> (\<exists>k iv. enc_key cfg = Some k \<and> length iv = IV_LEN \<and> length d \<le> max_body
     \<and> fdata file = wire cry k iv d \<and> fxattr file = Some (mark_chunked_encrypted (key_id cfg) m))"

lemma put_object_file_works:
  assumes "\<And>t. sched env t = None" "b \<in> set (bucket_dirs s)"
  shows "put_object_file env b path d m s
    = (Inr (), write_file path \<lparr>fdata = d, fxattr = Some m, fmtime = clock s\<rparr> (next_tick s))"
  using assms by (simp add: put_object_file_def storage_op_def next_tick_def)

lemma lookup_written: "lookup_file (write_file path file s) path = Some file"
  by (simp add: lookup_file_def write_file_def update_conv')

lemma fresh_iv_length: "aead_ok cry \<Longrightarrow> length (fresh_iv cry i) = IV_LEN"
  by (simp add: aead_ok_def)

lemma encode_file_ok:
  assumes "aead_ok cry" "length d \<le> max_body"
  shows "encode_file cry k (fresh_iv cry i) d = Inr (wire cry k (fresh_iv cry i) d)"
  using encode_file_wire [OF assms(1) fresh_iv_length [OF assms(1)]] body_windows_bounded(1) [OF assms(2)] by simp

lemma encrypt_ok:
  assumes "aead_ok cry" "length d \<le> 2 ^ 36 - 32"
  obtains c where "encrypt cry k (fresh_iv cry i) d = Inr (fresh_iv cry i @ c)" "GCM_TAG_LEN \<le> length c"
    "aead_decrypt cry k (fresh_iv cry i) [] c = Some d"
proof -
  obtain c where "aead_encrypt cry k (fresh_iv cry i) [] d = Some c" "length c = length d + GCM_TAG_LEN"
    "aead_decrypt cry k (fresh_iv cry i) [] c = Some d"
    using assms fresh_iv_length [OF assms(1)] unfolding aead_ok_def by blast
  then show ?thesis by (intro that) (simp_all add: encrypt_def)
qed

lemmas inner_puts = put_passthrough_def put_passthrough_file_def put_passthrough_parts_def put_passthrough_chunked_def

lemma file_write_stores:
  assumes "aead_ok cry" "\<And>t. sched env t = None" "b \<in> set (bucket_dirs s)" "length d \<le> max_body"
  shows "\<exists>s' file. enc_put_passthrough_file cry cfg env b p f d m s = (Inr (), s')
    \<and> lookup_file s' (passthrough_path b p f) = Some file
    \<and> (if enc_key cfg \<noteq> None \<and> write_mode cfg = Encrypt then stored_chunked cry cfg m d file else stored_plain m d file)"
proof (cases "write_mode cfg = PassThrough \<or> enc_key cfg = None")
  case True
  then have "enc_put_passthrough_file cry cfg env b p f d m s = put_passthrough_file env b p f d m s"
    by (auto simp: enc_put_passthrough_file_def)
  with True show ?thesis
    by (auto simp: inner_puts put_object_file_works [OF assms(2,3)] lookup_written stored_plain_def)
next
  case False
  then obtain k where k: "enc_key cfg = Some k" "write_mode cfg = Encrypt" by (cases "write_mode cfg") auto
  then show ?thesis
    using encode_file_ok [OF assms(1,4), of k "tick s"] fresh_iv_length [OF assms(1)] assms(4)
    by (auto simp: enc_put_passthrough_file_def inner_puts put_object_file_works [OF assms(2,3)] lookup_written stored_chunked_def)
qed

lemma enc_write_stores:
  assumes "aead_ok cry" "\<And>t. sched env t = None" "b \<in> set (bucket_dirs s)" "writable wp"
  shows "\<exists>s' file. enc_write cry cfg env b p f wp m s = (Inr (), s')
    \<and> lookup_file s' (passthrough_path b p f) = Some file
    \<and> (if stored_encrypted cfg wp then stored_blob cry cfg m (body_of wp) file \<or> stored_chunked cry cfg m (body_of wp) file
       else stored_plain m (body_of wp) file)"
proof (cases wp)
  case (Whole d)
  show ?thesis
  proof (cases "enc_key cfg \<noteq> None \<and> write_mode cfg = Encrypt")
    case True
    then obtain k where k: "enc_key cfg = Some k" "write_mode cfg = Encrypt" by auto
    have "length d \<le> 2 ^ 36 - 32" using assms(4) Whole by simp
    then obtain c where c: "encrypt cry k (fresh_iv cry (tick s)) d = Inr (fresh_iv cry (tick s) @ c)" "GCM_TAG_LEN \<le> length c"
      "aead_decrypt cry k (fresh_iv cry (tick s)) [] c = Some d" using encrypt_ok [OF assms(1)] by blast
    have "enc_put_passthrough cry cfg env b p f d m s
        = put_passthrough env b p f (fresh_iv cry (tick s) @ c) (mark_encrypted (key_id cfg) m) s"
      by (simp add: enc_put_passthrough_def encrypt_if_enabled_def k c(1))
    then show ?thesis using k c fresh_iv_length [OF assms(1)] Whole
      by (auto simp: inner_puts put_object_file_works [OF assms(2,3)] lookup_written stored_encrypted_def stored_blob_def)
  next
    case False
    then have "enc_put_passthrough cry cfg env b p f d m s = put_passthrough env b p f d m s"
      by (cases "write_mode cfg") (auto simp: enc_put_passthrough_def encrypt_if_enabled_def)
    with False Whole show ?thesis
      by (auto simp: inner_puts put_object_file_works [OF assms(2,3)] lookup_written stored_encrypted_def stored_plain_def)
  qed
next
  case (FromFile d)
  with assms(4) file_write_stores [OF assms(1-3), of d cfg p f m] show ?thesis
    by (auto simp: stored_encrypted_def split: if_splits)
next
  case (FromParts ps)
  show ?thesis
  proof (cases "write_mode cfg = PassThrough \<or> enc_key cfg = None")
    case True
    with FromParts show ?thesis
      by (auto simp: enc_put_passthrough_parts_def inner_puts put_object_file_works [OF assms(2,3)] lookup_written
          stored_encrypted_def stored_plain_def)
  next
    case False
    with FromParts assms(4) file_write_stores [OF assms(1-3), of "concat ps" cfg p f m] show ?thesis
      by (cases "write_mode cfg") (auto simp: enc_put_passthrough_parts_def stored_encrypted_def split: if_splits)
  qed
next
  case (FromChunks cs)
  show ?thesis
  proof (cases "enc_key cfg")
    case None
    with FromChunks show ?thesis
      by (auto simp: enc_put_passthrough_chunked_def inner_puts put_object_file_works [OF assms(2,3)] lookup_written
          stored_encrypted_def stored_plain_def)
  next
    case (Some k)
    with FromChunks assms(4) encode_file_ok [OF assms(1), of "concat cs" k "tick s"] fresh_iv_length [OF assms(1)] show ?thesis
      by (auto simp: enc_put_passthrough_chunked_def encode_pieces_file inner_puts put_object_file_works [OF assms(2,3)]
          lookup_written stored_encrypted_def stored_chunked_def)
  qed
qed

section \<open>Reads\<close>

lemmas marker_defs = ENCRYPTION_MARKER_KEY_def ENCRYPTION_MARKER_VALUE_def CHUNK_MARKER_VALUE_def ENCRYPTION_KEY_ID_KEY_def

lemma marked:
  assumes "unmarked m"
  shows "\<not> is_encrypted m" "\<not> is_chunked_encrypted m"
    "is_encrypted (mark_encrypted kid m)" "\<not> is_chunked_encrypted (mark_encrypted kid m)"
    "is_chunked_encrypted (mark_chunked_encrypted kid m)"
    "stamped_key_id (mark_encrypted kid m) = kid" "stamped_key_id (mark_chunked_encrypted kid m) = kid"
    "file_size (mark_chunked_encrypted kid m) = file_size m"
  using assms by (auto simp: unmarked_def is_encrypted_def is_chunked_encrypted_def mark_encrypted_def mark_chunked_encrypted_def
      stamp_key_id_def stamped_key_id_def marker_defs split: option.splits)

lemma inner_reads:
  assumes "\<And>t. sched env t = None" "lookup_file s (passthrough_path b p f) = Some file"
  shows "get_passthrough env b p f s = (Inr (fdata file), next_tick s)"
    and "get_passthrough_stream env b p f s = (Inr (fdata file), next_tick s)"
    and "fxattr file = Some m \<Longrightarrow> get_passthrough_metadata env b p f s = (Inr m, next_tick s)"
    and "start \<le> Suc e \<Longrightarrow> e < u64_max \<Longrightarrow> get_passthrough_stream_range env b p f start e s
      = (Inr (take (Suc e - start) (drop start (fdata file)), Suc e - start), next_tick s)"
proof -
  show "get_passthrough env b p f s = (Inr (fdata file), next_tick s)"
    "get_passthrough_stream env b p f s = (Inr (fdata file), next_tick s)"
    "fxattr file = Some m \<Longrightarrow> get_passthrough_metadata env b p f s = (Inr m, next_tick s)"
    using assms by (simp_all add: get_passthrough_def get_passthrough_stream_def get_passthrough_metadata_def
        get_object_file_def get_object_metadata_def storage_op_def file_meta_def)
  assume "start \<le> Suc e" "e < u64_max"
  then have "int e - int start + 1 = int (Suc e - start)" "int (Suc e - start) < 2 ^ 64"
    by (simp_all add: u64_max_def of_nat_diff)
  then have "nat ((int e - int start + 1) mod 2 ^ 64) = Suc e - start" by (simp only: mod_pos_pos_trivial of_nat_0_le_iff nat_int)
  with assms show "get_passthrough_stream_range env b p f start e s
      = (Inr (take (Suc e - start) (drop start (fdata file)), Suc e - start), next_tick s)"
    by (simp add: get_passthrough_stream_range_def storage_op_def Let_def)
qed

lemma decrypt_blob:
  assumes "length iv = IV_LEN" "GCM_TAG_LEN \<le> length c" "aead_decrypt cry k iv [] c = Some d"
  shows "decrypt cry k (iv @ c) = Inr d"
  using assms by (simp add: decrypt_def IV_LEN_def GCM_TAG_LEN_def)

lemma concat_pieces: "aead_ok cry \<Longrightarrow> concat (pieces cry d) = d"
  by (simp add: aead_ok_def)

lemma read_back:
  assumes "aead_ok cry" "\<And>t. sched env t = None" "unmarked m" "file_size m = length d"
    and "lookup_file s (passthrough_path b p f) = Some file"
    and "stored_plain m d file \<or> stored_blob cry cfg m d file \<or> stored_chunked cry cfg m d file"
    and "\<And>k. enc_key cfg = Some k \<Longrightarrow> pick_decrypt_key cfg' (key_id cfg) = Inr k"
  shows "fst (enc_get_passthrough cry cfg' env b p f s) = Inr d"
proof -
  have lk: "lookup_file (next_tick s) (passthrough_path b p f) = Some file"
    "lookup_file (next_tick (next_tick s)) (passthrough_path b p f) = Some file" using assms(5) by simp_all
  note r = inner_reads(3) [OF assms(2,5)] inner_reads(1-3) [OF assms(2) lk(1)] inner_reads(2) [OF assms(2) lk(2)]
  from assms(6) show ?thesis
  proof (elim disjE)
    assume "stored_plain m d file"
    then show ?thesis
      using marked [OF assms(3)]
      by (simp add: r stored_plain_def enc_get_passthrough_def decrypt_if_needed_def)
  next
    assume "stored_blob cry cfg m d file"
    then obtain k iv c where st: "enc_key cfg = Some k" "length iv = IV_LEN" "GCM_TAG_LEN \<le> length c"
      "aead_decrypt cry k iv [] c = Some d" "fdata file = iv @ c" "fxattr file = Some (mark_encrypted (key_id cfg) m)"
      by (auto simp: stored_blob_def)
    then show ?thesis
      using marked [OF assms(3)] assms(7) [OF st(1)]
        decrypt_blob [OF st(2-4)]
      by (simp add: r enc_get_passthrough_def decrypt_if_needed_def)
  next
    assume "stored_chunked cry cfg m d file"
    then obtain k iv where st: "enc_key cfg = Some k" "length iv = IV_LEN" "length d \<le> max_body"
      "fdata file = wire cry k iv d" "fxattr file = Some (mark_chunked_encrypted (key_id cfg) m)"
      by (auto simp: stored_chunked_def)
    have "try_collect (decrypt_stream_from_state cry (chunked_decrypt_state (map Inr (pieces cry (wire cry k iv d))) k
        (length (body_windows d) - 1) 0 None)) = Inr d"
      by (rule decode_wire [OF assms(1) st(2) body_windows_bounded(1) [OF st(3)] concat_pieces [OF assms(1)]])
    then show ?thesis
      using marked [OF assms(3)] assms(7) [OF st(1)] st
        body_windows_bounded(2) [OF st(3)] assms(4)
      by (simp add: r enc_get_passthrough_def enc_get_passthrough_stream_def)
  qed
qed

text \<open>A cipher to instantiate the hypotheses with: the tag is constant.\<close>

definition sample_crypto :: crypto where
  "sample_crypto = \<lparr>aead_encrypt = (\<lambda>k n a m. Some (m @ replicate 16 0)),
     aead_decrypt = (\<lambda>k n a c. Some (take (length c - 16) c)), fresh_iv = (\<lambda>_. replicate 12 7), pieces = (\<lambda>d. [d])\<rparr>"

lemma sample_crypto_ok: "aead_ok sample_crypto"
  by (simp add: aead_ok_def sample_crypto_def IV_LEN_def GCM_TAG_LEN_def)

definition plain_env :: storage_env where
  "plain_env = \<lparr>sched = (\<lambda>_. None), unmanaged_digest = (\<lambda>_ _. []), dir_stat = (\<lambda>_. (0, 0))\<rparr>"

definition sample_disk :: storage where
  "sample_disk = \<lparr>data_files = [], bucket_dirs = [''b''], tick = 0, clock = 0\<rparr>"

definition old_config :: encryption_config where
  "old_config = \<lparr>enc_key = Some [1], key_id = Some ''old'', write_mode = Encrypt, legacy_key = None, legacy_key_id = None\<rparr>"

definition rotated_config :: encryption_config where
  "rotated_config = \<lparr>enc_key = Some [2], key_id = Some ''new'', write_mode = Encrypt,
     legacy_key = Some [1], legacy_key_id = Some ''old''\<rparr>"

definition sample_meta :: file_metadata where
  "sample_meta = new_passthrough 0 ''f'' ''sha'' ''md5'' 3 None"

lemma sample_facts:
  "sched plain_env t = None" "''b'' \<in> set (bucket_dirs sample_disk)" "unmarked sample_meta" "file_size sample_meta = 3"
  "enc_key old_config = Some k \<Longrightarrow> pick_decrypt_key rotated_config (key_id old_config) = Inr k"
  "writable (FromChunks [[1], [2, 3]])" "stored_encrypted old_config (FromChunks [[1], [2, 3]])"
  by (auto simp: plain_env_def sample_disk_def sample_meta_def new_passthrough_def unmarked_def old_config_def rotated_config_def
      pick_decrypt_key_def max_body_def CHUNK_PLAINTEXT_SIZE_def stored_encrypted_def)



section \<open>Ranges\<close>

lemma windows_drop: "windows (drop (j * CHUNK_PLAINTEXT_SIZE) d) = drop j (windows d)"
proof (induction j arbitrary: d)
  case (Suc j)
  have "windows (drop (Suc j * CHUNK_PLAINTEXT_SIZE) d) = drop j (windows (drop CHUNK_PLAINTEXT_SIZE d))"
    using Suc.IH [of "drop CHUNK_PLAINTEXT_SIZE d"] by (simp add: add.commute)
  also have "windows (drop CHUNK_PLAINTEXT_SIZE d) = tl (windows d)" by (cases "d = []") (simp_all add: windows_Cons)
  finally show ?case by (simp add: drop_Suc)
qed simp

lemma concat_drop_windows: "concat (drop j (windows d)) = drop (j * CHUNK_PLAINTEXT_SIZE) d"
  using windows_drop [of j d] concat_windows [of "drop (j * CHUNK_PLAINTEXT_SIZE) d"] by simp

lemma full_windows:
  assumes "w \<in> set (take j (windows d))" "j < length (windows d)"
  shows "length w = CHUNK_PLAINTEXT_SIZE"
  using assms
proof (induction j arbitrary: d)
  case (Suc j)
  then have d: "d \<noteq> []" by auto
  with Suc.prems have "windows (drop CHUNK_PLAINTEXT_SIZE d) \<noteq> []" by (auto simp: windows_Cons)
  then have "CHUNK_PLAINTEXT_SIZE < length d" by (metis windows_Nil drop_all not_le)
  moreover have "w = take CHUNK_PLAINTEXT_SIZE d \<or> w \<in> set (take j (windows (drop CHUNK_PLAINTEXT_SIZE d)))"
    "j < length (windows (drop CHUNK_PLAINTEXT_SIZE d))"
    using Suc.prems by (simp_all add: windows_Cons [OF d])
  ultimately show ?case using Suc.IH by auto
qed simp

lemma concat_take_windows: "concat (take j (windows d)) = take (j * CHUNK_PLAINTEXT_SIZE) d"
proof -
  have "concat (take j (windows d)) @ drop (j * CHUNK_PLAINTEXT_SIZE) d = d"
    by (metis concat_append append_take_drop_id concat_windows concat_drop_windows)
  then show ?thesis by (metis append_take_drop_id append_same_eq)
qed

text \<open>Cutting the frames of a body on the wire.\<close>

lemma drop_frames:
  assumes "aead_ok cry" "length iv = IV_LEN" "j < length (windows d)"
  shows "drop (j * CHUNK_FRAME_WIRE_LEN) (frames_at cry k iv f 0 (windows d)) = frames_at cry k iv f j (drop j (windows d))"
proof -
  have "frames_at cry k iv f 0 (windows d) = frames_at cry k iv f 0 (take j (windows d)) @ frames_at cry k iv f j (drop j (windows d))"
    using frames_at_append [of cry k iv f 0 "take j (windows d)" "drop j (windows d)"] assms(3) by simp
  moreover have "length (frames_at cry k iv f 0 (take j (windows d))) = j * CHUNK_FRAME_WIRE_LEN"
    using length_frames_at [OF assms(1,2), of "take j (windows d)"] full_windows assms(3) by simp
  ultimately show ?thesis by simp
qed

lemma take_frames:
  assumes "aead_ok cry" "length iv = IV_LEN" "i + n < length (windows d)"
  shows "take (n * CHUNK_FRAME_WIRE_LEN) (frames_at cry k iv f i (drop i (windows d)))
    = frames_at cry k iv f i (take n (drop i (windows d)))"
proof -
  let ?ws = "drop i (windows d)"
  have "frames_at cry k iv f i ?ws = frames_at cry k iv f i (take n ?ws) @ frames_at cry k iv f (i + n) (drop n ?ws)"
    using frames_at_append [of cry k iv f i "take n ?ws" "drop n ?ws"] assms(3) by (simp del: drop_drop)
  moreover have "length w = CHUNK_PLAINTEXT_SIZE" if "w \<in> set (take n ?ws)" for w
  proof -
    have "w \<in> set (take (i + n) (windows d))" using that by (auto simp: take_drop add.commute dest: in_set_dropD)
    then show ?thesis using assms(3) by (rule full_windows)
  qed
  then have "length (frames_at cry k iv f i (take n ?ws)) = n * CHUNK_FRAME_WIRE_LEN"
    using length_frames_at [OF assms(1,2), of "take n ?ws"] assms(3) by simp
  ultimately show ?thesis by simp
qed

lemma range_chunks:
  assumes "length d \<le> max_body" "start \<le> e" "e < length d"
  defines "i \<equiv> start div CHUNK_PLAINTEXT_SIZE" and "l \<equiv> e div CHUNK_PLAINTEXT_SIZE" and "f \<equiv> length (windows d) - 1"
  shows "d \<noteq> []" "length (windows d) = Suc f" "Suc f < 2 ^ 32" "i \<le> l" "l \<le> f"
    "i * CHUNK_PLAINTEXT_SIZE \<le> start" "e < Suc l * CHUNK_PLAINTEXT_SIZE" "body_windows d = windows d"
proof -
  show d: "d \<noteq> []" using assms(3) by auto
  then show b: "body_windows d = windows d" by (simp add: body_windows_def)
  show f: "length (windows d) = Suc f" using d by (simp add: f_def length_windows)
  show "Suc f < 2 ^ 32" using body_windows_bounded(1) [OF assms(1)] b f by simp
  show "i \<le> l" unfolding i_def l_def using assms(2) by (rule div_le_mono)
  have "e \<le> length d - 1" using assms(3) by linarith
  then have "l \<le> (length d - 1) div CHUNK_PLAINTEXT_SIZE" unfolding l_def by (rule div_le_mono)
  then show "l \<le> f" using d by (simp add: f_def length_windows)
  show "i * CHUNK_PLAINTEXT_SIZE \<le> start" unfolding i_def by (rule div_times_less_eq_dividend)
  have "e < Suc (e div CHUNK_PLAINTEXT_SIZE) * CHUNK_PLAINTEXT_SIZE"
    using dividend_less_div_times [of CHUNK_PLAINTEXT_SIZE e] by simp
  then show "e < Suc l * CHUNK_PLAINTEXT_SIZE" by (simp add: l_def)
qed

lemma decode_range:
  assumes "aead_ok cry" "length iv = IV_LEN" "length d \<le> max_body" "start \<le> e" "e < length d"
  defines "i \<equiv> start div CHUNK_PLAINTEXT_SIZE" and "l \<equiv> e div CHUNK_PLAINTEXT_SIZE" and "f \<equiv> length (windows d) - 1"
  assumes "concat ps = (if l < f then take ((Suc l - i) * CHUNK_FRAME_WIRE_LEN) else id)
      (drop (i * CHUNK_FRAME_WIRE_LEN) (frames_at cry k iv f 0 (windows d)))"
  shows "try_collect (decrypt_stream_from_state cry (chunked_decrypt_state_from_chunk (map Inr ps) k iv i f
      (start - i * CHUNK_PLAINTEXT_SIZE) (Some (e - start + 1)))) = Inr (take (Suc e - start) (drop start d))"
proof -
  note c = range_chunks [OF assms(3-5), folded i_def l_def f_def]
  let ?S = CHUNK_PLAINTEXT_SIZE
  define ws where "ws = (if l < f then take (Suc l - i) else id) (drop i (windows d))"
  let ?st = "chunked_decrypt_state_from_chunk (map Inr ps) k iv i f (start - i * ?S) (Some (e - start + 1))"
  have i: "i < length (windows d)" using c by linarith
  have "concat ps = frames_at cry k iv f i ws"
    using assms(9) c take_frames [OF assms(1,2), of i "Suc l - i" d k f] by (simp add: ws_def drop_frames [OF assms(1,2) i])
  then have car: "carries ?st (frames_at cry (dec_key ?st) (base_iv ?st) (expected_final_index ?st) (chunk_index ?st) ws @ [])"
    by (simp add: carries_def chunked_decrypt_state_from_chunk_def)
  have len: "length ws = (if l < f then Suc l - i else Suc f - i)" using c by (simp add: ws_def)
  have cw: "concat ws = (if l < f then take ((Suc l - i) * ?S) else id) (drop (i * ?S) d)"
    by (simp add: ws_def concat_drop_windows concat_take_windows [of _ "drop (i * ?S) d", unfolded windows_drop])
  have small: "length w \<le> ?S" if "w \<in> set ws" for w
    using that length_window [of w d] by (auto simp: ws_def dest!: in_set_takeD in_set_dropD split: if_splits)
  have mul: "(Suc l - i) * ?S = Suc l * ?S - i * ?S" by (rule diff_mult_distrib)
  have "enough ?st ws"
  proof (cases "l < f")
    case True
    have "Suc l * ?S \<le> f * ?S" using True by (intro mult_le_mono1) simp
    also have "f * ?S \<le> length d - 1" using c(1) by (simp add: f_def length_windows)
    finally have "length (concat ws) = Suc l * ?S - i * ?S" using True by (simp add: cw mul)
    then have "(start - i * ?S) + (e - start + 1) \<le> length (concat ws)" using c(6,7) assms(4) by linarith
    with True len c show ?thesis by (simp add: enough_def chunked_decrypt_state_from_chunk_def)
  next
    case False
    with len c show ?thesis by (auto simp: enough_def chunked_decrypt_state_from_chunk_def)
  qed
  moreover have "i + length ws < 2 ^ 32" using len c by (auto split: if_splits)
  ultimately have "try_collect (decrypt_stream_from_state cry ?st) = Inr (wanted ?st (concat ws))"
    using decode_frames [OF assms(1) _ _ small _ car] assms(2) by (simp add: chunked_decrypt_state_from_chunk_def)
  moreover have "wanted ?st (concat ws) = take (Suc e - start) (drop start d)"
    using c(6,7) assms(4) by (simp add: wanted_def chunked_decrypt_state_from_chunk_def cw mul drop_take min_def Suc_diff_le)
  ultimately show ?thesis by simp
qed

lemma fetch_header_wire:
  assumes "aead_ok cry" "\<And>t. sched env t = None" "lookup_file s (passthrough_path b p f) = Some fl"
    and "fdata fl = wire cry k iv d" "length iv = IV_LEN"
  shows "fetch_chunked_header cry env b p f s = (Inr iv, next_tick s)"
proof -
  let ?h = "CHUNK_MAGIC @ iv"
  have h: "length ?h = CHUNK_HEADER_LEN" using assms(5) by (simp add: CHUNK_HEADER_LEN_def IV_LEN_def)
  have r: "get_passthrough_stream_range env b p f 0 (CHUNK_HEADER_LEN - 1) s = (Inr (?h, CHUNK_HEADER_LEN), next_tick s)"
    using inner_reads(4) [OF assms(2,3), of 0 "CHUNK_HEADER_LEN - 1"] h
    by (simp add: assms(4) wire_def CHUNK_HEADER_LEN_def u64_max_def)
  from fill_map_Inr [of CHUNK_HEADER_LEN "[]" "pieces cry ?h"] h
  obtain b' ps' where f: "fill CHUNK_HEADER_LEN [] (map Inr (pieces cry ?h)) = Filled b' (map Inr ps')"
    "b' @ concat ps' = ?h" "CHUNK_HEADER_LEN \<le> length b'"
    by (auto simp: concat_pieces [OF assms(1)])
  then have "b' = ?h" using h by (metis append_eq_conv_conj append.right_neutral append_self_conv length_append le_add1 le_antisym length_0_conv add_cancel_right_right)
  with f(1) r show ?thesis
    using assms(5) by (simp add: fetch_chunked_header_def CHUNK_HEADER_LEN_def)
qed

lemma length_frames_le:
  assumes "aead_ok cry" "length iv = IV_LEN" "\<And>w. w \<in> set ws \<Longrightarrow> length w \<le> CHUNK_PLAINTEXT_SIZE"
  shows "length (frames_at cry k iv f i ws) \<le> length ws * CHUNK_FRAME_WIRE_LEN"
  using assms(3)
proof (induction ws arbitrary: i)
  case (Cons w ws)
  have "length (frame cry k iv i (i = f) w) \<le> CHUNK_FRAME_WIRE_LEN"
    using length_frame [OF assms(1,2)] Cons.prems by (simp add: CHUNK_FRAME_WIRE_LEN_def)
  with Cons.IH [of "Suc i"] Cons.prems show ?case by (simp add: add_mono)
qed simp

lemma length_wire:
  assumes "aead_ok cry" "length iv = IV_LEN" "length d \<le> max_body"
  shows "length (wire cry k iv d) \<le> 2 ^ 50"
proof -
  let ?n = "length (body_windows d)"
  have "length (frames_at cry k iv (?n - 1) 0 (body_windows d)) \<le> ?n * CHUNK_FRAME_WIRE_LEN"
    by (rule length_frames_le [OF assms(1,2) length_body_window])
  also have "\<dots> \<le> 2 ^ 32 * CHUNK_FRAME_WIRE_LEN"
    using body_windows_bounded(1) [OF assms(3)] by (intro mult_le_mono1) simp
  finally show ?thesis
    using assms(2) by (simp add: wire_def IV_LEN_def CHUNK_FRAME_WIRE_LEN_def CHUNK_FRAME_LEN_FIELD_def
        CHUNK_PLAINTEXT_SIZE_def GCM_TAG_LEN_def)
qed

text \<open>The bytes that the range request for the chunks \<open>i\<close> to \<open>l\<close> fetches.\<close>

lemma fetch_chunks:
  assumes "aead_ok cry" "length iv = IV_LEN" "length d \<le> max_body" "\<And>t. sched env t = None"
    and "lookup_file s (passthrough_path b p f) = Some fl" "fdata fl = wire cry k iv d" "body_windows d = windows d"
    and "i \<le> l" "l \<le> fin" "length (windows d) = Suc fin"
  shows "\<exists>n. get_passthrough_stream_range env b p f (wire_offset_of_chunk i)
      (if l < fin then wire_offset_of_chunk l + CHUNK_FRAME_WIRE_LEN - 1 else u64_max - 1) s
    = (Inr ((if l < fin then take ((Suc l - i) * CHUNK_FRAME_WIRE_LEN) else id)
        (drop (i * CHUNK_FRAME_WIRE_LEN) (frames_at cry k iv fin 0 (windows d))), n), next_tick s)"
proof -
  let ?W = CHUNK_FRAME_WIRE_LEN and ?F = "frames_at cry k iv fin 0 (windows d)"
  have fw: "fdata fl = (CHUNK_MAGIC @ iv) @ ?F" using assms(6,7,10) by (simp add: wire_def)
  have h: "length (CHUNK_MAGIC @ iv) = CHUNK_HEADER_LEN" using assms(2) by (simp add: CHUNK_HEADER_LEN_def IV_LEN_def)
  have dr: "drop (wire_offset_of_chunk i) (fdata fl) = drop (i * ?W) ?F"
    by (simp add: fw wire_offset_of_chunk_def h [symmetric])
  have fin: "fin < 2 ^ 32" using body_windows_bounded(1) [OF assms(3)] assms(7,10) by simp
  have W: "?W = 65556" by (simp add: CHUNK_FRAME_WIRE_LEN_def CHUNK_FRAME_LEN_FIELD_def CHUNK_PLAINTEXT_SIZE_def GCM_TAG_LEN_def)
  have off: "wire_offset_of_chunk j \<le> 2 ^ 50" if "j \<le> fin" for j
    using that fin by (simp add: wire_offset_of_chunk_def W CHUNK_HEADER_LEN_def)
  show ?thesis
  proof (cases "l < fin")
    case True
    let ?e = "wire_offset_of_chunk l + ?W - 1"
    have "wire_offset_of_chunk i \<le> Suc ?e" "?e < u64_max" "Suc ?e - wire_offset_of_chunk i = (Suc l - i) * ?W"
      using assms(8) off [OF assms(9)] by (simp_all add: W wire_offset_of_chunk_def u64_max_def diff_mult_distrib)
    with inner_reads(4) [OF assms(4,5) this(1,2)] True show ?thesis by (simp add: dr)
  next
    case False
    have "wire_offset_of_chunk i \<le> 2 ^ 50" using off assms(8,9) by simp
    then have "wire_offset_of_chunk i \<le> Suc (u64_max - 1)" "u64_max - 1 < u64_max"
      and big: "2 ^ 50 \<le> Suc (u64_max - 1) - wire_offset_of_chunk i" by (simp_all add: u64_max_def)
    moreover have "length (drop (i * ?W) ?F) \<le> 2 ^ 50"
      using length_wire [OF assms(1-3), of k] by (simp add: assms(6) [symmetric] fw)
    ultimately show ?thesis using inner_reads(4) [OF assms(4,5)] False by (simp add: dr)
  qed
qed

lemma chunk_of_offset:
  assumes "x < length d" "length d \<le> max_body"
  shows "fst (chunk_index_for_plaintext_offset x) = x div CHUNK_PLAINTEXT_SIZE"
proof -
  have "x div CHUNK_PLAINTEXT_SIZE < 2 ^ 32 - 1"
    using assms by (intro less_mult_imp_div_less) (simp add: max_body_def)
  then show ?thesis by (simp add: chunk_index_for_plaintext_offset_def)
qed

lemma range_of_chunked:
  assumes "aead_ok cry" "\<And>t. sched env t = None" "unmarked m" "file_size m = length d"
    and "lookup_file s (passthrough_path b p f) = Some fl" "stored_chunked cry cfg m d fl"
    and "\<And>k. enc_key cfg = Some k \<Longrightarrow> pick_decrypt_key cfg' (key_id cfg) = Inr k"
    and "start < length d" "start \<le> e"
  shows "\<exists>st s'. enc_get_passthrough_stream_range cry cfg' env b p f start e s
      = (Inr (st, length (take (Suc e - start) (drop start d))), s') \<and> try_collect st = Inr (take (Suc e - start) (drop start d))"
proof -
  obtain k iv where st: "enc_key cfg = Some k" "length iv = IV_LEN" "length d \<le> max_body"
    "fdata fl = wire cry k iv d" "fxattr fl = Some (mark_chunked_encrypted (key_id cfg) m)"
    using assms(6) by (auto simp: stored_chunked_def)
  define e' where "e' = min e (length d - 1)"
  have e': "start \<le> e'" "e' < length d" using assms(8,9) by (auto simp: e'_def)
  let ?i = "start div CHUNK_PLAINTEXT_SIZE" and ?l = "e' div CHUNK_PLAINTEXT_SIZE" and ?f = "length (windows d) - 1"
  note c = range_chunks [OF st(3) e']
  have lk: "lookup_file (next_tick s) (passthrough_path b p f) = Some fl"
    "lookup_file (next_tick (next_tick s)) (passthrough_path b p f) = Some fl" using assms(5) by simp_all
  note r = inner_reads(3) [OF assms(2,5) st(5)] fetch_header_wire [OF assms(1,2) lk(1) st(4,2)]
  obtain n where g: "get_passthrough_stream_range env b p f (wire_offset_of_chunk ?i)
      (if ?l < ?f then wire_offset_of_chunk ?l + CHUNK_FRAME_WIRE_LEN - 1 else u64_max - 1) (next_tick (next_tick s))
    = (Inr ((if ?l < ?f then take ((Suc ?l - ?i) * CHUNK_FRAME_WIRE_LEN) else id)
        (drop (?i * CHUNK_FRAME_WIRE_LEN) (frames_at cry k iv ?f 0 (windows d))), n), next_tick (next_tick (next_tick s)))"
    using fetch_chunks [OF assms(1) st(2,3) assms(2) lk(2) st(4) c(8,4,5,2)] by blast
  let ?st = "decrypt_stream_from_state cry (chunked_decrypt_state_from_chunk (map Inr (pieces cry
      ((if ?l < ?f then take ((Suc ?l - ?i) * CHUNK_FRAME_WIRE_LEN) else id)
        (drop (?i * CHUNK_FRAME_WIRE_LEN) (frames_at cry k iv ?f 0 (windows d)))))) k iv ?i ?f
      (start - ?i * CHUNK_PLAINTEXT_SIZE) (Some (e' - start + 1)))"
  have fin: "final_chunk_index_for_plaintext_size (length d) = ?f" using body_windows_bounded(2) [OF st(3)] c(8) by simp
  have m: "min e (length d - Suc 0) = e'" by (simp add: e'_def)
  have "enc_get_passthrough_stream_range cry cfg' env b p f start e s = (Inr (?st, e' - start + 1), next_tick (next_tick (next_tick s)))"
    using e' g by (cases "?l < ?f") (simp_all add: enc_get_passthrough_stream_range_def Let_def r marked [OF assms(3)] assms(4) assms(7) [OF st(1)] fin m
        chunk_of_offset [OF e'(2) st(3)] chunk_of_offset [OF assms(8) st(3)])
  moreover have "take (Suc e - start) (drop start d) = take (Suc e' - start) (drop start d)"
    using assms(8,9) by (auto simp: e'_def min_def)
  moreover have "try_collect ?st = Inr (take (Suc e' - start) (drop start d))"
    by (rule decode_range [OF assms(1) st(2,3) e' concat_pieces [OF assms(1)]])
  moreover have "e' - start + 1 = length (take (Suc e' - start) (drop start d))" using e' by simp
  ultimately show ?thesis by simp
qed

text \<open>C12. A range of an object that was written through the encrypting backend is the slice of the object, for
  every range that begins inside it, whether the object is stored in the clear, as one blob or in
  chunks, and although only the chunks that the range touches are fetched.  For an encrypted object the
  announced length is the length of the slice.\<close>

theorem encrypted_range_is_the_slice:
  assumes "aead_ok cry" "\<And>t. sched env t = None" "b \<in> set (bucket_dirs s)" "writable wp"
    and "unmarked m" "file_size m = length (body_of wp)"
    and "\<And>k. enc_key cfg = Some k \<Longrightarrow> pick_decrypt_key cfg' (key_id cfg) = Inr k"
    and "start < length (body_of wp)" "start \<le> e" "e < u64_max"
  shows "\<exists>s' st n s''. enc_write cry cfg env b p f wp m s = (Inr (), s')
    \<and> enc_get_passthrough_stream_range cry cfg' env b p f start e s' = (Inr (st, n), s'')
    \<and> try_collect st = Inr (take (Suc e - start) (drop start (body_of wp)))
    \<and> (stored_encrypted cfg wp \<longrightarrow> n = length (take (Suc e - start) (drop start (body_of wp))))"
proof -
  let ?d = "body_of wp"
  obtain s' fl where w: "enc_write cry cfg env b p f wp m s = (Inr (), s')" "lookup_file s' (passthrough_path b p f) = Some fl"
    and fl: "if stored_encrypted cfg wp then stored_blob cry cfg m ?d fl \<or> stored_chunked cry cfg m ?d fl else stored_plain m ?d fl"
    using enc_write_stores [OF assms(1-4), of cfg p f m] by blast
  have lk: "lookup_file (next_tick s') (passthrough_path b p f) = Some fl" using w(2) by simp
  consider (plain) "\<not> stored_encrypted cfg wp" "stored_plain m ?d fl" | (blob) "stored_blob cry cfg m ?d fl"
    | (chunked) "stored_chunked cry cfg m ?d fl" using fl by (auto split: if_splits)
  then show ?thesis
  proof cases
    case plain
    then have "enc_get_passthrough_stream_range cry cfg' env b p f start e s'
        = (Inr (map Inr (pieces cry (take (Suc e - start) (drop start ?d))), Suc e - start), next_tick (next_tick s'))"
      using inner_reads(3) [OF assms(2) w(2)] inner_reads(4) [OF assms(2) lk, of start e] assms(9,10) marked [OF assms(5)]
      by (simp add: stored_plain_def enc_get_passthrough_stream_range_def)
    moreover have "try_collect (map Inr ps) = Inr (concat ps)" for ps by (induction ps) simp_all
    ultimately show ?thesis using w(1) plain(1) by (simp add: concat_pieces [OF assms(1)])
  next
    case blob
    then obtain k iv c where st: "enc_key cfg = Some k" "length iv = IV_LEN" "GCM_TAG_LEN \<le> length c"
      "aead_decrypt cry k iv [] c = Some ?d" "fdata fl = iv @ c" "fxattr fl = Some (mark_encrypted (key_id cfg) m)"
      by (auto simp: stored_blob_def)
    have "enc_get_passthrough_stream_range cry cfg' env b p f start e s'
        = (Inr ([Inr (drop start (take (min (e + 1) (length ?d)) ?d))], min (e + 1) (length ?d) - start), next_tick (next_tick s'))"
      using inner_reads(3) [OF assms(2) w(2) st(6)] inner_reads(1) [OF assms(2) lk] assms(7) [OF st(1)] assms(8,9)
        marked [OF assms(5)] decrypt_blob [OF st(2-4)] st(5)
      by (simp add: enc_get_passthrough_stream_range_def decrypt_if_needed_def Let_def)
    moreover have "drop start (take (min (e + 1) (length ?d)) ?d) = take (Suc e - start) (drop start ?d)"
      by (simp add: drop_take min_def)
    ultimately show ?thesis using w(1) by (auto simp: min_def)
  next
    case chunked
    from range_of_chunked [OF assms(1,2,5,6) w(2) chunked assms(7-9)] w(1) show ?thesis by blast
  qed
qed

theorem encrypted_range_is_the_slice_witness:
  "\<exists>s' st n s''. enc_write sample_crypto old_config plain_env ''b'' ''p'' ''f'' (FromChunks [[1], [2, 3]]) sample_meta sample_disk
      = (Inr (), s')
    \<and> enc_get_passthrough_stream_range sample_crypto rotated_config plain_env ''b'' ''p'' ''f'' 1 9 s' = (Inr (st, n), s'')
    \<and> try_collect st = Inr [2, 3] \<and> n = Suc 1"
  using encrypted_range_is_the_slice [OF sample_crypto_ok sample_facts(1,2,6,3) _ sample_facts(5), of 1 9 "''p''" "''f''"]
  by (simp add: sample_facts(4,7) u64_max_def)

section \<open>Truncation\<close>

lemma wire_truncated:
  assumes "aead_ok cry" "length iv = IV_LEN" "length d \<le> max_body" "n < length (wire cry k iv d)"
    and "concat ps = take n (wire cry k iv d)"
  shows "\<exists>e. try_collect (decrypt_stream_from_state cry
    (chunked_decrypt_state (map Inr ps) k (final_chunk_index_for_plaintext_size (length d)) 0 None)) = Inl e"
proof (cases "n < CHUNK_HEADER_LEN")
  case True
  let ?st = "chunked_decrypt_state (map Inr ps) k (final_chunk_index_for_plaintext_size (length d)) 0 None"
  have "carries ?st (take n (wire cry k iv d))" using assms(5) by (simp add: carries_def chunked_decrypt_state_def)
  then have "fill CHUNK_HEADER_LEN (buf ?st) (inner ?st) = StreamEnded"
    by (rule fill_carries_short) (use True in simp)
  then have "\<exists>e. decrypt_round cry ?st = Failing e"
    by (simp add: decrypt_round_def read_header_def) (simp add: chunked_decrypt_state_def)
  then show ?thesis using collect_failing by blast
next
  case False
  let ?f = "length (body_windows d) - 1" and ?ws = "body_windows d"
  let ?st = "chunked_decrypt_state (map Inr ps) k ?f 0 None"
  let ?n = "n - CHUNK_HEADER_LEN"
  have h: "length (CHUNK_MAGIC @ iv) = CHUNK_HEADER_LEN" using assms(2) by (simp add: CHUNK_HEADER_LEN_def IV_LEN_def)
  have w: "wire cry k iv d = (CHUNK_MAGIC @ iv) @ frames_at cry k iv ?f 0 ?ws" by (simp add: wire_def)
  have "take n (wire cry k iv d) = CHUNK_MAGIC @ iv @ take ?n (frames_at cry k iv ?f 0 ?ws)"
    unfolding w using False h by (simp only: take_append) simp
  then have "carries ?st (CHUNK_MAGIC @ iv @ take ?n (frames_at cry k iv ?f 0 ?ws))" "\<not> header_done ?st"
    using assms(5) by (simp_all add: carries_def chunked_decrypt_state_def)
  then obtain i c where r: "read_header ?st = Inr (?st\<lparr>inner := i, buf := c, header_done := True, base_iv := iv\<rparr>)"
    "carries (?st\<lparr>inner := i, buf := c, header_done := True, base_iv := iv\<rparr>) (take ?n (frames_at cry k iv ?f 0 ?ws))"
    using read_header_carries [OF _ assms(2)] by blast
  let ?st' = "?st\<lparr>inner := i, buf := c, header_done := True, base_iv := iv\<rparr>"
  have "?n < length (frames_at cry k iv ?f 0 ?ws)" using assms(4) False h unfolding w by simp
  then have "\<exists>e. try_collect (decrypt_stream_from_state cry ?st') = Inl e"
    using decode_truncated [OF assms(1), of ?st' ?ws ?n] r(2) assms(2) body_windows_bounded(1) [OF assms(3)] length_body_window
    by (simp add: chunked_decrypt_state_def)
  moreover have "decrypt_stream_from_state cry ?st = decrypt_stream_from_state cry ?st'"
    by (rule decrypt_after_header [OF r(1)]) simp_all
  ultimately show ?thesis using body_windows_bounded(2) [OF assms(3)] by simp
qed

lemma enc_write_chunked:
  assumes "aead_ok cry" "\<And>t. sched env t = None" "b \<in> set (bucket_dirs s)" "writable wp"
    and "enc_key cfg = Some k" "write_mode cfg = Encrypt" "\<And>d. wp \<noteq> Whole d"
    and "enc_write cry cfg env b p f wp m s = (Inr (), s')" "lookup_file s' (passthrough_path b p f) = Some fl"
  shows "stored_chunked cry cfg m (body_of wp) fl"
proof (cases wp)
  case (FromChunks cs)
  with assms encode_file_ok [OF assms(1), of "concat cs" k "tick s"] fresh_iv_length [OF assms(1)] show ?thesis
    by (auto simp: enc_put_passthrough_chunked_def encode_pieces_file inner_puts put_object_file_works [OF assms(2,3)]
        lookup_written stored_chunked_def intro!: exI [of _ "fresh_iv cry (tick s)"])
next
  case (FromFile d')
  with assms file_write_stores [OF assms(1-3), of d' cfg p f m] show ?thesis by auto
next
  case (FromParts ps)
  with assms file_write_stores [OF assms(1-3), of "concat ps" cfg p f m] show ?thesis
    by (auto simp: enc_put_passthrough_parts_def)
qed (use assms(7) in auto)

text \<open>C13. When the file of an object that was stored in chunks has lost its tail, however little of it and
  wherever the cut is, reading the object ends in an error: the shorter file is never taken for the
  whole object.\<close>

theorem truncated_object_is_refused:
  assumes "aead_ok cry" "\<And>t. sched env t = None" "b \<in> set (bucket_dirs s)" "writable wp" "\<And>d. wp \<noteq> Whole d"
    and "unmarked m" "file_size m = length (body_of wp)" "enc_key cfg = Some k" "write_mode cfg = Encrypt"
    and "pick_decrypt_key cfg' (key_id cfg) = Inr k"
    and "enc_write cry cfg env b p f wp m s = (Inr (), s')" "lookup_file s' (passthrough_path b p f) = Some fl"
    and "n < length (fdata fl)"
  shows "\<exists>e. fst (enc_get_passthrough cry cfg' env b p f (write_file (passthrough_path b p f) (fl\<lparr>fdata := take n (fdata fl)\<rparr>) s')) = Inl e"
proof -
  let ?s = "write_file (passthrough_path b p f) (fl\<lparr>fdata := take n (fdata fl)\<rparr>) s'" and ?fl = "fl\<lparr>fdata := take n (fdata fl)\<rparr>"
  obtain iv where st: "length iv = IV_LEN" "length (body_of wp) \<le> max_body" "fdata fl = wire cry k iv (body_of wp)"
    "fxattr fl = Some (mark_chunked_encrypted (key_id cfg) m)"
    using enc_write_chunked [OF assms(1-4,8,9,5,11,12)] assms(8) by (auto simp: stored_chunked_def)
  have lk: "lookup_file ?s (passthrough_path b p f) = Some ?fl" "lookup_file (next_tick ?s) (passthrough_path b p f) = Some ?fl"
    "lookup_file (next_tick (next_tick ?s)) (passthrough_path b p f) = Some ?fl" by (simp_all add: lookup_written)
  note r = inner_reads(3) [OF assms(2) lk(1)] inner_reads(3) [OF assms(2) lk(2)] inner_reads(2) [OF assms(2) lk(3)]
  obtain e where "try_collect (decrypt_stream_from_state cry (chunked_decrypt_state
      (map Inr (pieces cry (take n (wire cry k iv (body_of wp))))) k
      (final_chunk_index_for_plaintext_size (length (body_of wp))) 0 None)) = Inl e"
    using wire_truncated [OF assms(1) st(1,2) _ concat_pieces [OF assms(1)], of n k] assms(13) st(3) by auto
  then show ?thesis
    using r st marked [OF assms(6)] assms(7,10) by (simp add: enc_get_passthrough_def enc_get_passthrough_stream_def)
qed

theorem truncated_object_is_refused_witness:
  "\<exists>s' fl. enc_write sample_crypto old_config plain_env ''b'' ''p'' ''f'' (FromChunks [[1], [2, 3]]) sample_meta sample_disk = (Inr (), s')
    \<and> lookup_file s' (passthrough_path ''b'' ''p'' ''f'') = Some fl
    \<and> (\<exists>e. fst (enc_get_passthrough sample_crypto rotated_config plain_env ''b'' ''p'' ''f''
          (write_file (passthrough_path ''b'' ''p'' ''f'') (fl\<lparr>fdata := take 20 (fdata fl)\<rparr>) s')) = Inl e)"
proof -
  let ?wp = "FromChunks [[1], [2, 3]]"
  obtain s' fl where w: "enc_write sample_crypto old_config plain_env ''b'' ''p'' ''f'' ?wp sample_meta sample_disk = (Inr (), s')"
    "lookup_file s' (passthrough_path ''b'' ''p'' ''f'') = Some fl"
    using enc_write_stores [OF sample_crypto_ok sample_facts(1,2,6)] by blast
  have c: "enc_key old_config = Some [1]" "write_mode old_config = Encrypt" by (simp_all add: old_config_def)
  have "stored_chunked sample_crypto old_config sample_meta [1, 2, 3] fl"
    using enc_write_chunked [OF sample_crypto_ok sample_facts(1,2,6) c _ w] by simp
  then have "20 < length (fdata fl)"
    by (auto simp: stored_chunked_def wire_def body_windows_def windows_short CHUNK_PLAINTEXT_SIZE_def frame_def sample_crypto_def IV_LEN_def)
  from truncated_object_is_refused [OF sample_crypto_ok sample_facts(1,2,6) _ sample_facts(3) _ c sample_facts(5) [OF c(1)] w this]
  have "\<exists>e. fst (enc_get_passthrough sample_crypto rotated_config plain_env ''b'' ''p'' ''f''
      (write_file (passthrough_path ''b'' ''p'' ''f'') (fl\<lparr>fdata := take 20 (fdata fl)\<rparr>) s')) = Inl e"
    by (simp add: sample_facts(4))
  with w show ?thesis by blast
qed

section \<open>Nonces\<close>



end
