(* ===== verification/AwsChunked.thy ===== *)
theory AwsChunked
  imports Storage
begin

text \<open>
  The decoder of the chunk-framed upload bodies of the AWS SDKs (\<open>src/src/api/aws_chunked.rs\<close>).

  The decoder works on positions in the body, as the source does, so that the wrap-around of a position
  plus a declared size is visible; a slice whose bounds are crossed panics.  Header lines are text:
  \<open>utf8_decode\<close> is the decoding of the standard library, and \<open>trim\<close> and \<open>from_str_radix\<close> act on the
  characters.
\<close>

section \<open>Text\<close>

definition continuation :: "nat \<Rightarrow> bool" where
  "continuation b \<longleftrightarrow> 128 \<le> b \<and> b \<le> 191"

fun utf8_decode :: "nat list \<Rightarrow> nat list option" where
  "utf8_decode [] = Some []"
| "utf8_decode (a # bs) =
     (if a < 128 then map_option (Cons a) (utf8_decode bs)
      else if 194 \<le> a \<and> a \<le> 223 then
        (case bs of
           b # bs' \<Rightarrow> if continuation b then map_option (Cons ((a - 192) * 64 + (b - 128))) (utf8_decode bs') else None
         | _ \<Rightarrow> None)
      else if 224 \<le> a \<and> a \<le> 239 then
        (case bs of
           b # c # bs' \<Rightarrow>
             if continuation b \<and> (a = 224 \<longrightarrow> 160 \<le> b) \<and> (a = 237 \<longrightarrow> b \<le> 159) \<and> continuation c
             then map_option (Cons ((a - 224) * 4096 + (b - 128) * 64 + (c - 128))) (utf8_decode bs') else None
         | _ \<Rightarrow> None)
      else if 240 \<le> a \<and> a \<le> 244 then
        (case bs of
           b # c # d # bs' \<Rightarrow>
             if continuation b \<and> (a = 240 \<longrightarrow> 144 \<le> b) \<and> (a = 244 \<longrightarrow> b \<le> 143) \<and> continuation c \<and> continuation d
             then map_option (Cons ((a - 240) * 262144 + (b - 128) * 4096 + (c - 128) * 64 + (d - 128))) (utf8_decode bs')
             else None
         | _ \<Rightarrow> None)
      else None)"

definition from_utf8 :: "bytes \<Rightarrow> nat list option" where
  "from_utf8 bs = utf8_decode (map unat bs)"

text \<open>The characters with the property White_Space.\<close>

definition white_space :: "nat \<Rightarrow> bool" where
  "white_space c \<longleftrightarrow> (9 \<le> c \<and> c \<le> 13) \<or> (8192 \<le> c \<and> c \<le> 8202)
     \<or> c \<in> {32, 133, 160, 5760, 8232, 8233, 8239, 8287, 12288}"

definition trim_text :: "nat list \<Rightarrow> nat list" where
  "trim_text s = rev (dropWhile white_space (rev (dropWhile white_space s)))"

definition hex_digit :: "nat \<Rightarrow> nat option" where
  "hex_digit c = (if 48 \<le> c \<and> c \<le> 57 then Some (c - 48)
     else if 97 \<le> c \<and> c \<le> 102 then Some (c - 87)
     else if 65 \<le> c \<and> c \<le> 70 then Some (c - 55) else None)"

fun hex_value :: "nat \<Rightarrow> nat list \<Rightarrow> nat option" where
  "hex_value acc [] = Some acc"
| "hex_value acc (c # cs) = (case hex_digit c of None \<Rightarrow> None
     | Some d \<Rightarrow> if acc * 16 + d < 2 ^ 64 then hex_value (acc * 16 + d) cs else None)"

definition from_str_radix_16 :: "nat list \<Rightarrow> nat option" where
  "from_str_radix_16 s =
     (let digits = (case s of c # cs \<Rightarrow> if c = 43 \<and> cs \<noteq> [] then cs else s | [] \<Rightarrow> [])
      in if digits = [] then None else hex_value 0 digits)"

section \<open>The decoder\<close>

definition CR :: byte where "CR = 13"
definition LF :: byte where "LF = 10"

definition is_aws_chunked :: "(string \<rightharpoonup> string) \<Rightarrow> bool" where
  "is_aws_chunked headers = (case headers ''x-amz-content-sha256'' of
     None \<Rightarrow> False | Some v \<Rightarrow> starts_with v ''STREAMING-'')"

definition find_crlf :: "bytes \<Rightarrow> nat option" where
  "find_crlf d = List.find (\<lambda>i. d ! i = CR \<and> d ! (i + 1) = LF) [0..<length d - 1]"

definition chunk_size_of :: "bytes \<Rightarrow> nat option" where
  "chunk_size_of header_line = (case from_utf8 header_line of
     None \<Rightarrow> None
   | Some s \<Rightarrow> from_str_radix_16 (trim_text (takeWhile (\<lambda>c. c \<noteq> 59) s)))"

lemma find_crlf_Some:
  assumes "find_crlf d = Some i"
  shows "i + 1 < length d" "d ! i = CR" "d ! (i + 1) = LF" "\<And>j. j < i \<Longrightarrow> \<not> (d ! j = CR \<and> d ! (j + 1) = LF)"
  using assms by (auto simp: find_crlf_def find_Some_iff)

function consume_trailers :: "bytes \<Rightarrow> nat \<Rightarrow> nat option" where
  "consume_trailers body pos = (case find_crlf (drop pos body) of
     None \<Rightarrow> None
   | Some line_end \<Rightarrow>
       if line_end = 0 then Some (pos + line_end + 2) else consume_trailers body (pos + line_end + 2))"
  by pat_completeness auto
termination
  by (relation "measure (\<lambda>(body, pos). length body - pos)") (auto dest: find_crlf_Some(1))

datatype decode_failure = Malformed | Panicked

function decode_chunks :: "bytes \<Rightarrow> nat \<Rightarrow> bytes \<Rightarrow> (decode_failure, bytes) result" where
  "decode_chunks body pos res = (case find_crlf (drop pos body) of
     None \<Rightarrow> Inl Malformed
   | Some header_end \<Rightarrow>
       (let header_line = take header_end (drop pos body);
            pos = pos + header_end + 2
        in case chunk_size_of header_line of
             None \<Rightarrow> Inl Malformed
           | Some chunk_size \<Rightarrow>
               if chunk_size = 0
               then (case consume_trailers body pos of None \<Rightarrow> Inl Malformed | Some _ \<Rightarrow> Inr res)
               else let chunk_end = (pos + chunk_size) mod 2 ^ 64
                    in if chunk_end > length body then Inl Malformed
                       else if chunk_end < pos then Inl Panicked
                       else if chunk_end + 2 > length body \<or> take 2 (drop chunk_end body) \<noteq> [CR, LF] then Inl Malformed
                       else decode_chunks body (chunk_end + 2) (res @ take (chunk_end - pos) (drop pos body))))"
  by pat_completeness auto
termination
  by (relation "measure (\<lambda>(body, pos, _). length body - pos)") (auto dest: find_crlf_Some(1))

declare consume_trailers.simps [simp del] decode_chunks.simps [simp del]

definition decode_aws_chunked :: "bytes \<Rightarrow> nat option \<Rightarrow> (decode_failure, bytes) result" where
  "decode_aws_chunked body expected_length = (case decode_chunks body 0 [] of
     Inl e \<Rightarrow> Inl e
   | Inr res \<Rightarrow> (case expected_length of
       Some n \<Rightarrow> if length res \<noteq> n then Inl Malformed else Inr res
     | None \<Rightarrow> Inr res))"

section \<open>The framing\<close>

text \<open>Lines without a line end, and the trailer lines up to the empty one.\<close>

definition one_line :: "bytes \<Rightarrow> bool" where
  "one_line l \<longleftrightarrow> (\<forall>i. i + 1 < length (l @ [CR]) \<longrightarrow> \<not> ((l @ [CR]) ! i = CR \<and> (l @ [CR]) ! (i + 1) = LF))"

inductive trailers :: "bytes \<Rightarrow> bool" where
  last_line: "trailers ([CR, LF] @ rest)"
| trailer: "one_line l \<Longrightarrow> l \<noteq> [] \<Longrightarrow> trailers d \<Longrightarrow> trailers (l @ [CR, LF] @ d)"

inductive framed :: "bytes \<Rightarrow> bytes \<Rightarrow> bool" where
  terminator: "one_line l \<Longrightarrow> chunk_size_of l = Some 0 \<Longrightarrow> trailers d \<Longrightarrow> framed (l @ [CR, LF] @ d) []"
| chunk: "one_line l \<Longrightarrow> chunk_size_of l = Some (length c) \<Longrightarrow> c \<noteq> [] \<Longrightarrow> framed d p
    \<Longrightarrow> framed (l @ [CR, LF] @ c @ [CR, LF] @ d) (c @ p)"

lemma find_first:
  assumes "i < n" "P i" "\<And>j. j < i \<Longrightarrow> \<not> P j"
  shows "List.find P [0..<n] = Some i"
  unfolding find_Some_iff using assms by (intro exI [of _ i]) auto

lemma CR_LF [simp]: "CR \<noteq> LF" "LF \<noteq> CR"
  by (simp_all add: CR_def LF_def)

lemma find_crlf_line:
  assumes "one_line l"
  shows "find_crlf (l @ [CR, LF] @ d) = Some (length l)"
  unfolding find_crlf_def
proof (rule find_first)
  fix j assume "j < length l"
  with assms have "\<not> ((l @ [CR]) ! j = CR \<and> (l @ [CR]) ! (j + 1) = LF)" by (simp add: one_line_def)
  with \<open>j < length l\<close> show "\<not> ((l @ [CR, LF] @ d) ! j = CR \<and> (l @ [CR, LF] @ d) ! (j + 1) = LF)"
    by (auto simp: nth_append nth_Cons' split: if_splits)
qed (auto simp: nth_append)

lemma find_crlf_split:
  assumes "find_crlf d = Some i"
  shows "d = take i d @ [CR, LF] @ drop (i + 2) d" "one_line (take i d)"
proof -
  note f = find_crlf_Some [OF assms]
  have "drop i d = d ! i # d ! (i + 1) # drop (i + 2) d"
    using f(1) by (simp add: Cons_nth_drop_Suc)
  with f(2,3) show "d = take i d @ [CR, LF] @ drop (i + 2) d" by (metis append_take_drop_id append_Cons append_Nil)
  show "one_line (take i d)" unfolding one_line_def
  proof (intro allI impI)
    fix j assume j: "j + 1 < length (take i d @ [CR])"
    then show "\<not> ((take i d @ [CR]) ! j = CR \<and> (take i d @ [CR]) ! (j + 1) = LF)"
      using f(1) f(4) [of j] by (auto simp: nth_append split: if_splits)
  qed
qed

lemma line_of_trailers:
  assumes "trailers d"
  obtains "find_crlf d = Some 0" | l d' where "d = l @ [CR, LF] @ d'" "find_crlf d = Some (length l)" "l \<noteq> []" "trailers d'"
  using assms
proof cases
  case (last_line rest)
  have "find_crlf d = Some 0" using find_crlf_line [of "[]" rest] last_line by (simp add: one_line_def)
  then show ?thesis by (rule that(1))
next
  case (trailer l d')
  have "find_crlf d = Some (length l)" unfolding trailer(1) using trailer(2) by (rule find_crlf_line)
  with trailer show ?thesis by (intro that(2))
qed

lemma trailers_step:
  assumes "find_crlf d = Some i"
  shows "trailers d \<longleftrightarrow> i = 0 \<or> trailers (drop (i + 2) d)"
proof
  assume "trailers d"
  then show "i = 0 \<or> trailers (drop (i + 2) d)"
  proof (cases rule: line_of_trailers)
    case (2 l d')
    with assms show ?thesis by simp
  qed (use assms in simp)
next
  note f = find_crlf_split [OF assms]
  assume "i = 0 \<or> trailers (drop (i + 2) d)"
  then consider "i = 0" | "i \<noteq> 0" "trailers (drop (i + 2) d)" by blast
  then show "trailers d"
  proof cases
    case 1
    then have "d = [CR, LF] @ drop 2 d" using f(1) by (simp add: numeral_2_eq_2)
    then show ?thesis by (metis trailers.last_line)
  next
    case 2
    have "take i d \<noteq> []" using 2(1) find_crlf_Some(1) [OF assms] by auto
    from trailers.trailer [OF f(2) this 2(2)] f(1) show ?thesis by simp
  qed
qed

lemma consume_trailers_iff: "(\<exists>p. consume_trailers body pos = Some p) \<longleftrightarrow> trailers (drop pos body)"
proof (induction body pos rule: consume_trailers.induct)
  case (1 body pos)
  show ?case
  proof (cases "find_crlf (drop pos body)")
    case None
    then have "\<not> trailers (drop pos body)" by (auto elim: line_of_trailers)
    with None show ?thesis by (subst consume_trailers.simps) simp
  next
    case (Some i)
    have "drop (i + 2) (drop pos body) = drop (pos + i + 2) body" by (simp add: add.commute add.left_commute)
    with 1 [OF Some] trailers_step [OF Some] Some show ?thesis
      by (subst consume_trailers.simps) (cases "i = 0", simp_all)
  qed
qed

lemma hex_value_bound: "hex_value acc s = Some n \<Longrightarrow> acc < 2 ^ 64 \<Longrightarrow> n < 2 ^ 64"
  by (induction acc s rule: hex_value.induct) (auto split: option.splits if_splits)

lemma chunk_size_bound: "chunk_size_of l = Some n \<Longrightarrow> n < 2 ^ 64"
  by (auto simp: chunk_size_of_def from_str_radix_16_def Let_def dest!: hex_value_bound split: option.splits if_splits list.splits)

lemma decode_framed:
  assumes "framed d p" "length (pre @ d) < 2 ^ 63"
  shows "decode_chunks (pre @ d) (length pre) res = Inr (res @ p)"
  using assms
proof (induction arbitrary: pre res)
  case (terminator l d)
  let ?b = "pre @ l @ [CR, LF] @ d"
  have "trailers (drop (length pre + length l + 2) ?b)" using terminator by simp
  then obtain q where "consume_trailers ?b (length pre + length l + 2) = Some q" using consume_trailers_iff by blast
  with terminator find_crlf_line [OF terminator(1), of d] show ?case
    by (subst decode_chunks.simps) simp
next
  case (chunk l c d p)
  let ?b = "pre @ l @ [CR, LF] @ c @ [CR, LF] @ d" and ?pos = "length pre + length l + 2"
  have e: "(?pos + length c) mod 2 ^ 64 = ?pos + length c" using chunk.prems by simp
  have dr: "drop (?pos + length c) ?b = [CR, LF] @ d" "take (length c) (drop ?pos ?b) = c" by simp_all
  have "decode_chunks ?b (length pre) res = decode_chunks ?b (?pos + length c + 2) (res @ c)"
    using chunk.hyps(2,3) find_crlf_line [OF chunk.hyps(1), of "c @ [CR, LF] @ d"] e dr
    by (subst decode_chunks.simps) simp
  also have "\<dots> = Inr ((res @ c) @ p)"
    using chunk.IH [of "pre @ l @ [CR, LF] @ c @ [CR, LF]" "res @ c"] chunk.prems by (simp add: add.assoc)
  finally show ?case by simp
qed

lemma framed_decode:
  assumes "decode_chunks body pos res = Inr r" "pos \<le> length body" "length body < 2 ^ 63"
  shows "\<exists>p. r = res @ p \<and> framed (drop pos body) p"
  using assms
proof (induction body pos res rule: decode_chunks.induct)
  case (1 body pos res)
  from 1(2) obtain i where i: "find_crlf (drop pos body) = Some i" by (subst (asm) decode_chunks.simps) (auto split: option.splits)
  note f = find_crlf_split [OF i]
  let ?l = "take i (drop pos body)" and ?pos = "pos + i + 2"
  have rest: "drop pos body = ?l @ [CR, LF] @ drop ?pos body" using f(1) by (simp add: add.commute add.left_commute)
  from 1(2) i obtain n where n: "chunk_size_of ?l = Some n" by (subst (asm) decode_chunks.simps) (auto simp: Let_def split: option.splits)
  show ?case
  proof (cases "n = 0")
    case True
    with 1(2) i n have "r = res" "\<exists>q. consume_trailers body ?pos = Some q"
      by (subst (asm) decode_chunks.simps, auto simp: Let_def split: option.splits)+
    with consume_trailers_iff framed.terminator [OF f(2)] True n rest show ?thesis by (metis append_Nil2)
  next
    case False
    define e where "e = (?pos + n) mod 2 ^ 64"
    have d: "e \<le> length body" "?pos \<le> e" "e + 2 \<le> length body" "take 2 (drop e body) = [CR, LF]"
      "decode_chunks body (e + 2) (res @ take (e - ?pos) (drop ?pos body)) = Inr r"
      using 1(2) i n False by (subst (asm) decode_chunks.simps, auto simp: Let_def e_def split: if_splits)+
    have "e = ?pos + n"
    proof (rule ccontr)
      assume "e \<noteq> ?pos + n"
      then have "2 ^ 64 \<le> ?pos + n" unfolding e_def by (metis mod_less not_le)
      then have "e \<le> ?pos + n - 2 ^ 64" unfolding e_def by (metis le_mod_geq mod_less_eq_dividend)
      with d(2) chunk_size_bound [OF n] show False by linarith
    qed
    then have c: "take n (drop ?pos body) = take (e - ?pos) (drop ?pos body)" "length (take n (drop ?pos body)) = n"
      using d(1) by simp_all
    from 1(1) [OF i refl refl n False e_def] d 1(4) obtain p where
      p: "r = (res @ take (e - ?pos) (drop ?pos body)) @ p" "framed (drop (e + 2) body) p" by auto
    have "drop ?pos body = take n (drop ?pos body) @ [CR, LF] @ drop (e + 2) body"
      using d(4) \<open>e = ?pos + n\<close> by (metis add.commute append_take_drop_id drop_drop)
    with framed.chunk [OF f(2) _ _ p(2), of "take n (drop ?pos body)"] n c False rest p(1) show ?thesis
      by (metis append_assoc length_0_conv)
  qed
qed

text \<open>C15. The decoder accepts a body exactly when it is framed, that is, when it is a sequence of chunks whose
  header lines give their sizes, each followed by a line end, then a chunk of size zero and trailer lines
  up to an empty one, and when the announced length is the length of the payload; what it returns is the
  payload of the chunks, without any of the framing.\<close>

theorem decoder_accepts_exactly_the_framing:
  assumes "length body < 2 ^ 63"
  shows "decode_aws_chunked body e = Inr p \<longleftrightarrow> framed body p \<and> (e = None \<or> e = Some (length p))"
proof -
  have "decode_chunks body 0 [] = Inr q \<longleftrightarrow> framed body q" for q
  proof
    assume "decode_chunks body 0 [] = Inr q"
    from framed_decode [OF this _ assms] show "framed body q" by simp
  next
    assume "framed body q"
    from decode_framed [OF this, of "[]" "[]"] assms show "decode_chunks body 0 [] = Inr q" by simp
  qed
  note d = this
  show ?thesis
  proof (cases "decode_chunks body 0 []")
    case (Inl x)
    with d [of p] show ?thesis by (simp add: decode_aws_chunked_def)
  next
    case (Inr q)
    with d [of p] have "framed body p \<longleftrightarrow> q = p" by simp
    then show ?thesis by (cases e) (auto simp: decode_aws_chunked_def Inr)
  qed
qed

definition sample_body :: bytes where
  "sample_body = [51, 59, 120, 13, 10, 97, 98, 99, 13, 10, 48, 13, 10, 107, 58, 118, 13, 10, 13, 10]"

text \<open>Evaluation: looking for a line end without positions.\<close>

fun line_end :: "bytes \<Rightarrow> nat option" where
  "line_end (a # b # d) = (if a = CR \<and> b = LF then Some 0 else map_option Suc (line_end (b # d)))"
| "line_end _ = None"

lemma find_crlf_code: "find_crlf d = line_end d"
proof (induction d rule: line_end.induct)
  case (1 a b d)
  have "[0..<length (a # b # d) - 1] = 0 # map Suc [0..<length (b # d) - 1]"
    by (simp add: upt_conv_Cons map_Suc_upt del: upt_Suc)
  moreover have "List.find P (map Suc xs) = map_option Suc (List.find (\<lambda>i. P (Suc i)) xs)" for P xs
    by (induction xs) simp_all
  ultimately show ?case using 1 by (simp add: find_crlf_def)
qed (simp_all add: find_crlf_def)

lemmas decoder_eval = decode_aws_chunked_def decode_chunks.simps consume_trailers.simps find_crlf_code chunk_size_of_def
  from_utf8_def trim_text_def white_space_def from_str_radix_16_def hex_digit_def CR_def LF_def

lemma sample_body_decodes: "decode_aws_chunked sample_body (Some 3) = Inr [97, 98, 99]"
  by (simp add: sample_body_def decoder_eval)

theorem decoder_accepts_exactly_the_framing_witness:
  "length sample_body < 2 ^ 63 \<and> framed sample_body [97, 98, 99]"
proof -
  have "length sample_body < 2 ^ 63" by (simp add: sample_body_def)
  with decoder_accepts_exactly_the_framing [of sample_body] sample_body_decodes show ?thesis by blast
qed

section \<open>Outside the grammar\<close>

text \<open>A declared size close to the largest one makes the sum with the position wrap around, so that the
  guard against truncated chunks passes and the slice panics.\<close>

lemma huge_chunk_size_panics:
  "decode_aws_chunked ([102, 102, 102, 102, 102, 102, 102, 102, 102, 102, 102, 102, 102, 102, 102, 102,
     13, 10, 97, 13, 10]) (Some 1) = Inl Panicked"
  by (simp add: decoder_eval)

text \<open>Bytes after the empty line that ends the trailers are dropped.\<close>

lemma bytes_after_the_end_are_ignored:
  "decode_aws_chunked [49, 13, 10, 97, 13, 10, 48, 13, 10, 13, 10, 120, 121] (Some 1) = Inr [97]"
  by (simp add: decoder_eval)

end
