(* ===== verification/RateLimiter.thy ===== *)
theory RateLimiter
  imports Http
begin

text \<open>
  The limiter of failed logins (\<open>src/src/rate_limiter.rs\<close>): its two tables of counters, by client address and
  by account, the guard around a login, and the resolution of the client address from the headers that
  reverse proxies add.

  An instant is a number of milliseconds; \<open>duration_since\<close> is zero when the clock ran backwards, as the
  subtraction of natural numbers is.  The environment variables are arguments.  A trusted network of the
  \<open>ipnet\<close> crate is a parameter, the predicate of the addresses it contains; addresses are parsed as the
  standard library parses them.
\<close>

section \<open>Addresses\<close>

text \<open>Four octets, or eight groups of 16 bits.\<close>

datatype ip_addr = V4 "int list" | V6 "int list"

definition to_digit :: "int \<Rightarrow> char \<Rightarrow> int option" where
  "to_digit radix c = (case hex_of c of None \<Rightarrow> None | Some d \<Rightarrow> if d < radix then Some d else None)"

definition read_number :: "int \<Rightarrow> nat \<Rightarrow> bool \<Rightarrow> int \<Rightarrow> string \<Rightarrow> (int \<times> string) option" where
  "read_number radix max_digits allow_zero_prefix bound s =
     (let ds = takeWhile (\<lambda>c. to_digit radix c \<noteq> None) s;
          n = foldl (\<lambda>acc c. acc * radix + the (to_digit radix c)) 0 ds
      in if ds = [] \<or> max_digits < length ds \<or> bound < n then None
         else if \<not> allow_zero_prefix \<and> hd ds = CHR ''0'' \<and> 1 < length ds then None
         else Some (n, drop (length ds) s))"

definition read_given_char :: "char \<Rightarrow> string \<Rightarrow> string option" where
  "read_given_char c s = (case s of [] \<Rightarrow> None | x # s \<Rightarrow> if x = c then Some s else None)"

definition read_separator :: "char \<Rightarrow> nat \<Rightarrow> string \<Rightarrow> string option" where
  "read_separator c i s = (if i = 0 then Some s else read_given_char c s)"

fun read_octets :: "nat \<Rightarrow> nat \<Rightarrow> string \<Rightarrow> (int list \<times> string) option" where
  "read_octets 0 i s = Some ([], s)"
| "read_octets (Suc n) i s =
     Option.bind (read_separator (CHR ''.'') i s) (\<lambda>s.
     Option.bind (read_number 10 3 False 255 s) (\<lambda>(d, s).
     Option.bind (read_octets n (Suc i) s) (\<lambda>(ds, s). Some (d # ds, s))))"

fun read_groups :: "nat \<Rightarrow> nat \<Rightarrow> string \<Rightarrow> int list \<times> bool \<times> string" where
  "read_groups 0 i s = ([], False, s)"
| "read_groups (Suc n) i s =
     (case (if n = 0 then None else Option.bind (read_separator (CHR '':'') i s) (read_octets 4 0)) of
        Some (os, s) \<Rightarrow> ([os ! 0 * 256 + os ! 1, os ! 2 * 256 + os ! 3], True, s)
      | None \<Rightarrow>
          (case Option.bind (read_separator (CHR '':'') i s) (read_number 16 4 True 65535) of
             None \<Rightarrow> ([], False, s)
           | Some (g, s) \<Rightarrow> (case read_groups n (Suc i) s of (gs, v4, s) \<Rightarrow> (g # gs, v4, s))))"

definition read_ipv6_addr :: "string \<Rightarrow> (int list \<times> string) option" where
  "read_ipv6_addr s = (case read_groups 8 0 s of (front, v4, s) \<Rightarrow>
     if length front = 8 then Some (front, s)
     else if v4 then None
     else Option.bind (read_given_char (CHR '':'') s) (\<lambda>s.
          Option.bind (read_given_char (CHR '':'') s) (\<lambda>s.
            case read_groups (8 - (length front + 1)) 0 s of (rest, _, s) \<Rightarrow>
              Some (front @ replicate (8 - length front - length rest) 0 @ rest, s))))"

definition parse_ip :: "string \<Rightarrow> ip_addr option" where
  "parse_ip s =
     (case read_octets 4 0 s of
        Some (os, r) \<Rightarrow> if r = [] then Some (V4 os) else None
      | None \<Rightarrow> (case read_ipv6_addr s of
          Some (gs, r) \<Rightarrow> if r = [] then Some (V6 gs) else None
        | None \<Rightarrow> None))"

definition to_ipv4_mapped :: "int list \<Rightarrow> int list option" where
  "to_ipv4_mapped gs =
     (if take 6 gs = [0, 0, 0, 0, 0, 65535]
      then Some [gs ! 6 div 256, gs ! 6 mod 256, gs ! 7 div 256, gs ! 7 mod 256] else None)"

definition normalize_ip :: "ip_addr \<Rightarrow> ip_addr" where
  "normalize_ip ip = (case ip of
     V6 v6 \<Rightarrow> (case to_ipv4_mapped v6 of Some v4 \<Rightarrow> V4 v4 | None \<Rightarrow> V6 v6)
   | V4 v4 \<Rightarrow> V4 v4)"

section \<open>The client address\<close>

definition header_ip :: "header_map \<Rightarrow> string \<Rightarrow> ip_addr option" where
  "header_ip headers name = Option.bind (header_str headers name) (\<lambda>s. parse_ip (trim_blanks s))"

definition first_xff :: "header_map \<Rightarrow> ip_addr option" where
  "first_xff headers = Option.bind (header_str headers ''x-forwarded-for'')
     (\<lambda>s. parse_ip (trim_blanks (hd (split_on (CHR '','') s))))"

type_synonym ip_net = "ip_addr \<Rightarrow> bool"

definition peer_trusted :: "ip_net list \<Rightarrow> ip_addr \<Rightarrow> bool" where
  "peer_trusted trusted_cidrs ip = list_ex (\<lambda>n. n ip) trusted_cidrs"

fun walk_hops :: "ip_net list \<Rightarrow> string list \<Rightarrow> ip_addr option" where
  "walk_hops cidrs [] = None"
| "walk_hops cidrs (hop # hops) = (case parse_ip (trim_blanks hop) of
     Some ip \<Rightarrow> if \<not> peer_trusted cidrs ip then Some ip else walk_hops cidrs hops
   | None \<Rightarrow> walk_hops cidrs hops)"

definition resolve_client_ip ::
  "header_map \<Rightarrow> ip_addr option \<Rightarrow> bool \<Rightarrow> ip_net list \<Rightarrow> ip_addr option" where
  "resolve_client_ip headers peer_ip trust trusted_cidrs =
     (if \<not> trust then map_option normalize_ip peer_ip
      else if trusted_cidrs = []
      then (case first_xff headers of
              Some ip \<Rightarrow> Some (normalize_ip ip)
            | None \<Rightarrow> (case header_ip headers ''x-real-ip'' of
                Some ip \<Rightarrow> Some (normalize_ip ip)
              | None \<Rightarrow> map_option normalize_ip peer_ip))
      else (case peer_ip of
              None \<Rightarrow> None
            | Some p \<Rightarrow>
                if \<not> peer_trusted trusted_cidrs p then Some (normalize_ip p)
                else (case Option.bind (header_str headers ''x-forwarded-for'')
                             (\<lambda>xff. walk_hops trusted_cidrs (rev (split_on (CHR '','') xff))) of
                        Some ip \<Rightarrow> Some (normalize_ip ip)
                      | None \<Rightarrow> (case header_ip headers ''x-real-ip'' of
                          Some ip \<Rightarrow> Some (normalize_ip ip)
                        | None \<Rightarrow> Some (normalize_ip p)))))"

section \<open>The limiter\<close>

record rate_limit_entry =
  failures :: nat
  window_start :: nat
  lockout_start :: "nat option"

record rate_limiter =
  entries :: "ip_addr \<rightharpoonup> rate_limit_entry"
  account_entries :: "string \<rightharpoonup> rate_limit_entry"
  max_attempts :: nat
  window :: nat
  lockout :: nat
  account_max_attempts :: nat
  account_window :: nat
  account_lockout :: nat

definition new_rate_limiter :: "nat \<Rightarrow> nat \<Rightarrow> nat \<Rightarrow> rate_limiter" where
  "new_rate_limiter m w l = \<lparr>entries = Map.empty, account_entries = Map.empty, max_attempts = m, window = w, lockout = l,
     account_max_attempts = 10, account_window = 3600 * 1000, account_lockout = 3600 * 1000\<rparr>"

definition with_account_policy :: "nat \<Rightarrow> nat \<Rightarrow> nat \<Rightarrow> rate_limiter \<Rightarrow> rate_limiter" where
  "with_account_policy m w l rl = rl\<lparr>account_max_attempts := m, account_window := w, account_lockout := l\<rparr>"

text \<open>What \<open>is_limited\<close> and \<open>record_failure\<close> do to one counter, alike for addresses and for accounts.\<close>

definition entry_limited :: "nat \<Rightarrow> nat \<Rightarrow> rate_limit_entry option \<Rightarrow> bool" where
  "entry_limited lock now eo = (case eo of
     None \<Rightarrow> False
   | Some e \<Rightarrow> (case lockout_start e of None \<Rightarrow> False | Some ls \<Rightarrow> now - ls < lock))"

definition count_failure :: "nat \<Rightarrow> nat \<Rightarrow> nat \<Rightarrow> rate_limit_entry \<Rightarrow> bool \<times> rate_limit_entry" where
  "count_failure m w now e =
     (let e = (if now - window_start e \<ge> w then e\<lparr>failures := 0, window_start := now\<rparr> else e);
          e = e\<lparr>failures := failures e + 1\<rparr>
      in if failures e \<ge> m then (True, e\<lparr>lockout_start := Some now\<rparr>) else (False, e))"

definition entry_failure ::
  "nat \<Rightarrow> nat \<Rightarrow> nat \<Rightarrow> nat \<Rightarrow> rate_limit_entry option \<Rightarrow> bool \<times> rate_limit_entry" where
  "entry_failure m w l now eo =
     (let e = (case eo of Some e \<Rightarrow> e
               | None \<Rightarrow> \<lparr>failures = 0, window_start = now, lockout_start = None\<rparr>)
      in case lockout_start e of
           None \<Rightarrow> count_failure m w now e
         | Some ls \<Rightarrow>
             if now - ls \<ge> l then count_failure m w now (e\<lparr>failures := 0, window_start := now, lockout_start := None\<rparr>)
             else (True, e))"

definition is_limited :: "nat \<Rightarrow> ip_addr \<Rightarrow> rate_limiter \<Rightarrow> bool" where
  "is_limited now ip rl = entry_limited (lockout rl) now (entries rl ip)"

definition progressive_delay :: "ip_addr \<Rightarrow> rate_limiter \<Rightarrow> nat" where
  "progressive_delay ip rl = (case entries rl ip of
     None \<Rightarrow> 0
   | Some e \<Rightarrow> if failures e \<le> 10 then 0
               else min (min u64_max (100 * 2 ^ min (failures e - 10) 6)) 5000)"

definition failure_count :: "ip_addr \<Rightarrow> rate_limiter \<Rightarrow> nat" where
  "failure_count ip rl = (case entries rl ip of None \<Rightarrow> 0 | Some e \<Rightarrow> failures e)"

definition record_failure :: "nat \<Rightarrow> ip_addr \<Rightarrow> rate_limiter \<Rightarrow> bool \<times> rate_limiter" where
  "record_failure now ip rl = (case entry_failure (max_attempts rl) (window rl) (lockout rl) now (entries rl ip) of
     (locked, e) \<Rightarrow> (locked, rl\<lparr>entries := (entries rl)(ip \<mapsto> e)\<rparr>))"

definition record_success :: "ip_addr \<Rightarrow> rate_limiter \<Rightarrow> rate_limiter" where
  "record_success ip rl = rl\<lparr>entries := (entries rl)(ip := None)\<rparr>"

definition is_limited_account :: "nat \<Rightarrow> string \<Rightarrow> rate_limiter \<Rightarrow> bool" where
  "is_limited_account now subject rl \<longleftrightarrow>
     subject \<noteq> [] \<and> entry_limited (account_lockout rl) now (account_entries rl subject)"

definition record_failure_account :: "nat \<Rightarrow> string \<Rightarrow> rate_limiter \<Rightarrow> bool \<times> rate_limiter" where
  "record_failure_account now subject rl =
     (if subject = [] then (False, rl)
      else case entry_failure (account_max_attempts rl) (account_window rl) (account_lockout rl) now (account_entries rl subject) of
        (locked, e) \<Rightarrow> (locked, rl\<lparr>account_entries := (account_entries rl)(subject \<mapsto> e)\<rparr>))"

definition record_success_account :: "string \<Rightarrow> rate_limiter \<Rightarrow> rate_limiter" where
  "record_success_account subject rl =
     (if subject = [] then rl else rl\<lparr>account_entries := (account_entries rl)(subject := None)\<rparr>)"

definition should_keep_entry :: "rate_limit_entry \<Rightarrow> nat \<Rightarrow> nat \<Rightarrow> nat \<Rightarrow> bool" where
  "should_keep_entry e now l w \<longleftrightarrow>
     (case lockout_start e of Some ls \<Rightarrow> now - ls < l | None \<Rightarrow> False) \<or> now - window_start e < w"

definition retain :: "('v \<Rightarrow> bool) \<Rightarrow> ('k \<rightharpoonup> 'v) \<Rightarrow> ('k \<rightharpoonup> 'v)" where
  "retain P m = (\<lambda>k. case m k of None \<Rightarrow> None | Some v \<Rightarrow> if P v then Some v else None)"

definition cleanup_expired :: "nat \<Rightarrow> rate_limiter \<Rightarrow> rate_limiter" where
  "cleanup_expired now rl = rl\<lparr>
     entries := retain (\<lambda>e. should_keep_entry e now (lockout rl) (window rl)) (entries rl),
     account_entries := retain (\<lambda>e. should_keep_entry e now (account_lockout rl) (account_window rl)) (account_entries rl)\<rparr>"

section \<open>The guard around a login\<close>

record blocked =
  blocked_ip :: ip_addr
  blocked_count :: nat

record rate_limit_guard =
  guard_ip :: ip_addr
  guard_subject :: string

text \<open>\<open>enter_with_account\<close> returns the guard and the time it sleeps first.\<close>

definition enter_with_account ::
  "nat \<Rightarrow> rate_limiter \<Rightarrow> ip_addr option \<Rightarrow> string \<Rightarrow> (blocked, rate_limit_guard \<times> nat) result" where
  "enter_with_account now rl client subject =
     (let ip = (case client of Some ip \<Rightarrow> ip | None \<Rightarrow> V4 [0, 0, 0, 0])
      in if is_limited now ip rl then Inl \<lparr>blocked_ip = ip, blocked_count = failure_count ip rl\<rparr>
         else if subject \<noteq> [] \<and> is_limited_account now subject rl then Inl \<lparr>blocked_ip = ip, blocked_count = 0\<rparr>
         else Inr (\<lparr>guard_ip = ip, guard_subject = subject\<rparr>, progressive_delay ip rl))"

definition guard_success :: "rate_limit_guard \<Rightarrow> rate_limiter \<Rightarrow> rate_limiter" where
  "guard_success g rl = record_success_account (guard_subject g) (record_success (guard_ip g) rl)"

definition guard_failure :: "nat \<Rightarrow> rate_limit_guard \<Rightarrow> rate_limiter \<Rightarrow> rate_limiter" where
  "guard_failure now g rl =
     (let rl = snd (record_failure now (guard_ip g) rl)
      in if guard_subject g \<noteq> [] then snd (record_failure_account now (guard_subject g) rl) else rl)"

text \<open>Logins one after the other, and the periodic clean-up.  A login enters at one instant and its outcome
  is recorded at a later one.\<close>

datatype auth_event =
    Login nat nat "ip_addr option" string bool
  | Cleanup nat

fun auth_step :: "auth_event \<Rightarrow> rate_limiter \<Rightarrow> rate_limiter" where
  "auth_step (Login t t' client subject success) rl = (case enter_with_account t rl client subject of
     Inl _ \<Rightarrow> rl
   | Inr (g, _) \<Rightarrow> if success then guard_success g rl else guard_failure t' g rl)"
| "auth_step (Cleanup t) rl = cleanup_expired t rl"

fun admitted :: "string \<Rightarrow> auth_event \<Rightarrow> rate_limiter \<Rightarrow> bool" where
  "admitted s (Login t t' client subject success) rl \<longleftrightarrow> subject = s \<and> is_ok (enter_with_account t rl client subject)"
| "admitted s (Cleanup t) rl \<longleftrightarrow> False"

fun guesses :: "string \<Rightarrow> auth_event list \<Rightarrow> rate_limiter \<Rightarrow> nat" where
  "guesses s [] rl = 0"
| "guesses s (ev # evs) rl = (if admitted s ev rl then 1 else 0) + guesses s evs (auth_step ev rl)"

section \<open>Every counter stays in its range\<close>

definition entry_ok :: "nat \<Rightarrow> rate_limit_entry \<Rightarrow> bool" where
  "entry_ok m e \<longleftrightarrow> 1 \<le> failures e \<and> failures e \<le> max 1 m \<and> (lockout_start e = None \<longleftrightarrow> failures e < m)"

definition limiter_ok :: "rate_limiter \<Rightarrow> bool" where
  "limiter_ok rl \<longleftrightarrow> (\<forall>e \<in> ran (entries rl). entry_ok (max_attempts rl) e)
     \<and> (\<forall>e \<in> ran (account_entries rl). entry_ok (account_max_attempts rl) e)"

lemma limiter_okI:
  assumes "\<And>ip e. entries rl ip = Some e \<Longrightarrow> entry_ok (max_attempts rl) e"
    and "\<And>s e. account_entries rl s = Some e \<Longrightarrow> entry_ok (account_max_attempts rl) e"
  shows "limiter_ok rl"
  using assms by (auto simp: limiter_ok_def ran_def)

lemma limiter_okD:
  assumes "limiter_ok rl"
  shows "entries rl ip = Some e \<Longrightarrow> entry_ok (max_attempts rl) e"
    and "account_entries rl s = Some e \<Longrightarrow> entry_ok (account_max_attempts rl) e"
  using assms by (auto simp: limiter_ok_def ran_def)

lemma count_failure_ok:
  assumes "failures e < max 1 m" "lockout_start e = None"
  shows "entry_ok m (snd (count_failure m w now e))"
  using assms by (auto simp: count_failure_def Let_def entry_ok_def max_def split: if_splits)

lemma entry_failure_ok:
  assumes "\<And>e. eo = Some e \<Longrightarrow> entry_ok m e"
  shows "entry_ok m (snd (entry_failure m w l now eo))"
proof (cases eo)
  case None
  then show ?thesis by (simp add: entry_failure_def Let_def) (rule count_failure_ok, simp_all)
next
  case (Some e)
  then have ok: "entry_ok m e" by (rule assms)
  show ?thesis
  proof (cases "lockout_start e")
    case None
    with ok have "failures e < max 1 m" by (simp add: entry_ok_def)
    with None Some count_failure_ok show ?thesis by (simp add: entry_failure_def)
  next
    case (Some ls)
    with \<open>eo = _\<close> ok show ?thesis by (auto simp: entry_failure_def intro!: count_failure_ok)
  qed
qed

lemma record_failure_ok: "limiter_ok rl \<Longrightarrow> limiter_ok (snd (record_failure now ip rl))"
  using entry_failure_ok [OF limiter_okD(1)]
  by (auto simp: record_failure_def case_prod_beta split: if_splits intro!: limiter_okI dest: limiter_okD)

lemma record_failure_account_ok: "limiter_ok rl \<Longrightarrow> limiter_ok (snd (record_failure_account now s rl))"
  using entry_failure_ok [OF limiter_okD(2)]
  by (auto simp: record_failure_account_def case_prod_beta split: if_splits intro!: limiter_okI dest: limiter_okD)

lemma guard_success_ok: "limiter_ok rl \<Longrightarrow> limiter_ok (guard_success g rl)"
  by (auto simp: guard_success_def record_success_def record_success_account_def
      intro!: limiter_okI split: if_splits dest: limiter_okD)

lemma cleanup_ok: "limiter_ok rl \<Longrightarrow> limiter_ok (cleanup_expired t rl)"
  by (auto simp: cleanup_expired_def retain_def intro!: limiter_okI split: option.splits if_splits dest: limiter_okD)

lemma guard_failure_ok: "limiter_ok rl \<Longrightarrow> limiter_ok (guard_failure now g rl)"
  by (simp add: guard_failure_def Let_def record_failure_ok record_failure_account_ok)

lemma auth_step_ok: "limiter_ok rl \<Longrightarrow> limiter_ok (auth_step ev rl)"
  by (cases ev) (auto simp: guard_success_ok guard_failure_ok cleanup_ok split: sum.splits)

lemma auth_run_ok: "limiter_ok rl \<Longrightarrow> limiter_ok (fold auth_step evs rl)"
  by (induction evs arbitrary: rl) (auto simp: auth_step_ok)

definition start_limiter :: "nat \<Rightarrow> nat \<Rightarrow> nat \<Rightarrow> nat \<Rightarrow> nat \<Rightarrow> nat \<Rightarrow> rate_limiter" where
  "start_limiter m w l m' w' l' = with_account_policy m' w' l' (new_rate_limiter m w l)"

lemma start_limiter_simps [simp]:
  "entries (start_limiter m w l m' w' l') = Map.empty"
  "account_entries (start_limiter m w l m' w' l') = Map.empty"
  "max_attempts (start_limiter m w l m' w' l') = m" "account_max_attempts (start_limiter m w l m' w' l') = m'"
  "window (start_limiter m w l m' w' l') = w" "account_window (start_limiter m w l m' w' l') = w'"
  "lockout (start_limiter m w l m' w' l') = l" "account_lockout (start_limiter m w l m' w' l') = l'"
  by (simp_all add: start_limiter_def with_account_policy_def new_rate_limiter_def)

text \<open>
  C28. After any history of logins and clean-ups every counter of the limiter is between one and the
  configured number of attempts (one, when that is zero), and an entry is locked exactly when its
  counter has reached that number; so the 32-bit counter never overflows.
\<close>

theorem counters_stay_in_range: "limiter_ok (fold auth_step evs (start_limiter m w l m' w' l'))"
  by (rule auth_run_ok) (simp add: limiter_ok_def)

section \<open>How many guesses pass\<close>

text \<open>The policy never changes.\<close>

definition same_policy :: "rate_limiter \<Rightarrow> rate_limiter \<Rightarrow> bool" where
  "same_policy a b \<longleftrightarrow> max_attempts a = max_attempts b \<and> window a = window b \<and> lockout a = lockout b
     \<and> account_max_attempts a = account_max_attempts b \<and> account_window a = account_window b \<and> account_lockout a = account_lockout b"

lemma same_policy_step: "same_policy (auth_step ev rl) rl"
  by (cases ev) (auto simp: same_policy_def guard_success_def guard_failure_def record_success_def record_success_account_def
      record_failure_def record_failure_account_def cleanup_expired_def Let_def split: sum.splits prod.splits if_splits)

lemma same_policy_run: "same_policy (fold auth_step evs rl) rl"
proof (induction evs arbitrary: rl)
  case (Cons ev evs)
  from Cons.IH [of "auth_step ev rl"] same_policy_step [of ev rl] show ?case by (simp add: same_policy_def)
qed (simp add: same_policy_def)

text \<open>Events between two instants, without a successful login to the account.\<close>

fun guessing :: "nat \<Rightarrow> nat \<Rightarrow> string \<Rightarrow> auth_event \<Rightarrow> bool" where
  "guessing t0 t1 s (Login t t' client subject success) \<longleftrightarrow> t0 \<le> t \<and> t \<le> t' \<and> t' \<le> t1 \<and> \<not> (subject = s \<and> success)"
| "guessing t0 t1 s (Cleanup t) \<longleftrightarrow> t0 \<le> t \<and> t \<le> t1"

text \<open>An upper bound of the guesses that can still pass after the instant \<open>t0\<close>.\<close>

definition budget :: "nat \<Rightarrow> nat \<Rightarrow> rate_limit_entry option \<Rightarrow> nat" where
  "budget m t0 eo = (case eo of
     None \<Rightarrow> max 1 m
   | Some e \<Rightarrow> (case lockout_start e of
       None \<Rightarrow> if t0 \<le> window_start e then m - failures e else 2 * m - 1 - failures e
     | Some ls \<Rightarrow> if t0 \<le> ls then 0 else max 1 m))"

lemma budget_le:
  assumes "\<And>e. eo = Some e \<Longrightarrow> entry_ok m e"
  shows "budget m t0 eo \<le> max (max 1 m) (2 * m - 2)"
proof (cases eo)
  case (Some e)
  with assms have "entry_ok m e" by simp
  with Some show ?thesis by (auto simp: budget_def entry_ok_def split: option.split)
qed (simp add: budget_def)

lemma count_failure_budget:
  assumes "lockout_start e = None" "failures e = 0" "window_start e = t" "t0 \<le> t"
  shows "Suc (budget m t0 (Some (snd (count_failure m w t e)))) \<le> max 1 m"
  using assms by (auto simp: count_failure_def budget_def Let_def max_def split: option.splits if_splits)

lemma unlocked_failure_budget:
  assumes ok: "entry_ok m e" and e: "lockout_start e = None" and t: "t0 \<le> t" "t < t0 + w"
  shows "Suc (budget m t0 (Some (snd (count_failure m w t e)))) \<le> budget m t0 (Some e)"
proof -
  from ok e have f: "1 \<le> failures e" "failures e < m" by (auto simp: entry_ok_def)
  show ?thesis
  proof (cases "w \<le> t - window_start e")
    case True
    with t have "window_start e < t0" by linarith
    with True f e t show ?thesis by (auto simp: count_failure_def budget_def Let_def)
  next
    case False
    with f e t show ?thesis by (auto simp: count_failure_def budget_def Let_def)
  qed
qed

lemma entry_failure_budget:
  assumes ok: "\<And>e. eo = Some e \<Longrightarrow> entry_ok m e" and free: "\<not> entry_limited l t eo"
    and t: "t0 \<le> t" "t \<le> t'" "t' < t0 + w" "t' < t0 + l"
  shows "Suc (budget m t0 (Some (snd (entry_failure m w l t' eo)))) \<le> budget m t0 eo"
proof (cases eo)
  case None
  with t count_failure_budget [of "\<lparr>failures = 0, window_start = t', lockout_start = None\<rparr>" t' t0 m w]
  show ?thesis by (simp add: entry_failure_def budget_def)
next
  case (Some e)
  show ?thesis
  proof (cases "lockout_start e")
    case None
    with Some unlocked_failure_budget [OF ok [OF Some] None, of t0 t' w] t show ?thesis by (simp add: entry_failure_def)
  next
    case (Some ls)
    with \<open>eo = _\<close> free have "l \<le> t - ls" by (simp add: entry_limited_def)
    with t have "l \<le> t' - ls" "ls < t0" by linarith+
    with Some \<open>eo = _\<close> t
      count_failure_budget [of "e\<lparr>failures := 0, window_start := t', lockout_start := None\<rparr>" t' t0 m w]
    show ?thesis by (simp add: entry_failure_def budget_def)
  qed
qed

lemma cleanup_budget:
  assumes ok: "\<And>e. eo = Some e \<Longrightarrow> entry_ok m e" and t: "t0 \<le> t" "t < t0 + w" "t < t0 + l"
  shows "budget m t0 (case eo of None \<Rightarrow> None | Some e \<Rightarrow> if should_keep_entry e t l w then Some e else None) \<le> budget m t0 eo"
proof (cases eo)
  case (Some e)
  from ok [OF Some] Some t show ?thesis
    by (auto simp: budget_def should_keep_entry_def entry_ok_def split: option.splits)
qed simp

lemma record_failure_account_entries [simp]: "account_entries (snd (record_failure now ip rl)) = account_entries rl"
  by (simp add: record_failure_def case_prod_beta)

lemma guard_failure_account:
  assumes "guard_subject g = s" "s \<noteq> []"
  shows "account_entries (guard_failure now g rl) s
    = Some (snd (entry_failure (account_max_attempts rl) (account_window rl) (account_lockout rl) now (account_entries rl s)))"
  using assms by (simp add: guard_failure_def record_failure_account_def record_failure_def case_prod_beta)

lemma other_account_untouched:
  assumes "guard_subject g \<noteq> s"
  shows "account_entries (guard_failure now g rl) s = account_entries rl s"
    and "account_entries (guard_success g rl) s = account_entries rl s"
  using assms
  by (simp_all add: guard_failure_def guard_success_def record_failure_account_def record_success_account_def
      record_success_def case_prod_beta Let_def)

lemma enter_with_account_Inr:
  assumes "enter_with_account t rl client subject = Inr (g, d)"
  shows "guard_subject g = subject" "subject \<noteq> [] \<Longrightarrow> \<not> entry_limited (account_lockout rl) t (account_entries rl subject)"
  using assms by (auto simp: enter_with_account_def Let_def is_limited_account_def split: if_splits)

lemma auth_step_budget:
  assumes ok: "limiter_ok rl" and s: "s \<noteq> []" and ev: "guessing t0 t1 s ev"
    and t1: "t1 < t0 + account_window rl" "t1 < t0 + account_lockout rl"
  shows "(if admitted s ev rl then 1 else 0) + budget (account_max_attempts rl) t0 (account_entries (auth_step ev rl) s)
    \<le> budget (account_max_attempts rl) t0 (account_entries rl s)"
proof (cases ev)
  case (Cleanup t)
  with cleanup_budget [of "account_entries rl s" "account_max_attempts rl" t0 t "account_window rl" "account_lockout rl"]
    limiter_okD(2) [OF ok] ev t1
  show ?thesis by (simp add: cleanup_expired_def retain_def)
next
  case (Login t t' client subject success)
  show ?thesis
  proof (cases "enter_with_account t rl client subject")
    case (Inl b)
    with Login show ?thesis by simp
  next
    case (Inr gd)
    then obtain g d where e: "enter_with_account t rl client subject = Inr (g, d)" by (cases gd) simp
    note g = enter_with_account_Inr [OF e]
    show ?thesis
    proof (cases "subject = s")
      case True
      with g s ev Login have "\<not> success" "\<not> entry_limited (account_lockout rl) t (account_entries rl s)" by auto
      with entry_failure_budget [of "account_entries rl s" "account_max_attempts rl" "account_lockout rl" t t0 t' "account_window rl"]
        limiter_okD(2) [OF ok] Login ev t1
      have "Suc (budget (account_max_attempts rl) t0 (Some (snd (entry_failure (account_max_attempts rl) (account_window rl)
          (account_lockout rl) t' (account_entries rl s))))) \<le> budget (account_max_attempts rl) t0 (account_entries rl s)" by simp
      with True Login e s g(1) \<open>\<not> success\<close> show ?thesis by (simp add: guard_failure_account)
    next
      case False
      with Login e g(1) show ?thesis by (simp add: other_account_untouched)
    qed
  qed
qed

lemma guesses_le_budget:
  assumes "limiter_ok rl" "s \<noteq> []" "list_all (guessing t0 t1 s) evs"
    "t1 < t0 + account_window rl" "t1 < t0 + account_lockout rl"
  shows "guesses s evs rl \<le> budget (account_max_attempts rl) t0 (account_entries rl s)"
  using assms
proof (induction evs arbitrary: rl)
  case (Cons ev evs)
  have p: "same_policy (auth_step ev rl) rl" by (rule same_policy_step)
  with Cons.prems have "guesses s evs (auth_step ev rl)
      \<le> budget (account_max_attempts rl) t0 (account_entries (auth_step ev rl) s)"
    using Cons.IH [of "auth_step ev rl"] by (simp add: auth_step_ok same_policy_def)
  with auth_step_budget [of rl s t0 t1 ev] Cons.prems show ?case by (simp split: if_splits)
qed simp


text \<open>The bound is reached: with three attempts in a window of ten instants, four guesses pass within four
  instants, because the window starts at the first failure and does not slide.\<close>

definition late_guesses :: "auth_event list" where
  "late_guesses = map (\<lambda>t. Login t t None ''bootstrap'' False) [9, 10, 11, 12]"

lemma failed_login_step:
  assumes "account_entries rl s = eo" "entries rl (V4 [0, 0, 0, 0]) = io"
    "\<not> entry_limited (account_lockout rl) t eo" "\<not> entry_limited (lockout rl) t io" "s \<noteq> []"
    "snd (entry_failure (account_max_attempts rl) (account_window rl) (account_lockout rl) t eo) = e"
    "snd (entry_failure (max_attempts rl) (window rl) (lockout rl) t io) = i"
  shows "admitted s (Login t t None s False) rl"
    "auth_step (Login t t None s False) rl = rl\<lparr>entries := (entries rl)(V4 [0, 0, 0, 0] \<mapsto> i), account_entries := (account_entries rl)(s \<mapsto> e)\<rparr>"
  using assms by (auto simp: enter_with_account_def is_limited_def is_limited_account_def guard_failure_def
      record_failure_def record_failure_account_def case_prod_beta Let_def)

definition guessed :: "nat \<Rightarrow> nat \<Rightarrow> rate_limiter" where
  "guessed n t = (start_limiter 100 10 10 3 10 10)
     \<lparr>entries := [V4 [0, 0, 0, 0] \<mapsto> \<lparr>failures = n, window_start = t, lockout_start = None\<rparr>],
      account_entries := [''bootstrap'' \<mapsto> \<lparr>failures = n, window_start = t, lockout_start = None\<rparr>]\<rparr>"

lemma guessed_steps:
  "auth_step (Login 0 0 None ''bootstrap'' False) (start_limiter 100 10 10 3 10 10) = guessed (Suc 0) 0"
  "admitted ''bootstrap'' (Login 9 9 None ''bootstrap'' False) (guessed (Suc 0) 0)"
  "auth_step (Login 9 9 None ''bootstrap'' False) (guessed (Suc 0) 0) = guessed (Suc (Suc 0)) 0"
  "admitted ''bootstrap'' (Login 10 10 None ''bootstrap'' False) (guessed (Suc (Suc 0)) 0)"
  "auth_step (Login 10 10 None ''bootstrap'' False) (guessed (Suc (Suc 0)) 0) = guessed (Suc 0) 10"
  "admitted ''bootstrap'' (Login 11 11 None ''bootstrap'' False) (guessed (Suc 0) 10)"
  "auth_step (Login 11 11 None ''bootstrap'' False) (guessed (Suc 0) 10) = guessed (Suc (Suc 0)) 10"
  "admitted ''bootstrap'' (Login 12 12 None ''bootstrap'' False) (guessed (Suc (Suc 0)) 10)"
  by (simp_all add: failed_login_step guessed_def entry_failure_def count_failure_def entry_limited_def del: auth_step.simps admitted.simps)


lemma progressive_delay_bounds: "progressive_delay ip rl \<le> 5000"
  by (simp add: progressive_delay_def split: option.split)

section \<open>Forged headers\<close>

lemma walk_hops_append:
  "walk_hops cidrs (xs @ ys) = (case walk_hops cidrs xs of Some ip \<Rightarrow> Some ip | None \<Rightarrow> walk_hops cidrs ys)"
  by (induction xs) (auto split: option.splits)

lemma walk_hops_Some:
  "walk_hops cidrs xs = Some ip \<Longrightarrow> \<exists>hop \<in> set xs. parse_ip (trim_blanks hop) = Some ip \<and> \<not> peer_trusted cidrs ip"
  by (induction xs) (auto split: option.splits if_splits)

lemma walk_hops_None:
  "walk_hops cidrs xs = None \<longleftrightarrow> (\<forall>h \<in> set xs. \<forall>ip. parse_ip (trim_blanks h) = Some ip \<longrightarrow> peer_trusted cidrs ip)"
  by (induction xs) (auto split: option.splits)

definition untrusted_hop :: "ip_net list \<Rightarrow> string \<Rightarrow> bool" where
  "untrusted_hop cidrs hop = (case parse_ip (trim_blanks hop) of Some ip \<Rightarrow> \<not> peer_trusted cidrs ip | None \<Rightarrow> False)"

lemma walk_hops_finds:
  assumes "list_ex (untrusted_hop cidrs) hops"
  obtains hop ip where "hop \<in> set hops" "parse_ip (trim_blanks hop) = Some ip" "\<not> peer_trusted cidrs ip"
    "walk_hops cidrs hops = Some ip"
proof -
  from assms have "walk_hops cidrs hops \<noteq> None"
    by (auto simp: walk_hops_None list_ex_iff untrusted_hop_def split: option.splits)
  then obtain ip where ip: "walk_hops cidrs hops = Some ip" by blast
  from walk_hops_Some [OF this] obtain hop where "hop \<in> set hops" "parse_ip (trim_blanks hop) = Some ip" "\<not> peer_trusted cidrs ip"
    by blast
  from that [OF this ip] show thesis .
qed

lemma resolve_walks:
  assumes "cidrs \<noteq> []" "header_str headers ''x-forwarded-for'' = Some xff"
    "walk_hops cidrs (rev (split_on (CHR '','') xff)) = Some ip"
  shows "resolve_client_ip headers peer trust cidrs
    = (case peer of Some p \<Rightarrow> Some (normalize_ip (if trust \<and> peer_trusted cidrs p then ip else p)) | None \<Rightarrow> None)"
  using assms by (auto simp: resolve_client_ip_def split: option.split)


definition the_proxy :: ip_net where
  "the_proxy ip \<longleftrightarrow> ip = V4 [10, 0, 0, 1]"


text \<open>Two ways in which a forged address is believed: the proxy adds a header line of its own instead of
  appending to the client's, or appends a hop with a port.\<close>

lemma separate_header_line_is_spoofable:
  "resolve_client_ip [(''x-forwarded-for'', ''6.6.6.6''), (''x-forwarded-for'', ''203.0.113.7'')]
     (Some (V4 [10, 0, 0, 1])) True [the_proxy] = Some (V4 [6, 6, 6, 6])"
  by code_simp

lemma hop_with_a_port_is_spoofable:
  "resolve_client_ip [(''x-forwarded-for'', ''6.6.6.6, 203.0.113.7:4711'')]
     (Some (V4 [10, 0, 0, 1])) True [the_proxy] = Some (V4 [6, 6, 6, 6])"
  by code_simp

text \<open>An address and its form mapped into IPv6 share one counter.\<close>

lemma mapped_address_is_normalised: "map_option normalize_ip (parse_ip ''::ffff:1.2.3.4'') = parse_ip ''1.2.3.4''"
  by code_simp

end
