(* ===== verification/Spec2Isabelle.thy ===== *)
theory Spec2Isabelle
  imports Incidents ListingCorrect ReferenceLock Gate EncryptedStorage AwsChunked RateLimiter
begin

text \<open>
  Verification of the DeltaGlider proxy, an S3 proxy that stores similar objects as deltas.

  \<^bold>\<open>The program.\<close>  A request passes the maintenance gate, authentication and its rate limiter, and reaches
  the engine (\<open>src/src/deltaglider/engine\<close>).  The engine keeps the objects of one directory, a deltaspace,
  as one reference and deltas against it, or as passthrough copies where deltas do not pay; it goes
  through a codec (the \<open>xdelta3\<close> process), two in-memory caches, and a storage backend, which may be
  wrapped by an encrypting one.  Beside the requests run maintenance jobs, whose rows and leases live in
  a database, and nodes of a cluster that elect leaders through conditional writes to a bucket.

  \<^bold>\<open>Theories, bottom up.\<close>
  \<^item> \<open>Prelude\<close>: results, the string operations of the Rust standard library, saturating arithmetic.
  \<^item> \<open>Types\<close>: \<open>types.rs\<close>; keys, metadata, header maps, removal of duplicates from listings.
  \<^item> \<open>Usage\<close>: \<open>bucket_usage.rs\<close> and \<open>deltaglider/savings.rs\<close>; the space counter and the scan totals.
  \<^item> \<open>Policy\<close>: \<open>bucket_policy.rs\<close>, \<open>deltaglider/file_router.rs\<close>, \<open>security.rs\<close>; bucket policies and public prefixes.
  \<^item> \<open>Storage\<close>: \<open>storage/filesystem.rs\<close> and \<open>storage/xattr_meta.rs\<close>; the state is the table of files, and every
    call consumes one tick of a schedule of faults.
  \<^item> \<open>Codec\<close>: \<open>deltaglider/codec.rs\<close>.
  \<^item> \<open>Engine\<close>, \<open>Store\<close>, \<open>Retrieve\<close>, \<open>Delete\<close>: \<open>engine/mod.rs\<close>, \<open>engine/store.rs\<close>, \<open>engine/retrieve.rs\<close>,
    with \<open>cache.rs\<close>, \<open>metadata_cache.rs\<close> and \<open>spool.rs\<close>.  The record \<open>engine\<close> extends the storage state by
    the caches and the counter; each function of the code is one definition that returns a result and a state.
  \<^item> \<open>Consistency\<close>, \<open>StoreCorrect\<close>, \<open>RetrieveCorrect\<close>, \<open>DeleteCorrect\<close>, \<open>History\<close>, \<open>EngineProps\<close>: the invariant of the
    engine and its proofs.  The locale \<open>object_store\<close> of \<open>History\<close> is the contract of an object store, a map
    from names to bodies; the engine is an interpretation of it.
  \<^item> \<open>Incidents\<close>: evaluated runs in which the code does not do what it means to.
  \<^item> \<open>Listing\<close>, \<open>ListingCorrect\<close>: pages, delimiters, both listings of the filesystem backend, removal of buckets.
  \<^item> \<open>Encryption\<close>, \<open>EncryptionCorrect\<close>, \<open>EncryptedStorage\<close>: \<open>storage/encrypting.rs\<close>; both wire formats, the
    writers and the streaming reader, key selection, and the wrapper over the filesystem backend.
  \<^item> \<open>Leases\<close>, \<open>LeaseSafety\<close>, \<open>ReferenceLock\<close>: \<open>coordination/lease.rs\<close>, \<open>s3_lease.rs\<close>, \<open>reference_lock.rs\<close> and
    the leases of \<open>config_db/job_store.rs\<close>.  The locales \<open>leader_lease\<close> and \<open>exclusive_lease\<close> are the contract
    of a lease, interpreted on the rows of the database; nodes that interleave are a step relation.
  \<^item> \<open>Maintenance\<close>: \<open>maintenance/store.rs\<close>, \<open>job_loop.rs\<close> and the counting phase of \<open>maintenance/worker.rs\<close>.
  \<^item> \<open>Gate\<close>: \<open>maintenance/gate.rs\<close> with the arming and draining of the worker; requests and worker are a step relation.
  \<^item> \<open>Http\<close>: methods, headers and \<open>percent_decode\<close> of \<open>api/auth.rs\<close>.
  \<^item> \<open>RateLimiter\<close>: \<open>rate_limiter.rs\<close>; the counters, the guard around logins, the client address.
  \<^item> \<open>AwsChunked\<close>: \<open>api/aws_chunked.rs\<close>; the decoder of chunk-framed bodies.

  \<^bold>\<open>What the lemmas show.\<close>
  \<^item> Engine: after any history of requests, under any faults of the writes, a read returns the last
    acknowledged body (a simulation of the map from names to bodies); stores and deletes keep every other
    object and every delta decodable whatever fails; reconstructed bytes are checked; ranges are slices.
  \<^item> Listing: paging ends and shows every key once, in order; reading one directory equals walking the
    tree; a bucket is removed only when no listing shows an object in it.
  \<^item> Encryption: what was written by any path is read back, whole and by ranges, also after a rotation of
    the key; a truncated object is refused; nonces within an object differ.
  \<^item> Leases and jobs: at most one holder at a time, a dead leader is replaced, waiting for the lock
    returns; one active job per bucket, settled jobs are final, an abandoned job is resumed; no client
    write is served while a job rewrites its bucket.
  \<^item> Front: exactly the framed bodies are decoded; guesses at an account are bounded; forged hops do not
    change the client address; anonymous reads reach public directories only.
  \<^item> Data: round trips of keys and headers, the counter equals the scan.

  \<^bold>\<open>Parameters and hypotheses.\<close>  Code that is not part of the sources is an argument.  \<open>env_ok\<close> says that
  \<open>xdelta3\<close> decodes what it encoded and that a checksum is not empty; it does not say that checksums are
  free of collisions, and the theorems speak of checksums where the code compares them.  \<open>aead_ok\<close> is the
  documented behaviour of AES-GCM and of the random source; \<open>cas_service_ok\<close> that of conditional S3
  requests.  Trusted networks are predicates on addresses.  Clocks are arguments; a node's clock may lag.

  \<^bold>\<open>Bounds.\<close>  Recursion is structural or has a measure.  The two loops that the code bounds only by its
  surroundings, following the tokens of a listing (\<open>list_all_pages\<close>) and waiting for the reference lock
  (\<open>acquire_blocking\<close>), are partial functions whose value is \<open>None\<close> when they do not return; it is proved
  that they return.  Sizes that the code keeps in 64 bits saturate or wrap as there; chunk indices are
  checked against 32 bits, and the counters of the limiter are shown to stay below their bound.

  \<^bold>\<open>Not modelled.\<close>
  \<^item> The S3 backend but for its reading of metadata headers, the S3 front end, the admin interface, OIDC,
    event delivery and the probes of backends: handlers and clients around the AWS SDK, \<open>s3s\<close>, \<open>axum\<close> and
    \<open>reqwest\<close>, whose code is not part of the sources.
  \<^item> IAM and admission: permissions are decided by the \<open>iam-rs\<close> crate; their own rules, the planners of
    lifecycle and replication, multipart uploads, transfers and sessions are left to later work.
  \<^item> The routing backend and the forwarding operations of the encrypting one, which only pass calls on.
  \<^item> The rewriting phases of maintenance jobs, backfill and migrations between backends.
  \<^item> Configuration files, the tables of the configuration database other than jobs and leases, process
    set-up, logging, metrics and the command line: input and output.
  \<^item> Interleavings inside one engine operation: the engine's operations are atomic here, as the lock of a
    deltaspace makes them; \<open>Incidents\<close> shows a publication to the cache that escapes that lock.
\<close>

end
